(* ===== verification/Prelude.thy ===== *)
theory Prelude
  imports Complex_Main "HOL-Library.Sublist"
begin

text \<open>
  The vocabulary every component shares: Go's errors, its clock (\<^verbatim>\<open>time.Time\<close>,
  \<^verbatim>\<open>time.Duration\<close>), \<^verbatim>\<open>int64\<close> arithmetic, and the functions of the packages
  \<^verbatim>\<open>strings\<close> and \<^verbatim>\<open>strconv\<close> that the sources call.
  A Go string is a sequence of bytes, which is what \<^typ>\<open>string\<close> is.
\<close>

named_theorems go_simps "equations that evaluate the modelled standard library"

section \<open>Errors and panics\<close>

text \<open>
  An error value. \<open>Canceled\<close> and \<open>DeadlineExceeded\<close> are the two values of
  \<^verbatim>\<open>ctx.Err()\<close>; \<open>Wrapped\<close> is \<^verbatim>\<open>fmt.Errorf("...: %w", err)\<close>.
\<close>

datatype go_error = NewError string | Canceled | DeadlineExceeded | Wrapped string go_error

text \<open>The result of code that may panic.\<close>

datatype 'a outcome = Ret 'a | Panic string

fun no_panic :: "'a outcome \<Rightarrow> bool" where
  "no_panic (Ret _) = True"
| "no_panic (Panic _) = False"

section \<open>int64\<close>

definition int64_min :: int where "int64_min = - (2 ^ 63)"
definition int64_max :: int where "int64_max = 2 ^ 63 - 1"

text \<open>Two's complement wrap-around of a 64-bit result.\<close>

definition wrap64 :: "int \<Rightarrow> int" where
  "wrap64 x = (x + 2 ^ 63) mod 2 ^ 64 - 2 ^ 63"

definition is_int64 :: "int \<Rightarrow> bool" where
  "is_int64 x \<longleftrightarrow> int64_min \<le> x \<and> x \<le> int64_max"

lemma wrap64_id: "is_int64 x \<Longrightarrow> wrap64 x = x"
  by (simp add: is_int64_def int64_min_def int64_max_def wrap64_def)

lemma wrap64_small: "- (2 ^ 63) \<le> x \<Longrightarrow> x < 2 ^ 63 \<Longrightarrow> wrap64 x = x"
  by (simp add: wrap64_def)

lemma is_int64_wrap64: "is_int64 (wrap64 x)"
proof -
  have "0 \<le> (x + 2 ^ 63) mod 2 ^ 64" and "(x + 2 ^ 63) mod 2 ^ 64 < (2::int) ^ 64"
    by simp_all
  then show ?thesis
    by (simp add: is_int64_def int64_min_def int64_max_def wrap64_def)
qed

lemma wrap64_add_left: "wrap64 (wrap64 x + y) = wrap64 (x + y)"
proof -
  have "((x + 2 ^ 63) mod 2 ^ 64 - 2 ^ 63 + y + 2 ^ 63) mod 2 ^ 64
      = ((x + 2 ^ 63) mod 2 ^ 64 + y) mod (2::int) ^ 64"
    by (simp add: algebra_simps)
  also have "\<dots> = (x + 2 ^ 63 + y) mod 2 ^ 64"
    by (simp only: mod_add_left_eq)
  finally show ?thesis
    by (simp add: wrap64_def algebra_simps)
qed

section \<open>Time\<close>

text \<open>
  A \<^verbatim>\<open>time.Time\<close> is an instant in nanoseconds counted from Go's zero time
  (1 January of year 1, UTC), so \<open>0\<close> is \<^verbatim>\<open>time.Time{}\<close>; a
  \<^verbatim>\<open>time.Duration\<close> is an int64 number of nanoseconds.
  The clock is not part of the program: each operation that calls \<^verbatim>\<open>time.Now()\<close>
  takes the reading as an argument.
\<close>

type_synonym time = int
type_synonym duration = int

definition Millisecond :: duration where "Millisecond = 1000000"
definition Second :: duration where "Second = 1000 * Millisecond"

definition IsZero :: "time \<Rightarrow> bool" where
  "IsZero t \<longleftrightarrow> t = 0"

text \<open>\<^verbatim>\<open>t.Sub(u)\<close> saturates at the ends of the int64 range.\<close>

definition Sub :: "time \<Rightarrow> time \<Rightarrow> duration" where
  "Sub t u = max int64_min (min int64_max (t - u))"

lemma Sub_small: "is_int64 (t - u) \<Longrightarrow> Sub t u = t - u"
  by (auto simp: Sub_def is_int64_def)

lemma Sub_mono: "t \<le> t' \<Longrightarrow> Sub t u \<le> Sub t' u"
  by (auto simp: Sub_def)

lemma Sub_less_iff: "d \<le> int64_max \<Longrightarrow> int64_min < d \<Longrightarrow> Sub t u < d \<longleftrightarrow> t - u < d"
  by (auto simp: Sub_def)

lemma Sub_greater_iff: "d < int64_max \<Longrightarrow> int64_min \<le> d \<Longrightarrow> d < Sub t u \<longleftrightarrow> d < t - u"
  by (auto simp: Sub_def int64_min_def int64_max_def)

section \<open>The package strings\<close>

text \<open>
  \<^verbatim>\<open>strings.ToLower\<close>, seen through what the sources ask of its result: whether it is
  empty, and whether it contains an ASCII word. ASCII letters are lowered. Of the other code
  points two lower to an ASCII letter: U+0130 (bytes C4 B0) to \<open>i\<close> and U+212A
  (bytes E2 84 AA) to \<open>k\<close>. C4 and E2 only ever start a code point, so scanning for
  the byte sequences finds exactly the occurrences the decoder finds. Every other code point
  of two or more bytes has a lower-case form without ASCII bytes and is left as it is.
\<close>

definition ascii_lower :: "char \<Rightarrow> char" where
  "ascii_lower c = (let n = of_char c :: nat in if 65 \<le> n \<and> n \<le> 90 then char_of (n + 32) else c)"

fun ToLower :: "string \<Rightarrow> string" where
  "ToLower [] = []"
| "ToLower (c # s) =
     (if c = CHR 0xC4 \<and> take 1 s = [CHR 0xB0] then CHR ''i'' # ToLower (drop 1 s)
      else if c = CHR 0xE2 \<and> take 2 s = [CHR 0x84, CHR 0xAA] then CHR ''k'' # ToLower (drop 2 s)
      else ascii_lower c # ToLower s)"

lemma ToLower_eq_Nil [simp]: "ToLower s = [] \<longleftrightarrow> s = []"
  by (cases s) auto

text \<open>\<^verbatim>\<open>strings.Contains(s, sub)\<close>.\<close>

fun Contains :: "string \<Rightarrow> string \<Rightarrow> bool" where
  "Contains [] sub \<longleftrightarrow> sub = []"
| "Contains (c # s) sub \<longleftrightarrow> prefix sub (c # s) \<or> Contains s sub"

lemma Contains_iff_sublist: "Contains s sub \<longleftrightarrow> sublist sub s"
  by (induction s) (auto simp: sublist_Cons_right)

lemma Contains_append: "Contains (a @ sub @ b) sub"
  by (auto simp: Contains_iff_sublist)

text \<open>
  \<^verbatim>\<open>strings.TrimSpace\<close>: the UTF-8 encodings of the 25 code points of Unicode's
  \<open>White_Space\<close> are cut off both ends.
\<close>

definition white_space :: "string list" where
  "white_space =
     map (\<lambda>n. [char_of n]) [9, 10, 11, 12, 13, 32 :: nat] @
     [[CHR 0xC2, CHR 0x85], [CHR 0xC2, CHR 0xA0], [CHR 0xE1, CHR 0x9A, CHR 0x80]] @
     map (\<lambda>n. [CHR 0xE2, CHR 0x80, char_of n]) [128, 129, 130, 131, 132, 133, 134, 135, 136, 137, 138 :: nat] @
     [[CHR 0xE2, CHR 0x80, CHR 0xA8], [CHR 0xE2, CHR 0x80, CHR 0xA9], [CHR 0xE2, CHR 0x80, CHR 0xAF],
      [CHR 0xE2, CHR 0x81, CHR 0x9F], [CHR 0xE3, CHR 0x80, CHR 0x80]]"

text \<open>Drops the leading members of \<open>ws\<close>; the fuel, the length of the string, is the most that can go.\<close>

fun trim_left :: "string list \<Rightarrow> nat \<Rightarrow> string \<Rightarrow> string" where
  "trim_left ws 0 s = s"
| "trim_left ws (Suc n) s =
     (case find (\<lambda>w. prefix w s) ws of None \<Rightarrow> s | Some w \<Rightarrow> trim_left ws n (drop (length w) s))"

definition TrimLeft :: "string \<Rightarrow> string" where
  "TrimLeft s = trim_left white_space (length s) s"

definition TrimRight :: "string \<Rightarrow> string" where
  "TrimRight s = rev (trim_left (map rev white_space) (length s) (rev s))"

definition TrimSpace :: "string \<Rightarrow> string" where
  "TrimSpace s = TrimRight (TrimLeft s)"

text \<open>\<^verbatim>\<open>strings.Join\<close>.\<close>

fun Join :: "string list \<Rightarrow> string \<Rightarrow> string" where
  "Join [] sep = []"
| "Join [x] sep = x"
| "Join (x # y # xs) sep = x @ sep @ Join (y # xs) sep"

lemma Join_Cons: "xs \<noteq> [] \<Longrightarrow> Join (x # xs) sep = x @ sep @ Join xs sep"
  by (cases xs) auto

lemma Join_eq_Nil: "sep \<noteq> [] \<Longrightarrow> Join xs sep = [] \<longleftrightarrow> xs = [] \<or> xs = [[]]"
  by (cases "(xs, sep)" rule: Join.cases) auto

text \<open>A string whose first and last bytes are printable ASCII other than the space is its own trimming.\<close>

definition plain_char :: "char \<Rightarrow> bool" where
  "plain_char c \<longleftrightarrow> (let n = of_char c :: nat in 32 < n \<and> n < 127)"

lemma white_space_not_plain:
  "w \<in> set white_space \<Longrightarrow> w \<noteq> [] \<and> \<not> plain_char (hd w) \<and> \<not> plain_char (last w)"
  by (auto simp: white_space_def plain_char_def Let_def)

lemma trim_left_plain:
  assumes "\<forall>w \<in> set ws. w \<noteq> [] \<and> \<not> plain_char (hd w)" and "s = [] \<or> plain_char (hd s)"
  shows "trim_left ws n s = s"
proof (cases n)
  case (Suc m)
  have "\<not> prefix w s" if "w \<in> set ws" for w
  proof
    assume "prefix w s"
    with that assms(1) have "s \<noteq> []" and "hd w = hd s"
      by (auto simp: prefix_def)
    with that assms show False by auto
  qed
  then have "find (\<lambda>w. prefix w s) ws = None"
    by (simp add: find_None_iff)
  with Suc show ?thesis by simp
qed simp

lemma TrimSpace_plain:
  assumes "s = [] \<or> plain_char (hd s) \<and> plain_char (last s)"
  shows "TrimSpace s = s"
proof -
  have 1: "\<forall>w \<in> set white_space. w \<noteq> [] \<and> \<not> plain_char (hd w)"
    using white_space_not_plain by blast
  have 2: "\<forall>w \<in> set (map rev white_space). w \<noteq> [] \<and> \<not> plain_char (hd w)"
    using white_space_not_plain by (auto simp: hd_rev)
  have "TrimLeft s = s"
    unfolding TrimLeft_def using assms by (intro trim_left_plain 1) auto
  moreover have "TrimRight s = s"
    unfolding TrimRight_def using assms by (subst trim_left_plain [OF 2]) (auto simp: hd_rev)
  ultimately show ?thesis by (simp add: TrimSpace_def)
qed

section \<open>Numbers as text\<close>

definition digit_char :: "nat \<Rightarrow> char" where
  "digit_char d = char_of (48 + d)"

fun show_nat :: "nat \<Rightarrow> string" where
  "show_nat n = (if n < 10 then [digit_char n] else show_nat (n div 10) @ [digit_char (n mod 10)])"

declare show_nat.simps [simp del]

lemma show_nat_small [go_simps]: "n < 10 \<Longrightarrow> show_nat n = [digit_char n]"
  by (simp add: show_nat.simps)

lemma show_nat_big: "\<not> n < 10 \<Longrightarrow> show_nat n = show_nat (n div 10) @ [digit_char (n mod 10)]"
  by (subst show_nat.simps) simp

lemma show_nat_not_Nil [simp]: "show_nat n \<noteq> []"
  by (subst show_nat.simps) simp

text \<open>\<^verbatim>\<open>%d\<close> of an int64.\<close>

definition show_int :: "int \<Rightarrow> string" where
  "show_int i = (if i < 0 then ''-'' @ show_nat (nat (- i)) else show_nat (nat i))"

section \<open>Lists and maps\<close>

lemma filter_eq_self: "(\<And>x. x \<in> set xs \<Longrightarrow> P x) \<Longrightarrow> filter P xs = xs"
  by (simp add: filter_id_conv)

text \<open>A Go map value: \<^const>\<open>None\<close> is the nil map, which reads like an empty one.\<close>

type_synonym ('k, 'v) go_map = "('k \<times> 'v) list option"

definition map_get :: "('k, 'v) go_map \<Rightarrow> 'k \<Rightarrow> 'v option" where
  "map_get m k = (case m of None \<Rightarrow> None | Some al \<Rightarrow> map_of al k)"

lemma map_get_simps [simp]:
  "map_get None k = None" "map_get (Some al) k = map_of al k"
  by (simp_all add: map_get_def)

text \<open>Indexing a Go \<^verbatim>\<open>map[K][]V\<close>: a missing key reads as the nil slice.\<close>

definition slice_at :: "('k \<rightharpoonup> 'v list) \<Rightarrow> 'k \<Rightarrow> 'v list" where
  "slice_at m k = (case m k of None \<Rightarrow> [] | Some vs \<Rightarrow> vs)"

lemma slice_at_simps [simp]:
  "slice_at (m(k \<mapsto> v)) k = v"
  "k' \<noteq> k \<Longrightarrow> slice_at (m(k \<mapsto> v)) k' = slice_at m k'"
  "slice_at (m(k := None)) k = []"
  "k' \<noteq> k \<Longrightarrow> slice_at (m(k := None)) k' = slice_at m k'"
  "slice_at Map.empty k = []"
  by (simp_all add: slice_at_def)

section \<open>Runs of a step relation\<close>

inductive run :: "('s \<Rightarrow> 'op \<Rightarrow> 's \<Rightarrow> bool) \<Rightarrow> 's \<Rightarrow> 'op list \<Rightarrow> 's \<Rightarrow> bool" for step where
  run_nil: "run step s [] s"
| run_cons: "step s op s1 \<Longrightarrow> run step s1 ops s' \<Longrightarrow> run step s (op # ops) s'"

inductive_simps run_Nil [simp]: "run step s [] s'"
inductive_simps run_Cons [simp]: "run step s (op # ops) s'"

lemma run_append: "run step s (ops @ ops') s' \<longleftrightarrow> (\<exists>s1. run step s ops s1 \<and> run step s1 ops' s')"
  by (induction ops arbitrary: s) auto

text \<open>What every step keeps holds along every run.\<close>

lemma run_invariant:
  assumes "run step s ops s'" and "P s" and "\<And>s op s'. step s op s' \<Longrightarrow> P s \<Longrightarrow> P s'"
  shows "P s'"
  using assms(1,2) by (induction rule: run.induct) (auto dest: assms(3))

text \<open>A statement about a run's history and the state it has led to.\<close>

lemma run_history:
  assumes "run step s ops s'" "P [] s" and "\<And>ops s1 op s2. P ops s1 \<Longrightarrow> step s1 op s2 \<Longrightarrow> P (ops @ [op]) s2"
  shows "P ops s'"
  using assms(1)
proof (induction ops arbitrary: s' rule: rev_induct)
  case Nil
  with assms(2) show ?case by simp
next
  case (snoc op ops)
  then show ?case by (auto simp: run_append intro: assms(3))
qed

section \<open>Refinement\<close>

text \<open>
  A step relation that implements an abstract one: what a step does to the abstract state is a (short) abstract
  run, and \<open>tells op as\<close> says which abstract operations an operation may stand for. The runs follow.
\<close>

locale refines =
  fixes step :: "'s \<Rightarrow> 'op \<Rightarrow> 's \<Rightarrow> bool" and astep :: "'a \<Rightarrow> 'b \<Rightarrow> 'a \<Rightarrow> bool"
    and abs :: "'s \<Rightarrow> 'a" and inv :: "'s \<Rightarrow> bool" and tells :: "'op \<Rightarrow> 'b list \<Rightarrow> bool"
  assumes keeps: "step s op s' \<Longrightarrow> inv s \<Longrightarrow> inv s'"
    and simulates: "step s op s' \<Longrightarrow> inv s \<Longrightarrow> \<exists>as. tells op as \<and> run astep (abs s) as (abs s')"
begin

lemma run_refines: "run step s ops s' \<Longrightarrow> inv s \<Longrightarrow> \<exists>ass. list_all2 tells ops ass \<and> run astep (abs s) (concat ass) (abs s')"
proof (induction rule: run.induct)
  case (run_nil s)
  then show ?case by (intro exI [of _ "[]"]) simp
next
  case (run_cons s op s1 ops s')
  obtain as where as: "tells op as" "run astep (abs s) as (abs s1)" using simulates [OF run_cons.hyps(1) run_cons.prems] by blast
  obtain ass where "list_all2 tells ops ass" "run astep (abs s1) (concat ass) (abs s')"
    using run_cons.IH keeps [OF run_cons.hyps(1) run_cons.prems] by blast
  with as show ?case by (intro exI [of _ "as # ass"]) (auto simp: run_append)
qed

end

end
