(* ===== verification/GoNet.thy ===== *)
theory GoNet
  imports Prelude
begin

text \<open>
  The part of the package \<^verbatim>\<open>net\<close> that \<^verbatim>\<open>pkg/domain/ingest/consent.go\<close>
  uses: \<^verbatim>\<open>net.ParseIP\<close> (which is \<^verbatim>\<open>netip.ParseAddr\<close> without zones),
  \<^verbatim>\<open>IP.To4\<close> and \<^verbatim>\<open>IP.String\<close>. An \<^verbatim>\<open>net.IP\<close> is its list of 16 bytes.
\<close>

type_synonym bytes = "nat list"

definition byte_list :: "nat \<Rightarrow> bytes \<Rightarrow> bool" where
  "byte_list n bs \<longleftrightarrow> length bs = n \<and> list_all (\<lambda>b. b < 256) bs"

section \<open>Reading an address\<close>

definition is_digit :: "char \<Rightarrow> bool" where
  "is_digit c \<longleftrightarrow> (let n = of_char c :: nat in 48 \<le> n \<and> n \<le> 57)"

definition digit_val :: "char \<Rightarrow> nat" where
  "digit_val c = of_char c - 48"

text \<open>
  \<^verbatim>\<open>parseIPv4Fields\<close>: the fields read so far, the value and number of digits of the
  current one. \<open>fs\<close> has at most three members when a dot is read; an empty field, a leading
  zero, a value above 255 and any other byte are errors.
\<close>

fun parseIPv4Fields :: "nat list \<Rightarrow> nat \<Rightarrow> nat \<Rightarrow> string \<Rightarrow> nat list option" where
  "parseIPv4Fields fs v d [] = (if length fs = 3 \<and> 0 < d then Some (fs @ [v]) else None)"
| "parseIPv4Fields fs v d (c # s) =
     (if is_digit c then
        (if d = 1 \<and> v = 0 then None
         else let v' = v * 10 + digit_val c in
           if 255 < v' then None else parseIPv4Fields fs v' (Suc d) s)
      else if c = CHR ''.'' then
        (if d = 0 \<or> s = [] \<or> length fs = 3 then None else parseIPv4Fields (fs @ [v]) 0 0 s)
      else None)"

definition hex_val :: "char \<Rightarrow> nat option" where
  "hex_val c = (let n = of_char c :: nat in
     if 48 \<le> n \<and> n \<le> 57 then Some (n - 48)
     else if 97 \<le> n \<and> n \<le> 102 then Some (n - 97 + 10)
     else if 65 \<le> n \<and> n \<le> 70 then Some (n - 65 + 10)
     else None)"

text \<open>
  The hexadecimal number at the head of a group: number of digits, value and rest;
  \<open>None\<close> for a fifth digit (a value of at most four digits is below \<open>2^16\<close>).
\<close>

fun scan_hex :: "nat \<Rightarrow> nat \<Rightarrow> string \<Rightarrow> (nat \<times> nat \<times> string) option" where
  "scan_hex off acc [] = Some (off, acc, [])"
| "scan_hex off acc (c # s) =
     (case hex_val c of
        None \<Rightarrow> Some (off, acc, c # s)
      | Some h \<Rightarrow> if 3 < off then None else scan_hex (Suc off) (16 * acc + h) s)"

text \<open>
  The bytes \<open>bs\<close> read when the string ended, and the position of the ellipsis:
  the zeros it stands for are put in.
\<close>

definition expand_ellipsis :: "bytes \<Rightarrow> nat option \<Rightarrow> bytes option" where
  "expand_ellipsis bs ell =
     (case ell of
        None \<Rightarrow> if length bs < 16 then None else Some bs
      | Some e \<Rightarrow> if length bs < 16 then Some (take e bs @ replicate (16 - length bs) 0 @ drop e bs) else None)"

text \<open>
  The loop of \<^verbatim>\<open>parseIPv6\<close> over the groups. \<open>bs\<close> are the bytes read so far (the Go
  index \<^verbatim>\<open>i\<close> is their number), \<open>ell\<close> is the position of the ellipsis. A group is followed
  by the end, by an embedded IPv4 address, or by a colon and more.
\<close>

function parse6_loop :: "bytes \<Rightarrow> nat option \<Rightarrow> string \<Rightarrow> bytes option" where
  "parse6_loop bs ell s =
     (if 16 \<le> length bs then (if s = [] then expand_ellipsis bs ell else None)
      else case scan_hex 0 0 s of
        None \<Rightarrow> None
      | Some (off, acc, r) \<Rightarrow>
          if off = 0 then None
          else if take 1 r = ''.'' then
            (if ell = None \<and> length bs \<noteq> 12 then None
             else if 16 < length bs + 4 then None
             else case parseIPv4Fields [] 0 0 s of
               None \<Rightarrow> None
             | Some fs \<Rightarrow> expand_ellipsis (bs @ fs) ell)
          else
            let bs' = bs @ [acc div 256 mod 256, acc mod 256] in
            (case r of
               [] \<Rightarrow> expand_ellipsis bs' ell
             | c # r1 \<Rightarrow>
                 if c \<noteq> CHR '':'' \<or> r1 = [] then None
                 else if hd r1 = CHR '':'' then
                   (if ell \<noteq> None then None
                    else if tl r1 = [] then expand_ellipsis bs' (Some (length bs'))
                    else parse6_loop bs' (Some (length bs')) (tl r1))
                 else parse6_loop bs' ell r1))"
  by pat_completeness auto
termination
  by (relation "measure (\<lambda>(bs, ell, s). 16 - length bs)") auto

declare parse6_loop.simps [simp del]

definition parseIPv6 :: "string \<Rightarrow> bytes option" where
  "parseIPv6 s =
     (if take 2 s = ''::'' then
        (if drop 2 s = [] then Some (replicate 16 0) else parse6_loop [] (Some 0) (drop 2 s))
      else parse6_loop [] None s)"

text \<open>The four bytes of an IPv4 address as the 16 bytes of its IPv4-mapped form.\<close>

definition v4_prefix :: bytes where
  "v4_prefix = replicate 10 0 @ [255, 255]"

text \<open>
  \<^verbatim>\<open>net.ParseIP\<close>; \<^const>\<open>None\<close> is the nil IP. The first dot or colon decides the
  family. A percent sign starts a zone, with which \<^verbatim>\<open>ParseIP\<close> answers nil.
\<close>

definition ParseIP :: "string \<Rightarrow> bytes option" where
  "ParseIP s =
     (case find (\<lambda>c. c = CHR ''.'' \<or> c = CHR '':'' \<or> c = CHR ''%'') s of
        None \<Rightarrow> None
      | Some c \<Rightarrow>
          if c = CHR ''.'' then map_option (\<lambda>fs. v4_prefix @ fs) (parseIPv4Fields [] 0 0 s)
          else if c = CHR '':'' then (if CHR ''%'' \<in> set s then None else parseIPv6 s)
          else None)"

text \<open>\<^verbatim>\<open>ip.To4()\<close> of a 16-byte IP.\<close>

definition To4 :: "bytes \<Rightarrow> bytes option" where
  "To4 ip = (if take 12 ip = v4_prefix then Some (drop 12 ip) else None)"

section \<open>Writing an address\<close>

definition string4 :: "bytes \<Rightarrow> string" where
  "string4 bs = Join (map show_nat bs) ''.''"

definition hex_char :: "nat \<Rightarrow> char" where
  "hex_char d = (if d < 10 then char_of (48 + d) else char_of (87 + d))"

fun show_hex :: "nat \<Rightarrow> string" where
  "show_hex n = (if n < 16 then [hex_char n] else show_hex (n div 16) @ [hex_char (n mod 16)])"

declare show_hex.simps [simp del]

text \<open>The eight 16-bit groups of 16 bytes.\<close>

fun groups :: "bytes \<Rightarrow> nat list" where
  "groups (a # b # bs) = (256 * a + b) # groups bs"
| "groups _ = []"

text \<open>
  The first longest run of at least two zero groups, as \<open>(start, end)\<close>:
  the two nested loops of \<^verbatim>\<open>appendTo6\<close>.
\<close>

definition zero_run :: "nat list \<Rightarrow> nat \<Rightarrow> nat" where
  "zero_run gs i = length (takeWhile (\<lambda>g. g = 0) (drop i gs))"

definition longest_run :: "nat list \<Rightarrow> (nat \<times> nat) option" where
  "longest_run gs =
     fold (\<lambda>i best. let l = zero_run gs i in
             if 2 \<le> l \<and> (case best of None \<Rightarrow> True | Some (s, e) \<Rightarrow> e - s < l) then Some (i, i + l) else best)
       [0..<8] None"

definition string6 :: "bytes \<Rightarrow> string" where
  "string6 bs = (let gs = groups bs in
     case longest_run gs of
       None \<Rightarrow> Join (map show_hex gs) '':''
     | Some (s, e) \<Rightarrow> Join (map show_hex (take s gs)) '':'' @ ''::'' @ Join (map show_hex (drop e gs)) '':'')"

text \<open>\<^verbatim>\<open>ip.String()\<close> for an IP of 4 or 16 bytes; of any other length it is a diagnostic text.\<close>

definition IP_String :: "bytes \<Rightarrow> string" where
  "IP_String ip =
     (if ip = [] then ''<nil>''
      else if length ip = 4 then string4 ip
      else if length ip = 16 then (case To4 ip of Some v4 \<Rightarrow> string4 v4 | None \<Rightarrow> string6 ip)
      else ''?'' @ concat (map (\<lambda>b. [hex_char (b div 16), hex_char (b mod 16)]) ip))"

section \<open>What the reader accepts of what the writer writes\<close>

subsection \<open>IPv4\<close>

lemma digit_char_simps [go_simps]:
  assumes "d < 10"
  shows "is_digit (digit_char d)" "digit_val (digit_char d) = d" "digit_char d \<noteq> CHR ''.''"
    "digit_char d \<noteq> CHR '':''" "digit_char d \<noteq> CHR ''%''" "plain_char (digit_char d)"
proof -
  have n: "of_char (digit_char d) = 48 + d"
    using assms by (simp add: digit_char_def)
  show "is_digit (digit_char d)" and "digit_val (digit_char d) = d" and "plain_char (digit_char d)"
    using assms by (simp_all add: is_digit_def digit_val_def plain_char_def n)
  have "digit_char d \<noteq> c" if "of_char c < (48::nat) \<or> 57 < (of_char c :: nat)" for c
    using that n assms by auto
  then show "digit_char d \<noteq> CHR ''.''" "digit_char d \<noteq> CHR '':''" "digit_char d \<noteq> CHR ''%''"
    by auto
qed

lemma show_nat_byte:
  assumes "n < 256"
  shows "show_nat n =
    (if n < 10 then [digit_char n]
     else if n < 100 then [digit_char (n div 10), digit_char (n mod 10)]
     else [digit_char (n div 100), digit_char (n div 10 mod 10), digit_char (n mod 10)])"
proof -
  have "n div 10 div 10 = n div 100" by (simp add: div_mult2_eq [symmetric])
  with assms show ?thesis
    by (auto simp: show_nat_big show_nat_small)
qed

lemma show_nat_digits: "c \<in> set (show_nat n) \<Longrightarrow> \<exists>d < 10. c = digit_char d"
proof (induction n rule: show_nat.induct)
  case (1 n)
  have "n mod 10 < 10" by simp
  with 1 show ?case
    by (cases "n < 10") (auto simp: show_nat_small show_nat_big simp del: mod_less_divisor)
qed

lemma parseIPv4Fields_digit:
  assumes "e < 10" "d = 1 \<longrightarrow> v \<noteq> 0" "v * 10 + e < 256"
  shows "parseIPv4Fields fs v d (digit_char e # s) = parseIPv4Fields fs (v * 10 + e) (Suc d) s"
  using assms by (auto simp: digit_char_simps Let_def)

lemma parseIPv4Fields_octet:
  assumes "n < 256"
  shows "\<exists>d > 0. \<forall>rest. parseIPv4Fields fs 0 0 (show_nat n @ rest) = parseIPv4Fields fs n d rest"
proof -
  consider "n < 10" | "10 \<le> n" "n < 100" | "100 \<le> n" by linarith
  then show ?thesis
  proof cases
    case 1
    then have "parseIPv4Fields fs 0 0 (show_nat n @ rest) = parseIPv4Fields fs n 1 rest" for rest
      by (simp add: show_nat_small parseIPv4Fields_digit del: parseIPv4Fields.simps)
    then show ?thesis by blast
  next
    case 2
    then have "0 < n div 10" "n div 10 < 10" "n div 10 * 10 + n mod 10 = n" "\<not> n < 10" by auto
    with 2 have "parseIPv4Fields fs 0 0 (show_nat n @ rest) = parseIPv4Fields fs n 2 rest" for rest
      by (simp add: show_nat_byte parseIPv4Fields_digit numeral_2_eq_2 del: parseIPv4Fields.simps)
    then show ?thesis by (intro exI [of _ 2]) simp
  next
    case 3
    define p q r where "p = n div 100" and "q = n div 10 mod 10" and "r = n mod 10"
    have "n div 100 = n div 10 div 10" by (simp add: div_mult2_eq [symmetric])
    then have "n div 10 = p * 10 + q" by (simp add: p_def q_def)
    then have n: "n = (p * 10 + q) * 10 + r" using div_mult_mod_eq [of n 10] by (simp add: r_def)
    have pqr: "0 < p" "p < 10" "q < 10" "r < 10"
      using assms 3 by (auto simp: p_def q_def r_def div_eq_0_iff div_greater_zero_iff)
    have "show_nat n = [digit_char p, digit_char q, digit_char r]"
      using assms 3 by (simp add: show_nat_byte p_def q_def r_def)
    with pqr assms n have "parseIPv4Fields fs 0 0 (show_nat n @ rest) = parseIPv4Fields fs n 3 rest" for rest
      by (simp add: parseIPv4Fields_digit numeral_3_eq_3 del: parseIPv4Fields.simps)
    then show ?thesis by (intro exI [of _ 3]) simp
  qed
qed

lemma parse_string4:
  assumes "byte_list 4 bs"
  shows "parseIPv4Fields [] 0 0 (string4 bs) = Some bs"
proof -
  from assms obtain a b c d where bs: "bs = [a, b, c, d]" "a < 256" "b < 256" "c < 256" "d < 256"
    by (auto simp: byte_list_def numeral_eq_Suc length_Suc_conv)
  note oct = parseIPv4Fields_octet
  obtain da where a: "da > 0" "\<And>fs rest. parseIPv4Fields [] 0 0 (show_nat a @ rest) = parseIPv4Fields [] a da rest"
    using oct [OF bs(2)] by blast
  obtain db where b: "db > 0" "\<And>rest. parseIPv4Fields [a] 0 0 (show_nat b @ rest) = parseIPv4Fields [a] b db rest"
    using oct [OF bs(3)] by blast
  obtain dc where c: "dc > 0" "\<And>rest. parseIPv4Fields [a, b] 0 0 (show_nat c @ rest) = parseIPv4Fields [a, b] c dc rest"
    using oct [OF bs(4)] by blast
  obtain dd where d: "dd > 0" "\<And>rest. parseIPv4Fields [a, b, c] 0 0 (show_nat d @ rest) = parseIPv4Fields [a, b, c] d dd rest"
    using oct [OF bs(5)] by blast
  have "\<not> is_digit (CHR ''.'')" by (simp add: is_digit_def)
  then show ?thesis
    using a b c d(1) d(2) [of "[]"] by (simp add: bs(1) string4_def)
qed

lemma parseIPv4Fields_bytes:
  "parseIPv4Fields fs v d s = Some bs \<Longrightarrow> v < 256 \<Longrightarrow> list_all (\<lambda>b. b < 256) fs \<Longrightarrow> byte_list 4 bs"
proof (induction fs v d s arbitrary: bs rule: parseIPv4Fields.induct)
  case (2 fs v d c s)
  then show ?case
    by (auto simp: Let_def split: if_splits)
qed (auto simp: byte_list_def split: if_splits)

lemma first_mark_string4:
  assumes "byte_list 4 bs"
  shows "find (\<lambda>c. c = CHR ''.'' \<or> c = CHR '':'' \<or> c = CHR ''%'') (string4 bs) = Some CHR ''.''"
proof -
  from assms obtain a b c d where bs: "bs = [a, b, c, d]"
    by (auto simp: byte_list_def numeral_eq_Suc length_Suc_conv)
  have "find (\<lambda>c. c = CHR ''.'' \<or> c = CHR '':'' \<or> c = CHR ''%'') (xs @ CHR ''.'' # ys) = Some CHR ''.''"
    if "\<forall>c \<in> set xs. \<exists>d < 10. c = digit_char d" for xs ys
    using that by (induction xs) (auto simp: digit_char_simps)
  then show ?thesis
    using show_nat_digits by (simp add: bs string4_def)
qed

lemma ParseIP_string4: "byte_list 4 bs \<Longrightarrow> ParseIP (string4 bs) = Some (v4_prefix @ bs)"
  by (simp add: ParseIP_def first_mark_string4 parse_string4)

subsection \<open>Groups and bytes\<close>

definition ungroup :: "nat list \<Rightarrow> bytes" where
  "ungroup gs = concat (map (\<lambda>g. [g div 256 mod 256, g mod 256]) gs)"

lemma ungroup_simps [simp]:
  "ungroup [] = []"
  "ungroup (g # gs) = (g div 256 mod 256) # (g mod 256) # ungroup gs"
  "ungroup (xs @ ys) = ungroup xs @ ungroup ys"
  by (simp_all add: ungroup_def)

lemma length_ungroup [simp]: "length (ungroup gs) = 2 * length gs"
  by (induction gs) auto

lemma ungroup_groups: "even (length bs) \<Longrightarrow> list_all (\<lambda>b. b < 256) bs \<Longrightarrow> ungroup (groups bs) = bs"
  by (induction bs rule: groups.induct) (auto simp: mod_mult_self4)

lemma length_groups: "length (groups bs) = length bs div 2"
  by (induction bs rule: groups.induct) auto

lemma groups_bound: "list_all (\<lambda>b. b < 256) bs \<Longrightarrow> list_all (\<lambda>g. g < 65536) (groups bs)"
  by (induction bs rule: groups.induct) auto

lemma groups_append: "even (length xs) \<Longrightarrow> groups (xs @ ys) = groups xs @ groups ys"
  by (induction xs rule: groups.induct) auto

subsection \<open>IPv6\<close>

lemma hex_val_hex_char [go_simps]: "h < 16 \<Longrightarrow> hex_val (hex_char h) = Some h"
  by (auto simp: hex_val_def hex_char_def Let_def)

lemma hex_char_plain:
  assumes "h < 16"
  shows "hex_char h \<noteq> CHR ''.''" "hex_char h \<noteq> CHR '':''" "hex_char h \<noteq> CHR ''%''" "plain_char (hex_char h)"
proof -
  have no: "hex_val CHR ''.'' = None" "hex_val CHR '':'' = None" "hex_val CHR ''%'' = None"
    by (simp_all add: hex_val_def)
  show "hex_char h \<noteq> CHR ''.''" "hex_char h \<noteq> CHR '':''" "hex_char h \<noteq> CHR ''%''"
    using hex_val_hex_char [OF assms] no by (auto simp del: One_nat_def)
  show "plain_char (hex_char h)"
    using assms by (auto simp: plain_char_def hex_char_def)
qed

text \<open>\<open>show_hex n\<close> is a non-empty list of hexadecimal digits with value \<open>n\<close>.\<close>

lemma show_hex_digits:
  "\<exists>hs. show_hex n = map hex_char hs \<and> hs \<noteq> [] \<and> list_all (\<lambda>h. h < 16) hs \<and>
     foldl (\<lambda>a h. 16 * a + h) 0 hs = n \<and> (\<forall>k. 0 < k \<longrightarrow> n < 16 ^ k \<longrightarrow> length hs \<le> k)"
proof (induction n rule: show_hex.induct)
  case (1 n)
  show ?case
  proof (cases "n < 16")
    case True
    then show ?thesis
      by (intro exI [of _ "[n]"]) (auto simp: show_hex.simps)
  next
    case False
    with 1 obtain hs where hs: "show_hex (n div 16) = map hex_char hs" "hs \<noteq> []" "list_all (\<lambda>h. h < 16) hs"
      "foldl (\<lambda>a h. 16 * a + h) 0 hs = n div 16" "\<forall>k. 0 < k \<longrightarrow> n div 16 < 16 ^ k \<longrightarrow> length hs \<le> k"
      by auto
    have "length (hs @ [n mod 16]) \<le> k" if k: "0 < k" "n < 16 ^ k" for k
    proof -
      obtain j where j: "k = Suc j" using k(1) by (cases k) auto
      with k False have "0 < j" by (cases j) auto
      moreover from k j have "n div 16 < 16 ^ j" by (simp add: less_mult_imp_div_less mult.commute)
      ultimately show ?thesis using hs(5) j by auto
    qed
    then show ?thesis
      using hs False by (intro exI [of _ "hs @ [n mod 16]"]) (simp add: show_hex.simps [of n])
  qed
qed

lemma scan_hex_digits:
  "list_all (\<lambda>h. h < 16) hs \<Longrightarrow> off + length hs \<le> 4 \<Longrightarrow>
   scan_hex off acc (map hex_char hs @ s) = scan_hex (off + length hs) (foldl (\<lambda>a h. 16 * a + h) acc hs) s"
  by (induction hs arbitrary: off acc) (auto simp: hex_val_hex_char)

lemma scan_hex_show:
  assumes "g < 65536" and "s = [] \<or> hex_val (hd s) = None"
  shows "\<exists>d > 0. scan_hex 0 0 (show_hex g @ s) = Some (d, g, s)"
proof -
  obtain hs where hs: "show_hex g = map hex_char hs" "hs \<noteq> []" "list_all (\<lambda>h. h < 16) hs"
      "foldl (\<lambda>a h. 16 * a + h) 0 hs = g" "\<forall>k. 0 < k \<longrightarrow> g < 16 ^ k \<longrightarrow> length hs \<le> k"
    using show_hex_digits by blast
  from hs(5) assms(1) have "length hs \<le> 4" by (auto dest: spec [of _ 4])
  with hs have "scan_hex 0 0 (show_hex g @ s) = scan_hex (length hs) g s"
    by (simp add: scan_hex_digits)
  also have "\<dots> = Some (length hs, g, s)"
    using assms(2) by (cases s) auto
  finally show ?thesis using hs(2) by auto
qed

lemma show_hex_chars: "c \<in> set (show_hex n) \<Longrightarrow> \<exists>h < 16. c = hex_char h"
proof -
  assume "c \<in> set (show_hex n)"
  moreover obtain hs where "show_hex n = map hex_char hs" and "list_all (\<lambda>h. h < 16) hs"
    using show_hex_digits by blast
  ultimately show ?thesis by (auto simp: list_all_iff)
qed

lemma show_hex_not_Nil [simp]: "show_hex n \<noteq> []"
  using show_hex_digits [of n] by auto

text \<open>One group followed by a colon and another group: one turn of the loop.\<close>

lemma parse6_group:
  assumes "g < 65536" "length bs < 16" "s \<noteq> []" "hd s \<noteq> CHR '':''"
  shows "parse6_loop bs ell (show_hex g @ CHR '':'' # s) = parse6_loop (bs @ ungroup [g]) ell s"
proof -
  have "hex_val CHR '':'' = None" by (simp add: hex_val_def)
  then obtain d where d: "d > 0" "scan_hex 0 0 (show_hex g @ CHR '':'' # s) = Some (d, g, CHR '':'' # s)"
    using scan_hex_show [OF assms(1), of "CHR '':'' # s"] by auto
  then show ?thesis
    using assms by (simp add: parse6_loop.simps [of bs ell "show_hex g @ CHR '':'' # s"] Let_def)
qed

text \<open>The last group before an ellipsis that ends the string.\<close>

lemma parse6_last_ellipsis:
  assumes "g < 65536" "length bs < 16"
  shows "parse6_loop bs None (show_hex g @ ''::'') = expand_ellipsis (bs @ ungroup [g]) (Some (length bs + 2))"
proof -
  have "hex_val CHR '':'' = None" by (simp add: hex_val_def)
  then obtain d where d: "d > 0" "scan_hex 0 0 (show_hex g @ ''::'') = Some (d, g, ''::'')"
    using scan_hex_show [OF assms(1), of "''::''"] by auto
  then show ?thesis
    using assms by (simp add: parse6_loop.simps [of bs None "show_hex g @ ''::''"] Let_def)
qed

lemma hd_show_hex: "hd (show_hex g @ s) \<noteq> CHR '':''"
  using show_hex_chars [of "hd (show_hex g)" g] hex_char_plain by (cases "show_hex g") auto

lemma parse6_groups_ellipsis:
  assumes "gs \<noteq> []" "list_all (\<lambda>g. g < 65536) gs" "length bs + 2 * length gs \<le> 16"
  shows "parse6_loop bs None (Join (map show_hex gs) '':'' @ ''::'') =
    expand_ellipsis (bs @ ungroup gs) (Some (length bs + 2 * length gs))"
  using assms
proof (induction gs arbitrary: bs)
  case (Cons g gs)
  show ?case
  proof (cases gs)
    case Nil
    with Cons.prems show ?thesis by (simp add: parse6_last_ellipsis)
  next
    case (Cons h hs)
    let ?s = "Join (map show_hex gs) '':'' @ ''::''"
    have hd: "?s \<noteq> []" "hd ?s \<noteq> CHR '':''"
      using Cons hd_show_hex by (cases hs; simp)+
    have "Join (map show_hex (g # gs)) '':'' @ ''::'' = show_hex g @ CHR '':'' # ?s"
      by (simp add: Cons)
    with hd Cons.prems Cons.IH [of "bs @ ungroup [g]"] Cons show ?thesis
      by (simp add: parse6_group)
  qed
qed simp

end
