(* ===== verification/Consent.thy ===== *)
theory Consent
  imports GoNet
begin

text \<open>
  \<^verbatim>\<open>pkg/domain/ingest/consent.go\<close>: the GDPR consent gate and the masking of client
  addresses. The lemmas say what the masked text still reveals of the address.
\<close>

section \<open>The definitions\<close>

definition ErrConsentRequired :: go_error where
  "ErrConsentRequired = NewError ''GDPR consent is required for tracking personal behavioral events''"

definition AnonymizeIP :: "string \<Rightarrow> string" where
  "AnonymizeIP ipStr =
     (case ParseIP (TrimSpace ipStr) of
        None \<Rightarrow> ''0.0.0.0''
      | Some ip \<Rightarrow>
          (case To4 ip of
             Some ipv4 \<Rightarrow> IP_String (ipv4[3 := 0])
           | None \<Rightarrow> IP_String (fold (\<lambda>i ipv6. ipv6[i := 0]) [8..<16] ip)))"

text \<open>The error, or \<^const>\<open>None\<close> for nil.\<close>

definition CheckGDPRConsent :: "string \<Rightarrow> bool \<Rightarrow> go_error option" where
  "CheckGDPRConsent eventType gdprConsent =
     (if eventType = ''click'' \<or> eventType = ''view_item'' then
        (if \<not> gdprConsent then Some ErrConsentRequired else None)
      else None)"

section \<open>The mask\<close>

text \<open>What is left of an address: the first three octets of an IPv4 address, the first 64 bits of an IPv6 one.\<close>

definition mask_ip :: "bytes \<Rightarrow> bytes" where
  "mask_ip ip = (if take 12 ip = v4_prefix then take 15 ip @ [0] else take 8 ip @ replicate 8 0)"

definition masked_address :: "string \<Rightarrow> bytes" where
  "masked_address s = (case ParseIP (TrimSpace s) of None \<Rightarrow> v4_prefix @ [0, 0, 0, 0] | Some ip \<Rightarrow> mask_ip ip)"

subsection \<open>Addresses that were read are 16 bytes\<close>

lemma expand_ellipsis_bytes:
  assumes "expand_ellipsis bs ell = Some r" "length bs \<le> 16" "list_all (\<lambda>b. b < 256) bs"
    "\<forall>e. ell = Some e \<longrightarrow> e \<le> length bs"
  shows "byte_list 16 r"
proof -
  have "list_all (\<lambda>b. b < 256) (take e bs)" "list_all (\<lambda>b. b < 256) (drop e bs)" for e
    using assms(3) by (auto simp: list_all_iff dest: in_set_takeD in_set_dropD)
  then show ?thesis
    using assms by (auto simp: expand_ellipsis_def byte_list_def list_all_iff split: option.splits if_splits)
qed

lemma parse6_loop_bytes:
  assumes "parse6_loop bs ell s = Some r" "length bs \<le> 16" "even (length bs)"
    "list_all (\<lambda>b. b < 256) bs" "\<forall>e. ell = Some e \<longrightarrow> e \<le> length bs"
  shows "byte_list 16 r"
  using assms
proof (induction bs ell s arbitrary: r rule: parse6_loop.induct)
  case (1 bs ell s)
  show ?case
  proof (cases "16 \<le> length bs")
    case True
    with "1.prems" show ?thesis
      by (auto simp: parse6_loop.simps [of bs] split: if_splits intro: expand_ellipsis_bytes)
  next
    case False
    then have short: "length bs < 16" "length bs + 2 \<le> 16"
      using "1.prems"(3) by presburger+
    obtain off acc rest where scan: "scan_hex 0 0 s = Some (off, acc, rest)"
      using "1.prems"(1) False by (auto simp: parse6_loop.simps [of bs] split: option.splits)
    have off: "off \<noteq> 0"
    proof
      assume "off = 0"
      with "1.prems"(1) False scan show False by (simp add: parse6_loop.simps [of bs])
    qed
    show ?thesis
    proof (cases "take 1 rest = ''.''")
      case True
      then obtain fs where "parseIPv4Fields [] 0 0 s = Some fs" "length bs + 4 \<le> 16"
          "expand_ellipsis (bs @ fs) ell = Some r"
        using "1.prems"(1) False scan off
        by (auto simp: parse6_loop.simps [of bs] split: option.splits if_splits)
      moreover from this(1) have "byte_list 4 fs" by (rule parseIPv4Fields_bytes) auto
      ultimately show ?thesis
        using "1.prems"(4,5) by (intro expand_ellipsis_bytes [of "bs @ fs" ell]) (auto simp: byte_list_def)
    next
      case dot: False
      let ?bs = "bs @ [acc div 256 mod 256, acc mod 256]"
      have bs': "list_all (\<lambda>b. b < 256) ?bs" "length ?bs \<le> 16" "even (length ?bs)"
        using "1.prems"(3,4) short by auto
      show ?thesis
      proof (cases rest)
        case Nil
        with "1.prems" False scan off dot bs' show ?thesis
          by (auto simp: parse6_loop.simps [of bs] Let_def intro: expand_ellipsis_bytes [of ?bs ell])
      next
        case (Cons c r1)
        with "1.prems"(1) False scan off dot have c: "c = CHR '':''" "r1 \<noteq> []"
          by (auto simp: parse6_loop.simps [of bs] Let_def split: if_splits)
        note IH = "1.IH" [OF False scan refl refl off dot refl Cons]
        show ?thesis
        proof (cases "hd r1 = CHR '':''")
          case True
          with "1.prems"(1) False scan off dot Cons c have ell: "ell = None"
            by (auto simp: parse6_loop.simps [of bs] Let_def split: if_splits)
          show ?thesis
          proof (cases "tl r1 = []")
            case tl: True
            with "1.prems"(1) False scan off dot Cons c True ell bs' show ?thesis
              by (auto simp: parse6_loop.simps [of bs] Let_def
                  intro: expand_ellipsis_bytes [of ?bs "Some (length ?bs)"])
          next
            case tl: False
            have "parse6_loop ?bs (Some (length ?bs)) (tl r1) = Some r"
              using "1.prems"(1) False scan off dot Cons c True ell tl
              by (simp add: parse6_loop.simps [of bs] Let_def)
            with IH(1) c True ell tl bs' show ?thesis by auto
          qed
        next
          case hd: False
          have "parse6_loop ?bs ell r1 = Some r"
            using "1.prems"(1) False scan off dot Cons c hd
            by (simp add: parse6_loop.simps [of bs] Let_def)
          moreover have "\<forall>e. ell = Some e \<longrightarrow> e \<le> length ?bs"
            using "1.prems"(5) by auto
          ultimately show ?thesis using IH(2) c hd bs' by blast
        qed
      qed
    qed
  qed
qed

lemma ParseIP_bytes: "ParseIP s = Some ip \<Longrightarrow> byte_list 16 ip"
proof -
  assume ip: "ParseIP s = Some ip"
  have "byte_list 16 ip" if "parseIPv6 s = Some ip"
    using that by (auto simp: parseIPv6_def byte_list_def list_all_iff split: if_splits
        dest: parse6_loop_bytes)
  moreover have "byte_list 16 (v4_prefix @ fs)" if "parseIPv4Fields [] 0 0 s = Some fs" for fs
    using parseIPv4Fields_bytes [OF that] by (simp add: byte_list_def v4_prefix_def list_all_iff)
  ultimately show ?thesis
    using ip by (auto simp: ParseIP_def split: option.splits if_splits)
qed

subsection \<open>The masked text\<close>

lemma length_fold_zero: "length (fold (\<lambda>i xs. xs[i := 0]) is xs) = length xs"
  by (induction "is" arbitrary: xs) auto

lemma nth_fold_zero:
  "j < length xs \<Longrightarrow> fold (\<lambda>i xs. xs[i := 0]) is xs ! j = (if j \<in> set is then 0 else xs ! j)"
  by (induction "is" arbitrary: xs) (auto simp: nth_list_update)

lemma fold_zero_tail:
  "m \<le> length xs \<Longrightarrow> fold (\<lambda>i xs. xs[i := 0]) [m..<length xs] xs = take m xs @ replicate (length xs - m) (0::nat)"
  by (rule nth_equalityI) (auto simp: length_fold_zero nth_fold_zero nth_append)

lemma fold_zero_masks:
  assumes "length ip = 16"
  shows "fold (\<lambda>i ipv6. ipv6[i := 0]) [8..<16] ip = take 8 ip @ replicate 8 (0::nat)"
  using fold_zero_tail [of 8 ip] assms by (simp del: upt_rec_numeral)

lemma masked_not_v4: "length ip = 16 \<Longrightarrow> take 12 (take 8 ip @ replicate 8 0) \<noteq> v4_prefix"
proof
  assume "length ip = 16" "take 12 (take 8 ip @ replicate 8 0) = v4_prefix"
  then have "(take 12 (take 8 ip @ replicate 8 (0::nat))) ! 10 = v4_prefix ! 10" by simp
  with \<open>length ip = 16\<close> show False
    by (simp add: nth_append v4_prefix_def)
qed

lemma longest_run_masked:
  "longest_run [a, b, c, d, 0, 0, 0, 0] =
     Some (if d \<noteq> 0 then 4 else if c \<noteq> 0 then 3 else if b \<noteq> 0 then 2 else if a \<noteq> 0 then 1 else 0, 8)"
  by (cases "a = 0"; cases "b = 0"; cases "c = 0"; cases "d = 0")
    (simp_all add: longest_run_def zero_run_def upt_rec)

text \<open>
  The printed mask: the groups up to the last non-zero one, and an ellipsis.
\<close>

lemma string6_masked:
  assumes "byte_list 16 ip"
  shows "\<exists>k \<le> 4. string6 (take 8 ip @ replicate 8 0) = Join (map show_hex (take k (groups (take 8 ip)))) '':'' @ ''::''
    \<and> ungroup (take k (groups (take 8 ip))) @ replicate (16 - 2 * k) 0 = take 8 ip @ replicate 8 0"
proof -
  have len: "length (take 8 ip) = 8" and all: "list_all (\<lambda>b. b < 256) (take 8 ip)"
    using assms by (auto simp: byte_list_def list_all_iff dest: in_set_takeD)
  have "length (groups (take 8 ip)) = 4"
    using len by (simp add: length_groups)
  then obtain a b c d where abcd: "groups (take 8 ip) = [a, b, c, d]"
    by (auto simp: numeral_eq_Suc length_Suc_conv)
  define k :: nat where
    "k = (if d \<noteq> 0 then 4 else if c \<noteq> 0 then 3 else if b \<noteq> 0 then 2 else if a \<noteq> 0 then 1 else 0)"
  have gs: "groups (take 8 ip @ replicate 8 0) = [a, b, c, d, 0, 0, 0, 0]"
  proof -
    have "groups (replicate 8 0) = [0, 0, 0, 0]" by (simp add: numeral_eq_Suc)
    with len show ?thesis by (simp add: groups_append abcd)
  qed
  have k: "k \<le> 4" by (simp add: k_def)
  have "string6 (take 8 ip @ replicate 8 0) = Join (map show_hex (take k [a, b, c, d])) '':'' @ ''::''"
  proof -
    have "longest_run [a, b, c, d, 0, 0, 0, 0] = Some (k, 8)"
      by (simp only: longest_run_masked k_def)
    moreover have "take k ([a, b, c, d] @ [0, 0, 0, 0]) = take k [a, b, c, d]"
      unfolding take_append using k by simp
    ultimately show ?thesis by (simp add: string6_def gs)
  qed
  moreover have "ungroup (take k [a, b, c, d]) @ replicate (16 - 2 * k) 0 = take 8 ip @ replicate 8 0"
  proof -
    have "ungroup [a, b, c, d] = take 8 ip"
      using ungroup_groups [of "take 8 ip"] len all by (simp add: abcd)
    moreover have "ungroup (take k [a, b, c, d]) @ replicate (8 - 2 * k) 0 = ungroup [a, b, c, d]"
    proof -
      have r: "replicate 2 0 = [0, 0]" "replicate 4 0 = [0, 0, 0, 0]" "replicate 6 0 = [0, 0, 0, 0, 0, 0]"
          "replicate 8 0 = [0, 0, 0, 0, 0, 0, 0, 0::nat]"
        by (simp_all add: numeral_eq_Suc)
      show ?thesis
        by (cases "d = 0"; cases "c = 0"; cases "b = 0"; cases "a = 0") (simp_all add: k_def r)
    qed
    moreover have "replicate (16 - 2 * k) (0::nat) = replicate (8 - 2 * k) 0 @ replicate 8 0"
      using k by (simp flip: replicate_add)
    ultimately show ?thesis by (metis append_assoc)
  qed
  ultimately show ?thesis using k abcd by metis
qed

lemma Join_hex_chars:
  "c \<in> set (Join (map show_hex gs) '':'') \<Longrightarrow> c = CHR '':'' \<or> (\<exists>h < 16. c = hex_char h)"
proof (induction gs)
  case (Cons g gs)
  then show ?case
    using show_hex_chars [of c g] by (cases gs) auto
qed simp

lemma find_colon:
  "CHR ''.'' \<notin> set s \<Longrightarrow> CHR ''%'' \<notin> set s \<Longrightarrow> CHR '':'' \<in> set s \<Longrightarrow>
   find (\<lambda>c. c = CHR ''.'' \<or> c = CHR '':'' \<or> c = CHR ''%'') s = Some CHR '':''"
  by (induction s) auto

lemma ParseIP_compressed:
  assumes "list_all (\<lambda>g. g < 65536) gs" "length gs \<le> 7"
  shows "ParseIP (Join (map show_hex gs) '':'' @ ''::'') = Some (ungroup gs @ replicate (16 - 2 * length gs) 0)"
proof -
  let ?s = "Join (map show_hex gs) '':'' @ ''::''"
  have "CHR ''.'' \<notin> set ?s" "CHR ''%'' \<notin> set ?s"
    using Join_hex_chars [of _ gs] hex_char_plain by fastforce+
  then have "ParseIP ?s = parseIPv6 ?s"
    by (simp add: ParseIP_def find_colon)
  also have "\<dots> = Some (ungroup gs @ replicate (16 - 2 * length gs) 0)"
  proof (cases gs)
    case Nil
    then show ?thesis by (simp add: parseIPv6_def)
  next
    case (Cons g hs)
    then obtain r where r: "?s = show_hex g @ r" by (cases hs) auto
    then have "take 2 ?s \<noteq> ''::''"
      by (metis hd_show_hex append_take_drop_id append_Cons list.sel(1))
    moreover have "parse6_loop [] None ?s = expand_ellipsis (ungroup gs) (Some (2 * length gs))"
      using parse6_groups_ellipsis [of gs "[]"] assms Cons by simp
    ultimately show ?thesis
      using assms by (simp add: parseIPv6_def expand_ellipsis_def)
  qed
  finally show ?thesis .
qed

lemma string4_ends:
  assumes "byte_list 4 bs"
  shows "plain_char (hd (string4 bs)) \<and> plain_char (last (string4 bs))"
proof -
  from assms obtain a b c d where bs: "bs = [a, b, c, d]"
    by (auto simp: byte_list_def numeral_eq_Suc length_Suc_conv)
  have "hd (show_nat a) \<in> set (show_nat a)" "last (show_nat d) \<in> set (show_nat d)" by simp_all
  then show ?thesis
    using show_nat_digits digit_char_simps(6) by (fastforce simp: bs string4_def)
qed

lemma AnonymizeIP_v4:
  assumes "ParseIP (TrimSpace s) = Some ip" "take 12 ip = v4_prefix"
  shows "AnonymizeIP s = string4 (drop 12 (mask_ip ip))" "byte_list 4 (drop 12 (mask_ip ip))"
proof -
  have ip: "length ip = 16" "list_all (\<lambda>b. b < 256) ip"
    using ParseIP_bytes [OF assms(1)] by (simp_all add: byte_list_def)
  have "drop 12 (mask_ip ip) = (drop 12 ip)[3 := 0]"
    using ip assms(2) by (intro nth_equalityI) (auto simp: mask_ip_def nth_append nth_list_update)
  moreover have "byte_list 4 ((drop 12 ip)[3 := 0])"
    using ip by (auto simp: byte_list_def list_all_iff dest!: set_update_subset_insert [THEN subsetD] in_set_dropD)
  ultimately show "AnonymizeIP s = string4 (drop 12 (mask_ip ip))" "byte_list 4 (drop 12 (mask_ip ip))"
    using assms ip by (auto simp: AnonymizeIP_def To4_def IP_String_def)
qed

lemma AnonymizeIP_v6:
  assumes "ParseIP (TrimSpace s) = Some ip" "take 12 ip \<noteq> v4_prefix"
  shows "AnonymizeIP s = string6 (mask_ip ip)"
proof -
  have ip: "length ip = 16"
    using ParseIP_bytes [OF assms(1)] by (simp add: byte_list_def)
  then show ?thesis
    using assms masked_not_v4 [OF ip]
    by (auto simp: AnonymizeIP_def To4_def IP_String_def mask_ip_def fold_zero_masks simp del: upt_rec_numeral)
qed

lemma digit_char_0: "digit_char 0 = CHR ''0''"
  by code_simp

lemma AnonymizeIP_parses: "ParseIP (AnonymizeIP s) = Some (masked_address s)"
  and AnonymizeIP_trimmed: "TrimSpace (AnonymizeIP s) = AnonymizeIP s"
proof -
  have z: "''0.0.0.0'' = string4 [0, 0, 0, 0]"
    by (simp add: string4_def show_nat_small digit_char_0)
  have "ParseIP (AnonymizeIP s) = Some (masked_address s) \<and> TrimSpace (AnonymizeIP s) = AnonymizeIP s"
  proof (cases "ParseIP (TrimSpace s)")
    case None
    then show ?thesis
      using ParseIP_string4 [of "[0, 0, 0, 0]"] TrimSpace_plain [of "''0.0.0.0''"]
      by (simp add: AnonymizeIP_def masked_address_def byte_list_def plain_char_def flip: z)
  next
    case (Some ip)
    show ?thesis
    proof (cases "take 12 ip = v4_prefix")
      case True
      note a = AnonymizeIP_v4 [OF Some True]
      have "v4_prefix @ drop 12 (mask_ip ip) = mask_ip ip"
        using True ParseIP_bytes [OF Some]
        using append_take_drop_id [of 12 "mask_ip ip"] by (simp add: mask_ip_def byte_list_def)
      with a Some string4_ends [OF a(2)] show ?thesis
        by (simp add: ParseIP_string4 masked_address_def TrimSpace_plain)
    next
      case False
      have bs: "byte_list 16 ip" using ParseIP_bytes [OF Some] .
      let ?gs = "groups (take 8 ip)"
      obtain k where k: "k \<le> 4" "string6 (take 8 ip @ replicate 8 0) = Join (map show_hex (take k ?gs)) '':'' @ ''::''"
          "ungroup (take k ?gs) @ replicate (16 - 2 * k) 0 = take 8 ip @ replicate 8 0"
        using string6_masked [OF bs] by blast
      have "list_all (\<lambda>g. g < 65536) ?gs" "length ?gs = 4"
        using bs groups_bound [of "take 8 ip"]
        by (auto simp: byte_list_def length_groups list_all_iff dest: in_set_takeD)
      then have "ParseIP (string6 (mask_ip ip)) = Some (mask_ip ip)"
        using ParseIP_compressed [of "take k ?gs"] k False
        by (auto simp: mask_ip_def list_all_iff min_def dest: in_set_takeD)
      moreover have "plain_char (hd (string6 (mask_ip ip))) \<and> plain_char (last (string6 (mask_ip ip)))"
      proof -
        have "plain_char CHR '':''" by (simp add: plain_char_def)
        then have "plain_char c" if "c \<in> set (Join (map show_hex (take k ?gs)) '':'' @ ''::'')" for c
          using that Join_hex_chars [of c] hex_char_plain(4) by auto
        moreover have "string6 (mask_ip ip) = Join (map show_hex (take k ?gs)) '':'' @ ''::''"
          using k False by (simp add: mask_ip_def)
        ultimately show ?thesis by (metis append_is_Nil_conv hd_in_set last_in_set list.distinct(1))
      qed
      ultimately show ?thesis
        using AnonymizeIP_v6 [OF Some False] Some by (simp add: masked_address_def TrimSpace_plain)
    qed
  qed
  then show "ParseIP (AnonymizeIP s) = Some (masked_address s)" "TrimSpace (AnonymizeIP s) = AnonymizeIP s"
    by auto
qed

text \<open>The text is determined by the masked address.\<close>

definition render :: "bytes \<Rightarrow> string" where
  "render m = (if take 12 m = v4_prefix then string4 (drop 12 m) else string6 m)"

lemma mask_ip_v4_iff: "length ip = 16 \<Longrightarrow> take 12 (mask_ip ip) = v4_prefix \<longleftrightarrow> take 12 ip = v4_prefix"
  using masked_not_v4 by (auto simp: mask_ip_def)

lemma mask_ip_mask_ip: "length ip = 16 \<Longrightarrow> mask_ip (mask_ip ip) = mask_ip ip"
  using mask_ip_v4_iff [of ip] by (auto simp: mask_ip_def)

lemma AnonymizeIP_render: "AnonymizeIP s = render (masked_address s)"
proof (cases "ParseIP (TrimSpace s)")
  case None
  have "take 12 (v4_prefix @ [0, 0, 0, 0]) = v4_prefix" "drop 12 (v4_prefix @ [0, 0, 0, 0]) = [0, 0, 0, 0]"
    by (simp_all add: v4_prefix_def)
  with None show ?thesis
    by (simp add: AnonymizeIP_def render_def masked_address_def string4_def show_nat_small digit_char_0)
next
  case (Some ip)
  then have "length ip = 16" using ParseIP_bytes by (auto simp: byte_list_def)
  with Some show ?thesis
    using AnonymizeIP_v4(1) AnonymizeIP_v6
    by (cases "take 12 ip = v4_prefix") (simp_all add: render_def masked_address_def mask_ip_v4_iff)
qed

lemma masked_address_AnonymizeIP: "masked_address (AnonymizeIP s) = masked_address s"
proof -
  have "mask_ip (masked_address s) = masked_address s"
  proof (cases "ParseIP (TrimSpace s)")
    case None
    then show ?thesis by (simp add: masked_address_def mask_ip_def v4_prefix_def)
  next
    case (Some ip)
    then have "length ip = 16" using ParseIP_bytes by (auto simp: byte_list_def)
    with Some show ?thesis by (simp add: masked_address_def mask_ip_mask_ip)
  qed
  then show ?thesis
    using AnonymizeIP_parses [of s] by (simp add: masked_address_def [of "AnonymizeIP s"] AnonymizeIP_trimmed)
qed

lemma AnonymizeIP_idem: "AnonymizeIP (AnonymizeIP s) = AnonymizeIP s"
  unfolding AnonymizeIP_render [of "AnonymizeIP s"] masked_address_AnonymizeIP
  by (rule AnonymizeIP_render [symmetric])

section \<open>Properties\<close>

text \<open>
  C29: The masked text is a well-formed address: read back, it is the client's address with the
  host part zeroed (the last octet of an IPv4 address, the last 64 bits of an IPv6 address),
  and \<open>0.0.0.0\<close> for a text that is not an address. Masking again changes nothing.
\<close>
theorem anonymize_roundtrip:
  "ParseIP (AnonymizeIP s) = Some (masked_address s) \<and> AnonymizeIP (AnonymizeIP s) = AnonymizeIP s"
  by (simp add: AnonymizeIP_parses AnonymizeIP_idem)

text \<open>
  C30: What is published of an address is exactly its network prefix: two client addresses
  are masked to the same text if and only if they agree outside the zeroed host part.
\<close>
theorem anonymize_reveals_only_prefix:
  "AnonymizeIP s = AnonymizeIP t \<longleftrightarrow> masked_address s = masked_address t"
proof
  assume "AnonymizeIP s = AnonymizeIP t"
  then have "ParseIP (AnonymizeIP s) = ParseIP (AnonymizeIP t)" by (rule arg_cong)
  then show "masked_address s = masked_address t" by (simp only: AnonymizeIP_parses option.inject)
next
  assume "masked_address s = masked_address t"
  then show "AnonymizeIP s = AnonymizeIP t" by (simp only: AnonymizeIP_render)
qed

end
