(* ===== verification/GoFloat.thy ===== *)
theory GoFloat
  imports Prelude "HOL-Library.Log_Nat"
begin

text \<open>
  Go's \<^verbatim>\<open>float64\<close>. A finite value is the rational number it denotes, and an
  arithmetic operation is the exact operation followed by \<open>f64\<close>, the rounding of IEEE 754 to
  the nearest 53-bit significand, ties to even, subnormal numbers included. Infinities and NaN
  do not arise from the sources: they add and divide counters and fraud scores. A literal of a
  JSON document that is too large for a finite value is refused by \<open>f64_overflow\<close>.
\<close>

section \<open>Rounding to an integer, ties to even\<close>

definition rne :: "rat \<Rightarrow> int" where
  "rne x = (let n = \<lfloor>x\<rfloor>; d = x - of_int n in
     if d < 1 / 2 then n else if 1 / 2 < d then n + 1 else if even n then n else n + 1)"

lemma rne_bounds: "\<lfloor>x\<rfloor> \<le> rne x" "rne x \<le> \<lfloor>x\<rfloor> + 1"
  by (auto simp: rne_def Let_def)

lemma rne_of_int [simp]: "rne (of_int n) = n"
  by (simp add: rne_def)

lemma rne_mono:
  assumes "x \<le> y"
  shows "rne x \<le> rne y"
proof (cases "\<lfloor>x\<rfloor> = \<lfloor>y\<rfloor>")
  case True
  with assms show ?thesis by (auto simp: rne_def Let_def)
next
  case False
  with floor_mono [OF assms] have "\<lfloor>x\<rfloor> + 1 \<le> \<lfloor>y\<rfloor>" by linarith
  with rne_bounds(2) [of x] rne_bounds(1) [of y] show ?thesis by linarith
qed

lemma rne_le: "x \<le> of_int n \<Longrightarrow> rne x \<le> n"
  using rne_mono [of x "of_int n"] by simp

lemma rne_ge: "of_int n \<le> x \<Longrightarrow> n \<le> rne x"
  using rne_mono [of "of_int n" x] by simp

lemma rne_below:
  assumes "x < of_int n - 1 / 2"
  shows "rne x \<le> n - 1"
proof (cases "\<lfloor>x\<rfloor> = n - 1")
  case True
  with assms show ?thesis by (simp add: rne_def Let_def)
next
  case False
  have "\<lfloor>x\<rfloor> < n" using assms by (simp add: floor_less_iff)
  with False rne_bounds(2) [of x] show ?thesis by linarith
qed

section \<open>Rounding to a float64\<close>

text \<open>The binade of a positive number: the \<open>e\<close> with \<open>2 powi e \<le> x < 2 powi (e + 1)\<close>.\<close>

definition binade :: "rat \<Rightarrow> int" where
  "binade x = (let (p, q) = quotient_of x; e = bitlen p - bitlen q in
     if 2 powi e \<le> x then e else e - 1)"

lemma powi2_pos [simp]: "0 < (2 :: rat) powi e"
  by (simp add: zero_less_power_int)

lemma powi2_Suc: "(2 :: rat) powi (e + 1) = 2 * 2 powi e"
  by (simp add: power_int_add)

lemma powi2_mono: "a \<le> b \<Longrightarrow> (2 :: rat) powi a \<le> 2 powi b"
  by (rule power_int_increasing) auto

lemma powi2_less_iff: "(2 :: rat) powi a < 2 powi b \<longleftrightarrow> a < b"
  using power_int_strict_increasing [of a b "2 :: rat"] powi2_mono [of b a] by fastforce

lemma bitlen_powi:
  assumes "0 < n"
  shows "2 powi (bitlen n - 1) \<le> (of_int n :: rat)" and "(of_int n :: rat) < 2 powi (bitlen n)"
proof -
  have b: "2 ^ nat (bitlen n - 1) \<le> n" "n < 2 ^ nat (bitlen n)"
    using bitlen_bounds [OF assms] by auto
  have "1 \<le> bitlen n" using assms by (simp add: bitlen_ge_iff_power)
  then have p: "(2 :: rat) powi (bitlen n - 1) = of_int (2 ^ nat (bitlen n - 1))"
    "(2 :: rat) powi (bitlen n) = of_int (2 ^ nat (bitlen n))"
    by (simp_all add: power_int_def)
  show "2 powi (bitlen n - 1) \<le> (of_int n :: rat)" "(of_int n :: rat) < 2 powi (bitlen n)"
    unfolding p using b by (simp_all only: of_int_le_iff of_int_less_iff)
qed

lemma binade_bounds:
  assumes "0 < x"
  shows "2 powi (binade x) \<le> x" and "x < 2 powi (binade x + 1)"
proof -
  obtain p q where pq: "quotient_of x = (p, q)" by (cases "quotient_of x")
  have q: "0 < q" and x: "x = of_int p / of_int q"
    using quotient_of_denom_pos [OF pq] quotient_of_div [OF pq] by auto
  with assms have p: "0 < p" by (simp add: zero_less_divide_iff)
  let ?e = "bitlen p - bitlen q"
  have "x * of_int q = of_int p" using x q by simp
  have "(2 :: rat) powi (?e - 1) * 2 powi (bitlen q) = 2 powi (bitlen p - 1)"
    by (simp flip: power_int_add)
  moreover have "x * of_int q < x * 2 powi (bitlen q)"
    using assms bitlen_powi(2) [OF q] by simp
  ultimately have "2 powi (?e - 1) * 2 powi (bitlen q) < x * 2 powi (bitlen q)"
    using bitlen_powi(1) [OF p] \<open>x * of_int q = of_int p\<close> by linarith
  then have lo: "2 powi (?e - 1) < x" by simp
  have "(2 :: rat) powi (?e + 1) * 2 powi (bitlen q - 1) = 2 powi (bitlen p)"
    by (simp flip: power_int_add)
  moreover have "x * 2 powi (bitlen q - 1) \<le> x * of_int q"
    using assms bitlen_powi(1) [OF q] by simp
  ultimately have "x * 2 powi (bitlen q - 1) < 2 powi (?e + 1) * 2 powi (bitlen q - 1)"
    using bitlen_powi(2) [OF p] \<open>x * of_int q = of_int p\<close> by linarith
  then have hi: "x < 2 powi (?e + 1)" by simp
  show "2 powi (binade x) \<le> x" "x < 2 powi (binade x + 1)"
    using lo hi by (auto simp: binade_def pq Let_def)
qed

lemma binade_mono:
  assumes "0 < x" "x \<le> y"
  shows "binade x \<le> binade y"
proof -
  have "(2 :: rat) powi (binade x) < 2 powi (binade y + 1)"
    using binade_bounds [of x] binade_bounds [of y] assms by linarith
  then show ?thesis by (simp add: powi2_less_iff)
qed

text \<open>The exponent of the last bit is at least -1074.\<close>

definition exponent :: "rat \<Rightarrow> int" where
  "exponent x = max (binade x) (-1022) - 52"

definition f64_pos :: "rat \<Rightarrow> rat" where
  "f64_pos x = (let u = 2 powi (exponent x) in of_int (rne (x / u)) * u)"

definition f64 :: "rat \<Rightarrow> rat" where
  "f64 x = (if x = 0 then 0 else if 0 < x then f64_pos x else - f64_pos (- x))"

definition f64_overflow :: "rat \<Rightarrow> bool" where
  "f64_overflow x \<longleftrightarrow> 2 powi 1024 - 2 powi 970 \<le> \<bar>x\<bar>"

lemma f64_0 [simp]: "f64 0 = 0"
  by (simp add: f64_def)

lemma f64_pos_nonneg: "0 < x \<Longrightarrow> 0 \<le> f64_pos x"
  using rne_ge [of 0 "x / 2 powi exponent x"] by (simp add: f64_pos_def Let_def)

lemma f64_pos_mono:
  assumes "0 < x" "x \<le> y"
  shows "f64_pos x \<le> f64_pos y"
proof (cases "exponent x = exponent y")
  case True
  have "x / 2 powi exponent y \<le> y / 2 powi exponent y"
    using assms by (simp add: divide_right_mono)
  then have "(of_int (rne (x / 2 powi exponent y)) :: rat) \<le> of_int (rne (y / 2 powi exponent y))"
    using rne_mono by (simp only: of_int_le_iff)
  then show ?thesis unfolding f64_pos_def Let_def True by (rule mult_right_mono) simp
next
  case False
  let ?e = "binade y"
  have lt: "exponent x < exponent y"
    using binade_mono [OF assms] False by (auto simp: exponent_def max_def split: if_splits)
  then have ey: "exponent y = ?e - 52" by (auto simp: exponent_def max_def split: if_splits)
  have up: "x < 2 powi (exponent x + 53)"
  proof -
    have "x < 2 powi (binade x + 1)" using binade_bounds(2) assms by blast
    also have "\<dots> \<le> 2 powi (exponent x + 53)" by (rule powi2_mono) (simp add: exponent_def)
    finally show ?thesis .
  qed
  have "(2 :: rat) powi (exponent x + 53) = of_int (2 ^ 53) * 2 powi exponent x"
    by (simp add: power_int_add)
  with up have "x / 2 powi exponent x \<le> of_int (2 ^ 53)"
    by (simp add: divide_le_eq)
  then have "rne (x / 2 powi exponent x) \<le> 2 ^ 53" by (rule rne_le)
  then have "(of_int (rne (x / 2 powi exponent x)) :: rat) \<le> of_int (2 ^ 53)"
    by (simp only: of_int_le_iff)
  then have "f64_pos x \<le> of_int (2 ^ 53) * 2 powi exponent x"
    unfolding f64_pos_def Let_def by (rule mult_right_mono) simp
  also have "\<dots> = 2 powi (exponent x + 53)" by (simp add: power_int_add)
  also have "\<dots> \<le> 2 powi ?e" by (rule powi2_mono) (use lt ey in simp)
  also have "\<dots> = of_int (2 ^ 52) * 2 powi exponent y" by (simp add: ey power_int_diff)
  also have "\<dots> \<le> f64_pos y"
  proof -
    have "2 powi ?e \<le> y" using binade_bounds(1) [of y] assms by auto
    then have "of_int (2 ^ 52) \<le> y / 2 powi exponent y"
      by (simp add: ey power_int_diff le_divide_eq)
    then have "2 ^ 52 \<le> rne (y / 2 powi exponent y)" by (rule rne_ge)
    then have "(of_int (2 ^ 52) :: rat) \<le> of_int (rne (y / 2 powi exponent y))"
      by (simp only: of_int_le_iff)
    then show ?thesis unfolding f64_pos_def Let_def by (rule mult_right_mono) simp
  qed
  finally show ?thesis .
qed

lemma f64_mono: "x \<le> y \<Longrightarrow> f64 x \<le> f64 y"
  using f64_pos_mono [of x y] f64_pos_mono [of "- y" "- x"] f64_pos_nonneg [of y] f64_pos_nonneg [of "- x"]
  by (auto simp: f64_def)

lemma f64_nonneg: "0 \<le> x \<Longrightarrow> 0 \<le> f64 x"
  using f64_mono [of 0 x] by simp

text \<open>A whole number of fewer than 53 bits is not rounded.\<close>

lemma f64_pos_of_int:
  assumes "0 < n" "n < 2 ^ 53"
  shows "f64_pos (of_int n) = of_int n"
proof -
  have "(of_int n :: rat) < of_int (2 ^ 53)" using assms(2) by (simp only: of_int_less_iff)
  then have "(2 :: rat) powi binade (of_int n) < 2 powi 53"
    using binade_bounds(1) [of "of_int n"] assms(1) by simp
  then have "exponent (of_int n) \<le> 0" by (simp add: powi2_less_iff exponent_def del: power_int_numeral)
  then have "(of_int n :: rat) / 2 powi exponent (of_int n) = of_int (n * 2 ^ nat (- exponent (of_int n)))"
    by (simp add: power_int_def field_simps)
  then show ?thesis
    unfolding f64_pos_def Let_def by (simp only: rne_of_int) (simp add: power_int_def field_simps)
qed

lemma f64_of_int: "\<bar>n\<bar> < 2 ^ 53 \<Longrightarrow> f64 (of_int n) = of_int n"
  using f64_pos_of_int [of n] f64_pos_of_int [of "- n"] by (auto simp: f64_def)

lemma f64_1 [simp]: "f64 1 = 1" and f64_100: "f64 100 = 100"
  using f64_of_int [of 1] f64_of_int [of 100] by simp_all

lemma f64_unit: "0 \<le> x \<Longrightarrow> x \<le> 1 \<Longrightarrow> 0 \<le> f64 x \<and> f64 x \<le> 1"
  using f64_mono [of x 1] f64_nonneg by simp

text \<open>A rounded number is at most \<open>2 ^ 53\<close> units; rounding it again changes nothing.\<close>

lemma f64_pos_units:
  assumes "0 < x"
  shows "f64_pos x \<le> 2 powi (exponent x + 53)"
proof -
  have "x < 2 powi (binade x + 1)" using binade_bounds(2) assms by blast
  also have "\<dots> \<le> 2 powi (exponent x + 53)" by (rule powi2_mono) (simp add: exponent_def)
  also have "\<dots> = of_int (2 ^ 53) * 2 powi exponent x" by (simp add: power_int_add)
  finally have "x / 2 powi exponent x \<le> of_int (2 ^ 53)" by (simp add: divide_le_eq)
  then have "rne (x / 2 powi exponent x) \<le> 2 ^ 53" by (rule rne_le)
  then have "(of_int (rne (x / 2 powi exponent x)) :: rat) \<le> of_int (2 ^ 53)" by (simp only: of_int_le_iff)
  then have "f64_pos x \<le> of_int (2 ^ 53) * 2 powi exponent x"
    unfolding f64_pos_def Let_def by (rule mult_right_mono) simp
  then show ?thesis by (simp add: power_int_add)
qed

lemma f64_pos_multiple: "a \<le> exponent x \<Longrightarrow> \<exists>n. f64_pos x = of_int n * 2 powi a"
proof -
  assume "a \<le> exponent x"
  then have "(2 :: rat) powi (exponent x - a) = of_int (2 ^ nat (exponent x - a))" by (simp add: power_int_def)
  then have "(2 :: rat) powi exponent x = of_int (2 ^ nat (exponent x - a)) * 2 powi a"
    using power_int_add [of "2 :: rat" "exponent x - a" a] by simp
  then show ?thesis
    by (intro exI [of _ "rne (x / 2 powi exponent x) * 2 ^ nat (exponent x - a)"]) (simp add: f64_pos_def Let_def)
qed

lemma f64_pos_fixed: "x = of_int n * 2 powi exponent x \<Longrightarrow> f64_pos x = x"
  by (metis f64_pos_def nonzero_mult_div_cancel_right powi2_pos order_less_irrefl rne_of_int)

lemma f64_pos_idem:
  assumes "0 < x" "0 < f64_pos x"
  shows "f64_pos (f64_pos x) = f64_pos x"
proof -
  let ?y = "f64_pos x"
  have b: "2 powi (binade ?y) \<le> ?y" using binade_bounds(1) assms(2) by blast
  show ?thesis
  proof (cases "exponent ?y \<le> exponent x")
    case True
    with f64_pos_multiple [of "exponent ?y" x] show ?thesis using f64_pos_fixed by blast
  next
    case False
    then have e: "exponent ?y = binade ?y - 52" by (auto simp: exponent_def max_def split: if_splits)
    have "2 powi (exponent x + 53) \<le> (2 :: rat) powi (binade ?y)" using False e by (intro powi2_mono) simp
    with b f64_pos_units [OF assms(1)] have "?y = 2 powi (binade ?y)" by linarith
    also have "\<dots> = of_int (2 ^ 52) * 2 powi exponent ?y" by (simp add: e power_int_diff)
    finally show ?thesis by (rule f64_pos_fixed)
  qed
qed

lemma f64_idem [simp]: "f64 (f64 x) = f64 x"
  using f64_pos_idem [of x] f64_pos_idem [of "- x"] f64_pos_nonneg [of x] f64_pos_nonneg [of "- x"]
  by (auto simp: f64_def)

lemma f64_pos_finite:
  assumes "0 < x" "x < 2 powi 1024 - 2 powi 970"
  shows "f64_pos x < 2 powi 1024 - 2 powi 970"
proof (cases "exponent x \<le> 970")
  case True
  have "f64_pos x \<le> 2 powi (exponent x + 53)" by (rule f64_pos_units) (rule assms)
  also have "\<dots> \<le> 2 powi 1023" using True by (intro powi2_mono) simp
  also have "\<dots> < 2 powi 1024 - 2 powi 970" by simp
  finally show ?thesis .
next
  case False
  have "(2 :: rat) powi binade x < 2 powi 1024"
    using binade_bounds(1) [OF assms(1)] assms(2) powi2_pos [of 970] by linarith
  then have "binade x < 1024" by (simp only: powi2_less_iff)
  with False have e: "exponent x = 971" by (auto simp: exponent_def max_def split: if_splits)
  have "x / 2 powi 971 < 2 ^ 53 - 1 / 2" using assms(2) by (simp add: divide_less_eq)
  then have "rne (x / 2 powi 971) \<le> 2 ^ 53 - 1" using rne_below [of _ "2 ^ 53"] by simp
  then have "(of_int (rne (x / 2 powi 971)) :: rat) \<le> of_int (2 ^ 53 - 1)" by (simp only: of_int_le_iff)
  then have "f64_pos x \<le> of_int (2 ^ 53 - 1) * 2 powi 971"
    unfolding f64_pos_def Let_def e by (rule mult_right_mono) simp
  also have "\<dots> < 2 powi 1024 - 2 powi 970" by simp
  finally show ?thesis .
qed

lemma f64_overflow_f64: "\<not> f64_overflow x \<Longrightarrow> \<not> f64_overflow (f64 x)"
  using f64_pos_finite [of x] f64_pos_finite [of "- x"] f64_pos_nonneg [of x] f64_pos_nonneg [of "- x"]
  by (auto simp: f64_overflow_def f64_def not_le)

text \<open>Addition, multiplication and division of \<^verbatim>\<open>float64\<close> values.\<close>

definition fadd :: "rat \<Rightarrow> rat \<Rightarrow> rat" where "fadd x y = f64 (x + y)"
definition fmul :: "rat \<Rightarrow> rat \<Rightarrow> rat" where "fmul x y = f64 (x * y)"
definition fdiv :: "rat \<Rightarrow> rat \<Rightarrow> rat" where "fdiv x y = f64 (x / y)"

lemmas float_defs = fadd_def fmul_def fdiv_def

section \<open>Two decimal places\<close>

text \<open>
  \<^verbatim>\<open>%.2f\<close> of a \<^verbatim>\<open>float64\<close>: the decimal nearest to the exact value, ties to even.
  Of a negative value that rounds to zero Go prints the sign too.
\<close>

definition show_hundredths :: "nat \<Rightarrow> string" where
  "show_hundredths n = show_nat (n div 100) @ ''.'' @ [digit_char (n div 10 mod 10), digit_char (n mod 10)]"

definition format_2f :: "rat \<Rightarrow> string" where
  "format_2f x = (if x < 0 then ''-'' @ show_hundredths (nat (rne (- x * 100)))
     else show_hundredths (nat (rne (x * 100))))"

end
