(* ===== verification/Events.thy ===== *)
theory Events
  imports GoFloat "HOL-Library.AList"
begin

text \<open>
  The integration events of \<^verbatim>\<open>pkg/broker/events.go\<close>, and how \<^verbatim>\<open>encoding/json\<close> fills such a
  struct from a JSON document. A document is given as its syntax tree, with the strings decoded
  and the numbers at their exact value; reading the bytes into the tree is left out.
\<close>

section \<open>JSON documents and Go values\<close>

text \<open>
  The same type serves for a Go value of type \<^verbatim>\<open>interface{}\<close>, where objects are maps (no key
  twice) and numbers are \<^verbatim>\<open>float64\<close>.
\<close>

datatype json = JNull | JBool bool | JNum rat | JStr string | JArr "json list"
  | JObj "(string \<times> json) list"

text \<open>\<^verbatim>\<open>m[k] = v\<close> for the pairs of an object in order: the last value of a key stays.\<close>

definition assign_all :: "(string \<times> 'v) list \<Rightarrow> (string \<times> 'v) list \<Rightarrow> (string \<times> 'v) list" where
  "assign_all kvs m = fold (\<lambda>(k, v). AList.update k v) kvs m"

lemma map_of_assign_all:
  "map_of (assign_all kvs m) k = (case map_of (rev kvs) k of Some v \<Rightarrow> Some v | None \<Rightarrow> map_of m k)"
proof (induction kvs arbitrary: m)
  case (Cons kv kvs)
  obtain k' v where "kv = (k', v)" by (cases kv)
  with Cons show ?case
    by (auto simp: assign_all_def update_conv' map_add_def split: option.splits)
qed (simp add: assign_all_def)

lemma distinct_assign_all: "distinct (map fst m) \<Longrightarrow> distinct (map fst (assign_all kvs m))"
proof (induction kvs arbitrary: m)
  case (Cons kv kvs)
  then show ?case by (cases kv) (simp add: assign_all_def distinct_update)
qed (simp add: assign_all_def)

text \<open>Decoding into an \<^verbatim>\<open>interface{}\<close>; \<^const>\<open>None\<close> is a number out of the range of \<^verbatim>\<open>float64\<close>.\<close>

fun decode_any :: "json \<Rightarrow> json option" and decode_all :: "json list \<Rightarrow> json list option"
  and decode_members :: "(string \<times> json) list \<Rightarrow> (string \<times> json) list option" where
  "decode_any (JNum x) = (if f64_overflow x then None else Some (JNum (f64 x)))"
| "decode_any (JArr xs) = map_option JArr (decode_all xs)"
| "decode_any (JObj kvs) = map_option (\<lambda>l. JObj (assign_all l [])) (decode_members kvs)"
| "decode_any v = Some v"
| "decode_all [] = Some []"
| "decode_all (x # xs) =
     (case decode_any x of None \<Rightarrow> None | Some y \<Rightarrow> map_option (\<lambda>ys. y # ys) (decode_all xs))"
| "decode_members [] = Some []"
| "decode_members ((k, v) # kvs) =
     (case decode_any v of None \<Rightarrow> None | Some y \<Rightarrow> map_option (\<lambda>ys. (k, y) # ys) (decode_members kvs))"

text \<open>
  The decoder finds the field of an object key by its exact name, else up to the simple case
  folding of Unicode. Field names are ASCII, and the only other letters that fold to ASCII are
  U+017F (C5 BF, to \<open>S\<close>) and U+212A (E2 84 AA, to \<open>K\<close>).
\<close>

definition ascii_upper :: "char \<Rightarrow> char" where
  "ascii_upper c = (let n = of_char c :: nat in if 97 \<le> n \<and> n \<le> 122 then char_of (n - 32) else c)"

fun fold_name :: "string \<Rightarrow> string" where
  "fold_name [] = []"
| "fold_name (c # s) =
     (if c = CHR 0xC5 \<and> take 1 s = [CHR 0xBF] then CHR ''S'' # fold_name (drop 1 s)
      else if c = CHR 0xE2 \<and> take 2 s = [CHR 0x84, CHR 0xAA] then CHR ''K'' # fold_name (drop 2 s)
      else ascii_upper c # fold_name s)"

type_synonym 's field = "string \<times> (json \<Rightarrow> 's \<Rightarrow> 's option)"

definition find_field :: "'s field list \<Rightarrow> string \<Rightarrow> (json \<Rightarrow> 's \<Rightarrow> 's option) option" where
  "find_field fs key =
     (case map_of fs key of
        Some f \<Rightarrow> Some f
      | None \<Rightarrow> map_option snd (find (\<lambda>(n, _). fold_name n = fold_name key) fs))"

text \<open>
  Decoding into a struct: the members in their order, unknown keys skipped, \<^verbatim>\<open>null\<close> leaves
  the struct as it is and any other document is an error. \<^const>\<open>None\<close> is an error of the decoder, whatever
  it has stored by then: the callers drop the struct.
\<close>

fun decode_fields :: "'s field list \<Rightarrow> (string \<times> json) list \<Rightarrow> 's \<Rightarrow> 's option" where
  "decode_fields fs [] s = Some s"
| "decode_fields fs ((k, v) # kvs) s =
     (case find_field fs k of
        None \<Rightarrow> decode_fields fs kvs s
      | Some f \<Rightarrow> (case f v s of None \<Rightarrow> None | Some s' \<Rightarrow> decode_fields fs kvs s'))"

fun decode_struct :: "'s field list \<Rightarrow> json \<Rightarrow> 's \<Rightarrow> 's option" where
  "decode_struct fs (JObj kvs) s = decode_fields fs kvs s"
| "decode_struct fs JNull s = Some s"
| "decode_struct fs _ s = None"

text \<open>What every member keeps, the struct keeps.\<close>

lemma find_field_mem: "find_field fs k = Some f \<Longrightarrow> \<exists>n. (n, f) \<in> set fs"
  by (auto simp: find_field_def find_Some_iff dest: map_of_SomeD split: option.splits) (metis nth_mem)

lemma decode_fields_invariant:
  assumes "\<And>n f v s s'. (n, f) \<in> set fs \<Longrightarrow> f v s = Some s' \<Longrightarrow> P s \<Longrightarrow> P s'"
  shows "decode_fields fs kvs s = Some s' \<Longrightarrow> P s \<Longrightarrow> P s'"
  using assms
proof (induction fs kvs s rule: decode_fields.induct)
  case (2 fs k v kvs s)
  show ?case
  proof (cases "find_field fs k")
    case (Some f)
    obtain n where "(n, f) \<in> set fs" using find_field_mem [OF Some] by blast
    moreover obtain s1 where "f v s = Some s1" "decode_fields fs kvs s1 = Some s'"
      using "2.prems"(1) Some by (auto split: option.splits)
    ultimately show ?thesis
      using "2.IH"(2) [OF Some] "2.prems"(2,3) by blast
  qed (use 2 in auto)
qed simp

section \<open>Members of the basic types\<close>

fun decode_string :: "(string \<Rightarrow> 's \<Rightarrow> 's) \<Rightarrow> json \<Rightarrow> 's \<Rightarrow> 's option" where
  "decode_string upd (JStr x) s = Some (upd x s)"
| "decode_string upd JNull s = Some s"
| "decode_string upd _ s = None"

fun decode_bool :: "(bool \<Rightarrow> 's \<Rightarrow> 's) \<Rightarrow> json \<Rightarrow> 's \<Rightarrow> 's option" where
  "decode_bool upd (JBool x) s = Some (upd x s)"
| "decode_bool upd JNull s = Some s"
| "decode_bool upd _ s = None"

fun decode_float :: "(rat \<Rightarrow> 's \<Rightarrow> 's) \<Rightarrow> json \<Rightarrow> 's \<Rightarrow> 's option" where
  "decode_float upd (JNum x) s = (if f64_overflow x then None else Some (upd (f64 x) s))"
| "decode_float upd JNull s = Some s"
| "decode_float upd _ s = None"

text \<open>A map takes the members over those it has; \<^verbatim>\<open>null\<close> makes it nil.\<close>

fun decode_map :: "(((string, json) go_map \<Rightarrow> (string, json) go_map) \<Rightarrow> 's \<Rightarrow> 's) \<Rightarrow> json \<Rightarrow> 's \<Rightarrow> 's option" where
  "decode_map upd (JObj kvs) s =
     map_option (\<lambda>l. upd (\<lambda>m. Some (assign_all l (case m of None \<Rightarrow> [] | Some al \<Rightarrow> al))) s) (decode_members kvs)"
| "decode_map upd JNull s = Some (upd (\<lambda>_. None) s)"
| "decode_map upd _ s = None"

section \<open>Timestamps\<close>

text \<open>The digits of \<open>s\<close> from position \<open>i\<close>, \<open>n\<close> of them, as a number in a range.\<close>

definition digit_value :: "char \<Rightarrow> nat option" where
  "digit_value c = (let n = of_char c :: nat in if 48 \<le> n \<and> n \<le> 57 then Some (n - 48) else None)"

fun digits_value :: "nat \<Rightarrow> string \<Rightarrow> nat option" where
  "digits_value acc [] = Some acc"
| "digits_value acc (c # s) =
     (case digit_value c of None \<Rightarrow> None | Some d \<Rightarrow> digits_value (10 * acc + d) s)"

definition parse_uint :: "string \<Rightarrow> nat \<Rightarrow> nat \<Rightarrow> nat \<Rightarrow> nat \<Rightarrow> nat option" where
  "parse_uint s i n lo hi =
     (case digits_value 0 (take n (drop i s)) of
        Some x \<Rightarrow> if lo \<le> x \<and> x \<le> hi then Some x else None
      | None \<Rightarrow> None)"

definition is_leap :: "nat \<Rightarrow> bool" where
  "is_leap y \<longleftrightarrow> y mod 4 = 0 \<and> (y mod 100 \<noteq> 0 \<or> y mod 400 = 0)"

definition month_lengths :: "nat \<Rightarrow> nat list" where
  "month_lengths y = [31, if is_leap y then 29 else 28, 31, 30, 31, 30, 31, 31, 30, 31, 30, 31]"

text \<open>Days from 1 January of year 1 to a date.\<close>

definition days_to :: "nat \<Rightarrow> nat \<Rightarrow> nat \<Rightarrow> int" where
  "days_to y m d = (let p = int y - 1 in
     365 * p + p div 4 - p div 100 + p div 400 + int (sum_list (take (m - 1) (month_lengths y))) + int d - 1)"

text \<open>A fraction of a second: a dot and at least one digit; nine digits count. The rest of the text follows.\<close>

definition parse_fraction :: "string \<Rightarrow> int \<times> string" where
  "parse_fraction s =
     (let ds = takeWhile (\<lambda>c. digit_value c \<noteq> None) (tl s) in
      if s \<noteq> [] \<and> hd s = CHR ''.'' \<and> ds \<noteq> [] then
        (case digits_value 0 (take 9 (ds @ replicate 9 (CHR ''0''))) of
           Some n \<Rightarrow> (int n, drop (length ds) (tl s)) | None \<Rightarrow> (0, s))
      else (0, s))"

text \<open>The offset from UTC in seconds: \<^verbatim>\<open>Z\<close>, or a sign with hours and minutes.\<close>

definition parse_zone :: "string \<Rightarrow> int option" where
  "parse_zone s =
     (if s = ''Z'' then Some 0
      else if length s = 6 \<and> (hd s = CHR ''-'' \<or> hd s = CHR ''+'') \<and> s ! 3 = CHR '':'' then
        (case (parse_uint s 1 2 0 23, parse_uint s 4 2 0 59) of
           (Some h, Some m) \<Rightarrow> Some ((if hd s = CHR ''-'' then -1 else 1) * int (h * 60 + m) * 60)
         | _ \<Rightarrow> None)
      else None)"

text \<open>\<^verbatim>\<open>time.Time.UnmarshalJSON\<close> on the text between the quotes: strict RFC 3339.\<close>

definition parse_rfc3339 :: "string \<Rightarrow> time option" where
  "parse_rfc3339 s =
     (if length s < 19 then None
      else case (parse_uint s 0 4 0 9999, parse_uint s 5 2 1 12, parse_uint s 11 2 0 23,
                 parse_uint s 14 2 0 59, parse_uint s 17 2 0 59) of
        (Some y, Some mo, Some h, Some mi, Some se) \<Rightarrow>
          (case parse_uint s 8 2 1 (month_lengths y ! (mo - 1)) of
             None \<Rightarrow> None
           | Some d \<Rightarrow>
               if s ! 4 = CHR ''-'' \<and> s ! 7 = CHR ''-'' \<and> s ! 10 = CHR ''T'' \<and> s ! 13 = CHR '':'' \<and> s ! 16 = CHR '':'' then
                 (case parse_fraction (drop 19 s) of (ns, z) \<Rightarrow>
                    map_option (\<lambda>off. (days_to y mo d * 86400 + int h * 3600 + int mi * 60 + int se - off) * Second + ns)
                      (parse_zone z))
               else None)
      | _ \<Rightarrow> None)"

fun decode_time :: "(time \<Rightarrow> 's \<Rightarrow> 's) \<Rightarrow> json \<Rightarrow> 's \<Rightarrow> 's option" where
  "decode_time upd (JStr x) s = map_option (\<lambda>t. upd t s) (parse_rfc3339 x)"
| "decode_time upd JNull s = Some s"
| "decode_time upd _ s = None"

section \<open>The events\<close>

record tracking_event =
  EventID :: string
  UserID :: string
  EventType :: string
  IPAddress :: string
  UserAgent :: string
  Payload :: "(string, json) go_map"
  Timestamp :: time
  GDPRConsent :: bool

text \<open>The embedded \<^verbatim>\<open>TrackingEvent\<close> is the field \<open>Tracking\<close>.\<close>

record screened_event =
  Tracking :: tracking_event
  IsFraudulent :: bool
  FraudScore :: rat
  FraudReason :: string
  ScreenedAt :: time

definition zero_tracking_event :: tracking_event where
  "zero_tracking_event =
     \<lparr>EventID = [], UserID = [], EventType = [], IPAddress = [], UserAgent = [], Payload = None,
      Timestamp = 0, GDPRConsent = False\<rparr>"

definition tracking_fields :: "tracking_event field list" where
  "tracking_fields =
     [(''event_id'', decode_string (\<lambda>x. EventID_update (\<lambda>_. x))),
      (''user_id'', decode_string (\<lambda>x. UserID_update (\<lambda>_. x))),
      (''event_type'', decode_string (\<lambda>x. EventType_update (\<lambda>_. x))),
      (''ip_address'', decode_string (\<lambda>x. IPAddress_update (\<lambda>_. x))),
      (''user_agent'', decode_string (\<lambda>x. UserAgent_update (\<lambda>_. x))),
      (''payload'', decode_map Payload_update),
      (''timestamp'', decode_time (\<lambda>x. Timestamp_update (\<lambda>_. x))),
      (''gdpr_consent'', decode_bool (\<lambda>x. GDPRConsent_update (\<lambda>_. x)))]"

definition decode_tracking_event :: "json \<Rightarrow> tracking_event option" where
  "decode_tracking_event doc = decode_struct tracking_fields doc zero_tracking_event"

end
