(* ===== verification/GoHttp.thy ===== *)
theory GoHttp
  imports Events
begin

text \<open>
  What the handlers see of \<^verbatim>\<open>net/http\<close>: a request with its method, its query parameters and its
  body, and the reply they write. The body is the first JSON document the decoder reads from
  it, or \<^const>\<open>None\<close> if there is none (empty, truncated or malformed).
\<close>

record api_request =
  ar_method :: string
  ar_query :: "(string \<times> string) list"
  ar_body :: "json option"

text \<open>\<^verbatim>\<open>r.URL.Query().Get(key)\<close>: the first value, or the empty string.\<close>

definition query_Get :: "api_request \<Rightarrow> string \<Rightarrow> string" where
  "query_Get r key = (case map_of (ar_query r) key of Some v \<Rightarrow> v | None \<Rightarrow> [])"

text \<open>\<^verbatim>\<open>json.NewDecoder(r.Body).Decode(&v)\<close> for a decoder of the target type.\<close>

definition decode_body :: "(json \<Rightarrow> 'a option) \<Rightarrow> api_request \<Rightarrow> 'a option" where
  "decode_body d r = (case ar_body r of None \<Rightarrow> None | Some doc \<Rightarrow> d doc)"

text \<open>A body written as text, or by \<^verbatim>\<open>json.NewEncoder(w).Encode\<close> from a document.\<close>

datatype reply_body = BText string | BJson json

record reply =
  re_status :: int
  re_contentType :: string
  re_body :: reply_body

definition http_Error :: "string \<Rightarrow> int \<Rightarrow> reply" where
  "http_Error msg code =
     \<lparr>re_status = code, re_contentType = ''text/plain; charset=utf-8'', re_body = BText (msg @ [CHR 0x0A])\<rparr>"

definition json_reply :: "int \<Rightarrow> reply_body \<Rightarrow> reply" where
  "json_reply code body = \<lparr>re_status = code, re_contentType = ''application/json'', re_body = body\<rparr>"

definition StatusOK :: int where "StatusOK = 200"
definition StatusAccepted :: int where "StatusAccepted = 202"
definition StatusBadRequest :: int where "StatusBadRequest = 400"
definition StatusMethodNotAllowed :: int where "StatusMethodNotAllowed = 405"
definition StatusInternalServerError :: int where "StatusInternalServerError = 500"

lemmas status_defs = StatusOK_def StatusAccepted_def StatusBadRequest_def StatusMethodNotAllowed_def
  StatusInternalServerError_def

lemma re_status_simps [simp]:
  "re_status (http_Error msg code) = code" "re_status (json_reply code body) = code"
  by (simp_all add: http_Error_def json_reply_def)

end
