(* ===== verification/IngestHandler.thy ===== *)
theory IngestHandler
  imports Consent GoHttp
begin

text \<open>
  \<^verbatim>\<open>pkg/domain/ingest/handler.go\<close>: the ingestion gateway. The server holds its broker and
  its tracker by interface, so their operations on the state \<open>'w\<close> of the program are arguments:
  \<open>publish\<close> is \<^verbatim>\<open>s.broker.PublishRaw(r.Context(), _)\<close>, \<open>increment\<close> is
  \<^verbatim>\<open>s.tracker.IncrementMetric\<close>.
\<close>

type_synonym 'w publish_raw = "tracking_event \<Rightarrow> 'w \<Rightarrow> (go_error option \<times> 'w) outcome"
type_synonym 'w increment = "string \<Rightarrow> int \<Rightarrow> 'w \<Rightarrow> 'w"

definition HandleIngest ::
  "'w publish_raw \<Rightarrow> 'w increment \<Rightarrow> time \<Rightarrow> api_request \<Rightarrow> 'w \<Rightarrow> (reply \<times> 'w) outcome" where
  "HandleIngest publish increment now r w =
     (if ar_method r \<noteq> ''POST'' then Ret (http_Error ''Method not allowed'' StatusMethodNotAllowed, w)
      else case decode_body decode_tracking_event r of
        None \<Rightarrow> Ret (http_Error ''{\"error\": \"invalid json payload\"}'' StatusBadRequest, w)
      | Some event \<Rightarrow>
          if EventID event = [] \<or> UserID event = [] \<or> EventType event = [] then
            Ret (json_reply StatusBadRequest
                  (BText ''{\"error\": \"event_id, user_id, and event_type are required\"}''), w)
          else
            let event = (if IsZero (Timestamp event) then event\<lparr>Timestamp := now\<rparr> else event) in
            case CheckGDPRConsent (EventType event) (GDPRConsent event) of
              Some err \<Rightarrow>
                Ret (json_reply StatusBadRequest
                      (BText ''{\"error\": \"GDPR compliance check failed: consent required for behavioral tracking\"}''),
                     increment ''total_received'' 1 w)
            | None \<Rightarrow>
                let event = event\<lparr>IPAddress := AnonymizeIP (IPAddress event)\<rparr> in
                case publish event w of
                  Panic m \<Rightarrow> Panic m
                | Ret (Some err, w') \<Rightarrow>
                    Ret (http_Error ''{\"error\": \"internal broker error\"}'' StatusInternalServerError, w')
                | Ret (None, w') \<Rightarrow>
                    Ret (json_reply StatusAccepted
                          (BText ''{\"status\": \"accepted\", \"message\": \"event queued for screening\"}''),
                         increment ''total_received'' 1 w'))"

section \<open>The gate\<close>

text \<open>What an event must be to be handed to the broker, and the event that is handed over.\<close>

definition conforming :: "tracking_event \<Rightarrow> bool" where
  "conforming e \<longleftrightarrow> EventID e \<noteq> [] \<and> UserID e \<noteq> [] \<and> EventType e \<noteq> [] \<and>
     (EventType e = ''click'' \<or> EventType e = ''view_item'' \<longrightarrow> GDPRConsent e) \<and>
     AnonymizeIP (IPAddress e) = IPAddress e"

definition admitted :: "time \<Rightarrow> api_request \<Rightarrow> tracking_event option" where
  "admitted now r =
     (case decode_body decode_tracking_event r of
        None \<Rightarrow> None
      | Some e \<Rightarrow>
          if ar_method r = ''POST'' \<and> EventID e \<noteq> [] \<and> UserID e \<noteq> [] \<and> EventType e \<noteq> [] \<and>
             CheckGDPRConsent (EventType e) (GDPRConsent e) = None
          then Some (e\<lparr>Timestamp := (if IsZero (Timestamp e) then now else Timestamp e),
                      IPAddress := AnonymizeIP (IPAddress e)\<rparr>)
          else None)"

lemma admitted_conforming: "admitted now r = Some e \<Longrightarrow> conforming e"
  by (auto simp: admitted_def conforming_def CheckGDPRConsent_def AnonymizeIP_idem split: option.splits if_splits)

text \<open>The handler in terms of the gate: its refusals, and what it does with an admitted event.\<close>

lemma HandleIngest_admitted:
  assumes "admitted now r = Some e"
  shows "HandleIngest publish increment now r w =
    (case publish e w of
       Panic m \<Rightarrow> Panic m
     | Ret (Some err, w') \<Rightarrow> Ret (http_Error ''{\"error\": \"internal broker error\"}'' StatusInternalServerError, w')
     | Ret (None, w') \<Rightarrow>
         Ret (json_reply StatusAccepted
               (BText ''{\"status\": \"accepted\", \"message\": \"event queued for screening\"}''),
              increment ''total_received'' 1 w'))"
  using assms
  by (auto simp: admitted_def HandleIngest_def Let_def split: option.splits if_splits)

text \<open>The refusal for want of consent, the only one that is counted.\<close>

definition consent_refusal :: reply where
  "consent_refusal = json_reply StatusBadRequest
     (BText ''{\"error\": \"GDPR compliance check failed: consent required for behavioral tracking\"}'')"

lemma HandleIngest_refused:
  assumes "admitted now r = None"
  obtains rep where "re_status rep \<in> {StatusBadRequest, StatusMethodNotAllowed}" "rep \<noteq> consent_refusal"
      "\<And>publish increment (w :: 'w). HandleIngest publish increment now r w = Ret (rep, w)"
  | "\<And>publish increment (w :: 'w). HandleIngest publish increment now r w = Ret (consent_refusal, increment ''total_received'' 1 w)"
proof (cases "ar_method r = ''POST''")
  case False
  then show thesis
    by (intro that(1) [of "http_Error ''Method not allowed'' StatusMethodNotAllowed"])
      (simp_all add: HandleIngest_def consent_refusal_def http_Error_def json_reply_def)
next
  case post: True
  show thesis
  proof (cases "decode_body decode_tracking_event r")
    case None
    with post show thesis
      by (intro that(1) [of "http_Error ''{\"error\": \"invalid json payload\"}'' StatusBadRequest"])
        (simp_all add: HandleIngest_def consent_refusal_def http_Error_def json_reply_def)
  next
    case (Some e)
    show thesis
    proof (cases "EventID e = [] \<or> UserID e = [] \<or> EventType e = []")
      case True
      with post Some show thesis
        by (intro that(1) [of "json_reply StatusBadRequest
              (BText ''{\"error\": \"event_id, user_id, and event_type are required\"}'')"])
          (auto simp: HandleIngest_def consent_refusal_def json_reply_def)
    next
      case False
      with assms post Some have "CheckGDPRConsent (EventType e) (GDPRConsent e) \<noteq> None"
        by (simp add: admitted_def split: if_splits)
      then obtain err where "CheckGDPRConsent (EventType e) (GDPRConsent e) = Some err"
        by blast
      with post Some False show thesis
        by (intro that(2)) (simp add: HandleIngest_def Let_def consent_refusal_def)
    qed
  qed
qed

section \<open>Properties\<close>

text \<open>
  The gateway hands only conforming events to the broker: its behaviour does not depend
  on what \<open>publish\<close> would do with any other event. A conforming event has an id, a user and a
  type, carries consent if it is behavioural, and its address is already masked.
\<close>
theorem ingest_publishes_only_conforming:
  assumes "\<forall>e (w :: 'w). conforming e \<longrightarrow> publish e w = publish' e w"
  shows "HandleIngest publish increment now r w = HandleIngest publish' increment now r w"
proof (cases "admitted now r")
  case (Some e)
  with assms admitted_conforming show ?thesis by (simp add: HandleIngest_admitted)
next
  case None
  then show ?thesis by (cases rule: HandleIngest_refused [where 'w = 'w]) simp_all
qed

theorem ingest_publishes_only_conforming_witness:
  "HandleIngest (\<lambda>e w. if conforming e then Ret (None, w @ [e]) else Panic ''leak'') (\<lambda>m d w. w) 5
     \<lparr>ar_method = ''POST'', ar_query = [], ar_body = Some (JObj [(''event_id'', JStr ''e''), (''user_id'', JStr ''u''), (''event_type'', JStr ''click'')])\<rparr> []
   = HandleIngest (\<lambda>e w. Ret (None, w @ [e])) (\<lambda>m d w. w) 5
     \<lparr>ar_method = ''POST'', ar_query = [], ar_body = Some (JObj [(''event_id'', JStr ''e''), (''user_id'', JStr ''u''), (''event_type'', JStr ''click'')])\<rparr> []"
  by (rule ingest_publishes_only_conforming) simp

text \<open>
  C23: The gateway answers 202 exactly for a POST whose document decodes to an event with an id,
  a user and a type and with the consent its type needs, and which the broker takes; it then
  has published that event, masked and stamped, and counted it once.
\<close>
theorem ingest_accepts_iff:
  "HandleIngest publish increment now r (w :: 'w) = Ret (rep, w') \<and> re_status rep = StatusAccepted \<longleftrightarrow>
   (\<exists>e w1. admitted now r = Some e \<and> publish e w = Ret (None, w1) \<and> w' = increment ''total_received'' 1 w1 \<and>
      rep = json_reply StatusAccepted
        (BText ''{\"status\": \"accepted\", \"message\": \"event queued for screening\"}''))"
proof (cases "admitted now r")
  case (Some e)
  then show ?thesis
    by (auto simp: HandleIngest_admitted status_defs split: outcome.splits prod.splits option.splits)
next
  case None
  show ?thesis by (cases rule: HandleIngest_refused [OF None, where 'w = 'w]) (auto simp: None status_defs consent_refusal_def)
qed

end
