(* ===== verification/Rules.thy ===== *)
theory Rules
  imports Events
begin

text \<open>
  \<^verbatim>\<open>pkg/domain/fraud/rules.go\<close>: the three fraud rules and the history they share. A rule
  that touches the history holds its mutex for the whole evaluation, so an evaluation is one
  atomic step on the record below; the clock reading it takes is an argument. Scores are
  \<^verbatim>\<open>float64\<close> values (\<^verbatim>\<open>GoFloat\<close>).
\<close>

section \<open>The history\<close>

record user_geo_history =
  LastCountry :: string
  LastTime :: time

record rule_state =
  IPHistory :: "string \<rightharpoonup> time list"
  UserHistory :: "string \<rightharpoonup> user_geo_history"

definition NewRuleState :: rule_state where
  "NewRuleState = \<lparr>IPHistory = Map.empty, UserHistory = Map.empty\<rparr>"

section \<open>The rules\<close>

text \<open>The score, the reason and the error an evaluation returns.\<close>

record verdict =
  vd_score :: rat
  vd_reason :: string
  vd_err :: "go_error option"

definition no_finding :: verdict where
  "no_finding = \<lparr>vd_score = f64 0, vd_reason = [], vd_err = None\<rparr>"

definition finding :: "rat \<Rightarrow> string \<Rightarrow> verdict" where
  "finding s reason = \<lparr>vd_score = f64 s, vd_reason = reason, vd_err = None\<rparr>"

text \<open>A rule is its name and its evaluation.\<close>

record fraud_rule =
  fr_name :: string
  fr_evaluate :: "time \<Rightarrow> tracking_event \<Rightarrow> rule_state \<Rightarrow> verdict \<times> rule_state"

definition bot_evaluate :: "time \<Rightarrow> tracking_event \<Rightarrow> rule_state \<Rightarrow> verdict \<times> rule_state" where
  "bot_evaluate now event st =
     (let ua = ToLower (UserAgent event) in
      if ua = [] then (finding (4 / 10) ''empty user-agent'', st)
      else if Contains ua ''bot'' \<or> Contains ua ''crawler'' \<or> Contains ua ''headless'' \<or> Contains ua ''spider'' \<or>
        Contains ua ''python-requests'' \<or> Contains ua ''curl''
      then (finding (8 / 10) ''known bot/crawler user-agent signature'', st)
      else (no_finding, st))"

definition rate_evaluate :: "time \<Rightarrow> tracking_event \<Rightarrow> rule_state \<Rightarrow> verdict \<times> rule_state" where
  "rate_evaluate now event st =
     (let history = slice_at (IPHistory st) (IPAddress event);
          activeStamps = filter (\<lambda>t. Sub now t < 5 * Second) history @ [now];
          st' = st\<lparr>IPHistory := (IPHistory st)(IPAddress event \<mapsto> activeStamps)\<rparr> in
      if length activeStamps > 10
      then (finding (7 / 10) ''high-frequency events from single IP (rate limit exceeded)'', st')
      else (no_finding, st'))"

definition geo_evaluate :: "time \<Rightarrow> tracking_event \<Rightarrow> rule_state \<Rightarrow> verdict \<times> rule_state" where
  "geo_evaluate now event st =
     (case map_get (Payload event) ''country'' of
        Some (JStr country) \<Rightarrow>
          if country = [] then (no_finding, st)
          else
            let record_visit = st\<lparr>UserHistory :=
                  (UserHistory st)(UserID event \<mapsto> \<lparr>LastCountry = country, LastTime = now\<rparr>)\<rparr> in
            (case UserHistory st (UserID event) of
               Some lastGeo \<Rightarrow>
                 if LastCountry lastGeo \<noteq> country \<and> Sub now (LastTime lastGeo) < 10 * Second
                 then (finding (9 / 10) ''geo-velocity anomaly: user IP location changed too fast'', st)
                 else (no_finding, record_visit)
             | None \<Rightarrow> (no_finding, record_visit))
      | _ \<Rightarrow> (no_finding, st))"

definition BotRule :: fraud_rule where
  "BotRule = \<lparr>fr_name = ''Bot Detection'', fr_evaluate = bot_evaluate\<rparr>"

definition RateLimitRule :: fraud_rule where
  "RateLimitRule = \<lparr>fr_name = ''IP Rate Limiting'', fr_evaluate = rate_evaluate\<rparr>"

definition GeoVelocityRule :: fraud_rule where
  "GeoVelocityRule = \<lparr>fr_name = ''Geo-Velocity Anomaly'', fr_evaluate = geo_evaluate\<rparr>"

lemma finding_simps [simp]:
  "vd_score (finding s r) = f64 s" "vd_reason (finding s r) = r" "vd_err (finding s r) = None"
  "vd_score no_finding = 0" "vd_reason no_finding = []" "vd_err no_finding = None"
  by (simp_all add: finding_def no_finding_def)

section \<open>The scores as numbers\<close>

lemma f64_4: "f64 (4 / 10) = 3602879701896397 / 9007199254740992"
  and f64_7: "f64 (7 / 10) = 3152519739159347 / 4503599627370496"
  and f64_8: "f64 (8 / 10) = 3602879701896397 / 4503599627370496"
  and f64_9: "f64 (9 / 10) = 8106479329266893 / 9007199254740992"
  by code_simp+

lemma f64_fifths: "f64 (2 / 5) = 3602879701896397 / 9007199254740992" "f64 (4 / 5) = 3602879701896397 / 4503599627370496"
  using f64_4 f64_8 by simp_all

lemmas score_values = f64_4 f64_7 f64_8 f64_9 f64_fifths

section \<open>The contract of a rule\<close>

text \<open>
  What the service relies on: a rule does not fail, its score is a fraction of one, and it
  gives a reason exactly when it scores.
\<close>

locale scoring_rule =
  fixes evaluate :: "time \<Rightarrow> tracking_event \<Rightarrow> rule_state \<Rightarrow> verdict \<times> rule_state"
  assumes no_error: "vd_err (fst (evaluate now e st)) = None"
    and score_range: "0 \<le> vd_score (fst (evaluate now e st)) \<and> vd_score (fst (evaluate now e st)) \<le> 1"
    and reason_iff: "vd_reason (fst (evaluate now e st)) \<noteq> [] \<longleftrightarrow> 0 < vd_score (fst (evaluate now e st))"
begin

lemma scores_or_silent:
  "0 < vd_score (fst (evaluate now e st)) \<and> vd_reason (fst (evaluate now e st)) \<noteq> [] \<or>
   vd_score (fst (evaluate now e st)) = 0 \<and> vd_reason (fst (evaluate now e st)) = []"
  using score_range [of now e st] reason_iff [of now e st] by auto

end

interpretation bot: scoring_rule bot_evaluate
  by unfold_locales (auto simp: bot_evaluate_def Let_def score_values)

interpretation rate: scoring_rule rate_evaluate
  by unfold_locales (auto simp: rate_evaluate_def Let_def score_values)

lemma geo_cases:
  obtains "\<nexists>c. map_get (Payload e) ''country'' = Some (JStr c) \<and> c \<noteq> []"
      "geo_evaluate now e st = (no_finding, st)"
  | c where "map_get (Payload e) ''country'' = Some (JStr c)" "c \<noteq> []"
      "geo_evaluate now e st =
        (no_finding, st\<lparr>UserHistory := (UserHistory st)(UserID e \<mapsto> \<lparr>LastCountry = c, LastTime = now\<rparr>)\<rparr>)"
  | c g where "map_get (Payload e) ''country'' = Some (JStr c)" "c \<noteq> []" "UserHistory st (UserID e) = Some g"
      "LastCountry g \<noteq> c" "Sub now (LastTime g) < 10 * Second"
      "geo_evaluate now e st = (finding (9 / 10) ''geo-velocity anomaly: user IP location changed too fast'', st)"
proof (cases "\<exists>c. map_get (Payload e) ''country'' = Some (JStr c) \<and> c \<noteq> []")
  case False
  then have "geo_evaluate now e st = (no_finding, st)"
    by (auto simp: geo_evaluate_def split: option.splits json.splits)
  with False show thesis by (rule that(1))
next
  case True
  then obtain c where c: "map_get (Payload e) ''country'' = Some (JStr c)" "c \<noteq> []" by blast
  show thesis
  proof (cases "\<exists>g. UserHistory st (UserID e) = Some g \<and> LastCountry g \<noteq> c \<and> Sub now (LastTime g) < 10 * Second")
    case True
    then obtain g where g: "UserHistory st (UserID e) = Some g" "LastCountry g \<noteq> c" "Sub now (LastTime g) < 10 * Second"
      by blast
    show thesis by (rule that(3) [OF c g]) (simp add: geo_evaluate_def Let_def c g)
  next
    case False
    then have "geo_evaluate now e st =
        (no_finding, st\<lparr>UserHistory := (UserHistory st)(UserID e \<mapsto> \<lparr>LastCountry = c, LastTime = now\<rparr>)\<rparr>)"
      using c by (cases "UserHistory st (UserID e)") (auto simp: geo_evaluate_def Let_def)
    then show thesis by (rule that(2) [OF c])
  qed
qed

interpretation geo: scoring_rule geo_evaluate
proof unfold_locales
  fix now e st
  show "vd_err (fst (geo_evaluate now e st)) = None"
    by (rule geo_cases [where now = now and e = e and st = st]) simp_all
  show "0 \<le> vd_score (fst (geo_evaluate now e st)) \<and> vd_score (fst (geo_evaluate now e st)) \<le> 1"
    by (rule geo_cases [where now = now and e = e and st = st]) (simp_all add: score_values)
  show "vd_reason (fst (geo_evaluate now e st)) \<noteq> [] \<longleftrightarrow> 0 < vd_score (fst (geo_evaluate now e st))"
    by (rule geo_cases [where now = now and e = e and st = st]) (simp_all add: score_values)
qed

section \<open>Each rule keeps to its own history\<close>

lemma bot_evaluate_state [simp]: "snd (bot_evaluate now e st) = st"
  by (simp add: bot_evaluate_def Let_def)

lemma rate_evaluate_state:
  "IPHistory (snd (rate_evaluate now e st)) =
     (IPHistory st)(IPAddress e \<mapsto> filter (\<lambda>t. Sub now t < 5 * Second) (slice_at (IPHistory st) (IPAddress e)) @ [now])"
  "UserHistory (snd (rate_evaluate now e st)) = UserHistory st"
  by (simp_all add: rate_evaluate_def Let_def)

lemma geo_evaluate_IPHistory [simp]: "IPHistory (snd (geo_evaluate now e st)) = IPHistory st"
  by (rule geo_cases [where now = now and e = e and st = st]) simp_all

section \<open>The rate limit against the full history\<close>

text \<open>
  The events a rule has seen, with the clock readings of their evaluations. The code forgets
  the stamps that have left the window; a reference that keeps all of them decides the same.
\<close>

type_synonym seen = "(time \<times> tracking_event) list"

definition rate_run :: "seen \<Rightarrow> rule_state \<Rightarrow> rule_state" where
  "rate_run tes st = fold (\<lambda>(t, e) st. snd (rate_evaluate t e st)) tes st"

definition visits :: "string \<Rightarrow> seen \<Rightarrow> time list" where
  "visits ip tes = map fst (filter (\<lambda>(t, e). IPAddress e = ip) tes)"

definition in_window :: "time \<Rightarrow> time list \<Rightarrow> time list" where
  "in_window now ts = filter (\<lambda>t. Sub now t < 5 * Second) ts"

lemma in_window_later: "now \<le> now' \<Longrightarrow> in_window now' (in_window now ts) = in_window now' ts"
  using Sub_mono [of now now'] by (auto simp: in_window_def intro!: filter_cong dest: order_le_less_trans)

lemma in_window_snoc: "in_window now (ts @ [now]) = in_window now ts @ [now]"
  by (simp add: in_window_def Sub_def int64_min_def int64_max_def Second_def Millisecond_def)

text \<open>The stored stamps of an address are those in the window of its last visit.\<close>

lemma rate_run_history:
  assumes "sorted (map fst tes)"
  shows "(visits ip tes = [] \<longrightarrow> slice_at (IPHistory (rate_run tes NewRuleState)) ip = []) \<and>
    (visits ip tes \<noteq> [] \<longrightarrow>
      slice_at (IPHistory (rate_run tes NewRuleState)) ip = in_window (last (visits ip tes)) (visits ip tes))"
  using assms
proof (induction tes rule: rev_induct)
  case Nil
  then show ?case by (simp add: visits_def rate_run_def NewRuleState_def slice_at_def)
next
  case (snoc te tes)
  obtain now e where te: "te = (now, e)" by (cases te)
  let ?st = "rate_run tes NewRuleState"
  have st: "rate_run (tes @ [te]) NewRuleState = snd (rate_evaluate now e ?st)"
    by (simp add: rate_run_def te)
  have IH: "visits ip tes = [] \<longrightarrow> slice_at (IPHistory ?st) ip = []"
    "visits ip tes \<noteq> [] \<longrightarrow> slice_at (IPHistory ?st) ip = in_window (last (visits ip tes)) (visits ip tes)"
    using snoc by (auto simp: sorted_append)
  have le: "last (visits ip tes) \<le> now" if "visits ip tes \<noteq> []"
  proof -
    have "last (visits ip tes) \<in> set (map fst tes)"
      using last_in_set [OF that] by (auto simp: visits_def)
    with snoc.prems show ?thesis by (auto simp: te sorted_append)
  qed
  show ?case
  proof (cases "IPAddress e = ip")
    case False
    then have "visits ip (tes @ [te]) = visits ip tes" by (simp add: visits_def te)
    with False IH show ?thesis
      unfolding st by (auto simp: rate_evaluate_state slice_at_def)
  next
    case True
    have "in_window now (slice_at (IPHistory ?st) ip) = in_window now (visits ip tes)"
      using IH le in_window_later by (cases "visits ip tes = []") (auto simp: in_window_def)
    then have "slice_at (IPHistory (rate_run (tes @ [te]) NewRuleState)) ip = in_window now (visits ip tes) @ [now]"
      using True by (simp add: st rate_evaluate_state in_window_def)
    moreover have "visits ip (tes @ [te]) = visits ip tes @ [now]"
      using True by (simp add: visits_def te)
    ultimately show ?thesis by (simp add: in_window_snoc)
  qed
qed

lemma rate_run_window:
  assumes "sorted (map fst tes)" "\<forall>t \<in> set (map fst tes). t \<le> now"
  shows "in_window now (slice_at (IPHistory (rate_run tes NewRuleState)) ip) = in_window now (visits ip tes)"
proof (cases "visits ip tes = []")
  case False
  have "last (visits ip tes) \<in> set (map fst tes)"
    using last_in_set [OF False] by (auto simp: visits_def)
  with assms(2) have "last (visits ip tes) \<le> now" by blast
  with False rate_run_history [OF assms(1), of ip] show ?thesis
    by (simp add: in_window_later)
qed (use rate_run_history [OF assms(1), of ip] in \<open>simp add: in_window_def\<close>)

section \<open>The geographic rule over a history\<close>

definition geo_run :: "seen \<Rightarrow> rule_state \<Rightarrow> rule_state" where
  "geo_run tes st = fold (\<lambda>(t, e) st. snd (geo_evaluate t e st)) tes st"

text \<open>The visits the rule has let pass: user, country and time.\<close>

definition visit_of :: "time \<Rightarrow> tracking_event \<Rightarrow> rule_state \<Rightarrow> (string \<times> string \<times> time) list" where
  "visit_of now e st =
     (case map_get (Payload e) ''country'' of
        Some (JStr c) \<Rightarrow> if c \<noteq> [] \<and> vd_score (fst (geo_evaluate now e st)) = 0 then [(UserID e, c, now)] else []
      | _ \<Rightarrow> [])"

fun passed :: "seen \<Rightarrow> rule_state \<Rightarrow> (string \<times> string \<times> time) list" where
  "passed [] st = []"
| "passed ((now, e) # tes) st = visit_of now e st @ passed tes (snd (geo_evaluate now e st))"

lemma passed_snoc: "passed (tes @ [(now, e)]) st = passed tes st @ visit_of now e (geo_run tes st)"
  by (induction tes st rule: passed.induct) (auto simp: geo_run_def)

definition plausible :: "(string \<times> string \<times> time) \<Rightarrow> (string \<times> string \<times> time) \<Rightarrow> bool" where
  "plausible v v' = (case (v, v') of ((u, c, t), (u', c', t')) \<Rightarrow> u = u' \<longrightarrow> c = c' \<or> 10 * Second \<le> Sub t' t)"

definition remembers :: "rule_state \<Rightarrow> (string \<times> string \<times> time) list \<Rightarrow> bool" where
  "remembers st vs \<longleftrightarrow> (\<forall>(u, c, t) \<in> set vs. \<exists>g. UserHistory st u = Some g \<and> t \<le> LastTime g \<and>
     (c = LastCountry g \<or> 10 * Second \<le> Sub (LastTime g) t))"

definition times_until :: "time \<Rightarrow> rule_state \<Rightarrow> bool" where
  "times_until now st \<longleftrightarrow> (\<forall>u g. UserHistory st u = Some g \<longrightarrow> LastTime g \<le> now)"

lemma Sub_antimono: "u \<le> u' \<Longrightarrow> Sub t u' \<le> Sub t u"
  by (auto simp: Sub_def)

lemma geo_step:
  assumes "remembers st vs" "sorted_wrt plausible vs" "times_until now st"
  shows "remembers (snd (geo_evaluate now e st)) (vs @ visit_of now e st) \<and>
    sorted_wrt plausible (vs @ visit_of now e st) \<and> times_until now (snd (geo_evaluate now e st))"
proof (rule geo_cases [where now = now and e = e and st = st])
  assume "\<nexists>c. map_get (Payload e) ''country'' = Some (JStr c) \<and> c \<noteq> []" "geo_evaluate now e st = (no_finding, st)"
  moreover from this have "visit_of now e st = []"
    by (auto simp: visit_of_def split: option.splits json.splits)
  ultimately show ?thesis using assms by simp
next
  fix c g
  assume "map_get (Payload e) ''country'' = Some (JStr c)" "c \<noteq> []"
    "geo_evaluate now e st = (finding (9 / 10) ''geo-velocity anomaly: user IP location changed too fast'', st)"
  moreover from this have "visit_of now e st = []"
    by (simp add: visit_of_def score_values)
  ultimately show ?thesis using assms by simp
next
  fix c
  assume c: "map_get (Payload e) ''country'' = Some (JStr c)" "c \<noteq> []"
    and ev: "geo_evaluate now e st =
      (no_finding, st\<lparr>UserHistory := (UserHistory st)(UserID e \<mapsto> \<lparr>LastCountry = c, LastTime = now\<rparr>)\<rparr>)"
  have vo: "visit_of now e st = [(UserID e, c, now)]" using c ev by (simp add: visit_of_def)
  have ok: "LastCountry g = c \<or> 10 * Second \<le> Sub now (LastTime g)" if "UserHistory st (UserID e) = Some g" for g
    using that c ev by (auto simp: geo_evaluate_def Let_def score_values finding_def no_finding_def split: if_splits)
  have far: "c' = c \<or> 10 * Second \<le> Sub now t" if mem: "(UserID e, c', t) \<in> set vs" for c' t
  proof -
    obtain g where g: "UserHistory st (UserID e) = Some g" "t \<le> LastTime g"
        "c' = LastCountry g \<or> 10 * Second \<le> Sub (LastTime g) t"
      using assms(1) mem unfolding remembers_def by blast
    have "LastTime g \<le> now" using assms(3) g(1) by (simp add: times_until_def)
    with ok [OF g(1)] g(2,3) Sub_mono [of "LastTime g" now t] Sub_antimono [of t "LastTime g" now]
    show ?thesis by auto
  qed
  have "remembers (snd (geo_evaluate now e st)) (vs @ visit_of now e st)"
    using assms(1,3) far by (fastforce simp: remembers_def vo ev times_until_def)
  moreover have "sorted_wrt plausible (vs @ visit_of now e st)"
    using assms(2) far by (auto simp: sorted_wrt_append vo plausible_def)
  moreover have "times_until now (snd (geo_evaluate now e st))"
    using assms(3) by (simp add: ev times_until_def)
  ultimately show ?thesis by blast
qed

lemma geo_run_plausible:
  assumes "sorted (map fst tes)"
  shows "remembers (geo_run tes NewRuleState) (passed tes NewRuleState) \<and>
    sorted_wrt plausible (passed tes NewRuleState) \<and>
    (\<forall>now. (\<forall>t \<in> set (map fst tes). t \<le> now) \<longrightarrow> times_until now (geo_run tes NewRuleState))"
  using assms
proof (induction tes rule: rev_induct)
  case Nil
  then show ?case by (simp add: remembers_def times_until_def geo_run_def NewRuleState_def)
next
  case (snoc te tes)
  obtain now e where te: "te = (now, e)" by (cases te)
  let ?st = "geo_run tes NewRuleState"
  have st: "geo_run (tes @ [te]) NewRuleState = snd (geo_evaluate now e ?st)"
    by (simp add: geo_run_def te)
  have "times_until now ?st" using snoc by (auto simp: te sorted_append)
  with snoc geo_step [of ?st "passed tes NewRuleState" now e]
  have step: "remembers (snd (geo_evaluate now e ?st)) (passed (tes @ [te]) NewRuleState)"
    "sorted_wrt plausible (passed (tes @ [te]) NewRuleState)" "times_until now (snd (geo_evaluate now e ?st))"
    by (simp_all add: te passed_snoc sorted_append)
  have "times_until now' (snd (geo_evaluate now e ?st))" if "now \<le> now'" for now'
    using step(3) that by (auto simp: times_until_def intro: order_trans)
  with step st show ?case by (simp add: te)
qed

section \<open>Signatures in any letter case\<close>

definition ascii :: "char \<Rightarrow> bool" where
  "ascii c \<longleftrightarrow> (of_char c :: nat) < 128"

lemma ascii_lower_ascii: "ascii (ascii_lower c) \<longleftrightarrow> ascii c"
  by (auto simp: ascii_def ascii_lower_def Let_def)

lemma not_ascii_bytes: "\<not> ascii CHR 0xB0" "\<not> ascii CHR 0x84" "\<not> ascii CHR 0xAA" "\<not> ascii CHR 0xC4" "\<not> ascii CHR 0xE2"
  by (simp_all add: ascii_def)

lemma ToLower_append:
  assumes "b = [] \<or> ascii (hd b)"
  shows "ToLower (a @ b) = ToLower a @ ToLower b"
proof (induction a rule: ToLower.induct)
  case (2 c s)
  have 1: "take 1 (s @ b) = [CHR 0xB0] \<longleftrightarrow> take 1 s = [CHR 0xB0]"
    using assms not_ascii_bytes by (cases s; cases b) auto
  have 2: "take 2 (s @ b) = [CHR 0x84, CHR 0xAA] \<longleftrightarrow> take 2 s = [CHR 0x84, CHR 0xAA]"
    using assms not_ascii_bytes by (cases s; cases "tl s"; cases b) (auto simp: numeral_2_eq_2)
  have 3: "take 1 s = [CHR 0xB0] \<Longrightarrow> drop 1 (s @ b) = drop 1 s @ b" by (cases s) auto
  have 4: "take 2 s = [CHR 0x84, CHR 0xAA] \<Longrightarrow> drop 2 (s @ b) = drop 2 s @ b"
    by (cases s; cases "tl s") (auto simp: numeral_2_eq_2)
  from "2.IH" 1 2 3 4 show ?case
    by (simp del: take_append drop_append)
qed simp

lemma ToLower_ascii_prefix: "list_all ascii w \<Longrightarrow> ToLower (w @ b) = map ascii_lower w @ ToLower b"
  using not_ascii_bytes by (induction w) auto

lemma ToLower_infix:
  assumes "list_all ascii (map ascii_lower w)" "w \<noteq> []"
  shows "ToLower (a @ w @ b) = ToLower a @ map ascii_lower w @ ToLower b"
proof -
  have w: "list_all ascii w" using assms(1) by (simp add: list_all_iff ascii_lower_ascii)
  then have "ascii (hd (w @ b))" using assms(2) by (cases w) auto
  with ToLower_append [of "w @ b" a] ToLower_ascii_prefix [OF w] show ?thesis by simp
qed

definition bot_signatures :: "string list" where
  "bot_signatures = [''bot'', ''crawler'', ''headless'', ''spider'', ''python-requests'', ''curl'']"

lemma bot_signatures_ascii: "\<forall>w \<in> set bot_signatures. w \<noteq> [] \<and> list_all ascii w"
  by (simp add: bot_signatures_def ascii_def)

lemma bot_evaluate_eq:
  "fst (bot_evaluate now e st) =
     (if UserAgent e = [] then finding (4 / 10) ''empty user-agent''
      else if \<exists>w \<in> set bot_signatures. Contains (ToLower (UserAgent e)) w
      then finding (8 / 10) ''known bot/crawler user-agent signature'' else no_finding)"
  by (simp add: bot_evaluate_def Let_def bot_signatures_def)

section \<open>Properties\<close>

text \<open>
  C24: The rate limit decides by the whole history: after any sequence of evaluations on a clock
  that does not run backwards, an event scores if and only if at least ten earlier events of
  its address lie less than five seconds back, although the rule keeps only the stamps that were
  in the window when the address was last seen. Other addresses play no part.
\<close>
theorem rate_limit_counts_window:
  assumes "sorted (map fst tes @ [now])"
  shows "vd_score (fst (rate_evaluate now e (rate_run tes NewRuleState))) =
    (if length (filter (\<lambda>t. Sub now t < 5 * Second) (visits (IPAddress e) tes)) \<ge> 10 then f64 (7 / 10) else 0)"
proof -
  have "in_window now (slice_at (IPHistory (rate_run tes NewRuleState)) (IPAddress e)) =
      in_window now (visits (IPAddress e) tes)"
    using assms by (intro rate_run_window) (auto simp: sorted_append)
  then show ?thesis by (auto simp: rate_evaluate_def Let_def in_window_def)
qed

theorem rate_limit_counts_window_witness:
  "vd_score (fst (rate_evaluate 5 zero_tracking_event (rate_run (replicate 10 (5, zero_tracking_event)) NewRuleState))) = f64 (7 / 10) \<and>
   vd_score (fst (rate_evaluate (5 + 5 * Second) zero_tracking_event (rate_run (replicate 10 (5, zero_tracking_event)) NewRuleState))) = 0"
  using rate_limit_counts_window [of "replicate 10 (5, zero_tracking_event)" 5 zero_tracking_event]
    rate_limit_counts_window [of "replicate 10 (5, zero_tracking_event)" "5 + 5 * Second" zero_tracking_event]
  by (simp add: sorted_append visits_def Sub_def int64_min_def int64_max_def Second_def Millisecond_def)

text \<open>
  C25: The visits the geographic rule lets pass are plausible as a whole: whatever the events
  and their order, any two visits of one user to different countries that both passed lie at
  least ten seconds apart, not only neighbouring ones.
\<close>
theorem geo_passed_visits_plausible:
  assumes "sorted (map fst tes)"
  shows "sorted_wrt plausible (passed tes NewRuleState)"
  using geo_run_plausible [OF assms] by blast

definition visit_from :: "string \<Rightarrow> tracking_event" where
  "visit_from c = zero_tracking_event\<lparr>UserID := ''u'', Payload := Some [(''country'', JStr c)]\<rparr>"

theorem geo_passed_visits_plausible_witness:
  "passed [(0, visit_from ''US''), (3, visit_from ''FR''), (10 * Second, visit_from ''FR'')] NewRuleState =
     [(''u'', ''US'', 0), (''u'', ''FR'', 10 * Second)] \<and>
   sorted_wrt plausible (passed [(0, visit_from ''US''), (3, visit_from ''FR''), (10 * Second, visit_from ''FR'')] NewRuleState)"
proof
  show "passed [(0, visit_from ''US''), (3, visit_from ''FR''), (10 * Second, visit_from ''FR'')] NewRuleState =
      [(''u'', ''US'', 0), (''u'', ''FR'', 10 * Second)]"
    by (simp add: visit_of_def visit_from_def geo_evaluate_def NewRuleState_def zero_tracking_event_def Let_def
        Sub_def int64_min_def int64_max_def Second_def Millisecond_def score_values)
  show "sorted_wrt plausible (passed [(0, visit_from ''US''), (3, visit_from ''FR''), (10 * Second, visit_from ''FR'')] NewRuleState)"
    by (rule geo_passed_visits_plausible) (simp add: Second_def Millisecond_def)
qed

text \<open>
  A bot signature is found wherever it stands in the user agent and in whatever letter
  case, and scores 0.8 with its reason, whatever the rest of the event.
\<close>
theorem bot_signature_anywhere:
  assumes "map ascii_lower w \<in> set bot_signatures" "UserAgent e = a @ w @ b"
  shows "bot_evaluate now e st = (finding (8 / 10) ''known bot/crawler user-agent signature'', st)"
proof -
  have "w \<noteq> []" "list_all ascii (map ascii_lower w)"
    using bot_signatures_ascii assms(1) by (metis list.map_disc_iff)+
  then have "Contains (ToLower (UserAgent e)) (map ascii_lower w)"
    by (simp add: assms(2) ToLower_infix Contains_append)
  moreover have "UserAgent e \<noteq> []" using assms(2) \<open>w \<noteq> []\<close> by simp
  ultimately have "fst (bot_evaluate now e st) = finding (8 / 10) ''known bot/crawler user-agent signature''"
    using assms(1) by (auto simp: bot_evaluate_eq)
  then show ?thesis by (simp add: prod_eq_iff)
qed

theorem bot_signature_anywhere_witness:
  "bot_evaluate 0 (zero_tracking_event\<lparr>UserAgent := ''Google'' @ ''BOT'' @ ''/2.1''\<rparr>) NewRuleState =
     (finding (8 / 10) ''known bot/crawler user-agent signature'', NewRuleState)"
proof (rule bot_signature_anywhere [where a = "''Google''" and b = "''/2.1''"])
  show "map ascii_lower ''BOT'' \<in> set bot_signatures" by code_simp
qed simp

end
