(* ===== verification/FraudRepo.thy ===== *)
theory FraudRepo
  imports Events
begin

text \<open>
  \<^verbatim>\<open>pkg/domain/fraud/memory.go\<close> and the contract of \<^verbatim>\<open>pkg/domain/fraud/repository.go\<close>:
  where screened events are kept. Every method runs under the repository's lock, except that
  the callback of a deletion runs after the lock is released. The stored pointers are to
  events nobody changes, so the model stores the events.
\<close>

section \<open>The memory repository\<close>

text \<open>The callback acts on a state \<open>'c\<close> that is not the repository's.\<close>

record 'c memory_fraud_repo =
  fr_events :: "string \<rightharpoonup> screened_event list"
  fr_crmDeleter :: "(string \<Rightarrow> 'c \<Rightarrow> 'c) option"

definition NewMemoryFraudRepository :: "(string \<Rightarrow> 'c \<Rightarrow> 'c) option \<Rightarrow> 'c memory_fraud_repo" where
  "NewMemoryFraudRepository crmDeleter = \<lparr>fr_events = Map.empty, fr_crmDeleter = crmDeleter\<rparr>"

definition event_user :: "screened_event \<Rightarrow> string" where
  "event_user ev = UserID (Tracking ev)"

definition SaveEvent :: "screened_event \<Rightarrow> 'c memory_fraud_repo \<Rightarrow> go_error option \<times> 'c memory_fraud_repo" where
  "SaveEvent event m =
     (None, m\<lparr>fr_events := (fr_events m)(event_user event \<mapsto> slice_at (fr_events m) (event_user event) @ [event])\<rparr>)"

definition GetEventsByUserID :: "string \<Rightarrow> 'c memory_fraud_repo \<Rightarrow> go_error + screened_event list" where
  "GetEventsByUserID userID m =
     (case fr_events m userID of None \<Rightarrow> Inr [] | Some evs \<Rightarrow> Inr evs)"

definition DeleteUserEvents ::
  "string \<Rightarrow> 'c memory_fraud_repo \<times> 'c \<Rightarrow> (go_error + int) \<times> 'c memory_fraud_repo \<times> 'c" where
  "DeleteUserEvents userID s =
     (case s of (m, c) \<Rightarrow>
        let count = int (length (slice_at (fr_events m) userID));
            m' = m\<lparr>fr_events := (fr_events m)(userID := None)\<rparr> in
        (case fr_crmDeleter m of
           None \<Rightarrow> (Inr count, m', c)
         | Some del \<Rightarrow> (Inr (count + 1), m', del userID c)))"

section \<open>The contract of a store\<close>

text \<open>
  What the services rely on: a user's events are that user's, a save adds at most the saved
  event and touches no other user, and a successful deletion leaves the user nothing and
  touches no other user.
\<close>

locale fraud_store =
  fixes save :: "screened_event \<Rightarrow> 's \<Rightarrow> go_error option \<times> 's"
    and events :: "string \<Rightarrow> 's \<Rightarrow> screened_event list"
    and purge :: "string \<Rightarrow> 's \<Rightarrow> (go_error + int) \<times> 's"
    and inv :: "'s \<Rightarrow> bool"
  assumes inv_save: "inv s \<Longrightarrow> inv (snd (save e s))"
    and inv_purge: "inv s \<Longrightarrow> inv (snd (purge u s))"
    and events_own: "inv s \<Longrightarrow> e \<in> set (events u s) \<Longrightarrow> event_user e = u"
    and save_own: "inv s \<Longrightarrow> set (events (event_user e) (snd (save e s))) \<subseteq> insert e (set (events (event_user e) s))"
    and save_other: "inv s \<Longrightarrow> u \<noteq> event_user e \<Longrightarrow> events u (snd (save e s)) = events u s"
    and purge_own: "inv s \<Longrightarrow> purge u s = (Inr n, s') \<Longrightarrow> events u s' = []"
    and purge_other: "inv s \<Longrightarrow> u' \<noteq> u \<Longrightarrow> events u' (snd (purge u s)) = events u' s"
begin

definition save_all :: "screened_event list \<Rightarrow> 's \<Rightarrow> 's" where
  "save_all es s = fold (\<lambda>e s. snd (save e s)) es s"

lemma inv_save_all: "inv s \<Longrightarrow> inv (save_all es s)"
  by (induction es arbitrary: s) (auto simp: save_all_def inv_save)

lemma save_all_others: "inv s \<Longrightarrow> \<forall>e \<in> set es. event_user e \<noteq> u \<Longrightarrow> events u (save_all es s) = events u s"
  by (induction es arbitrary: s) (auto simp: save_all_def inv_save save_other)

text \<open>A purged user stays purged while only others' events arrive.\<close>

lemma purged_until_next_event:
  assumes "inv s" "purge u s = (Inr n, s')" "\<forall>e \<in> set es. event_user e \<noteq> u"
  shows "events u (save_all es s') = []"
proof -
  have "inv s'" using inv_purge [OF assms(1), of u] assms(2) by simp
  with save_all_others [OF _ assms(3)] purge_own [OF assms(1,2)] show ?thesis by simp
qed

text \<open>An invariant of single events holds of all the store hands out.\<close>

lemma save_keeps_all:
  assumes "inv s" "\<forall>u. \<forall>e \<in> set (events u s). P e" "P e"
  shows "\<forall>u. \<forall>e' \<in> set (events u (snd (save e s))). P e'"
proof (intro allI ballI)
  fix u e'
  assume "e' \<in> set (events u (snd (save e s)))"
  with assms save_own [OF assms(1), of e] save_other [OF assms(1), of u e] show "P e'"
    by (cases "u = event_user e") auto
qed

lemma purge_keeps_all:
  assumes "inv s" "purge u s = (Inr n, s')" "\<forall>u. \<forall>e \<in> set (events u s). P e"
  shows "\<forall>u. \<forall>e \<in> set (events u s'). P e"
proof (intro allI ballI)
  fix u' e
  assume "e \<in> set (events u' s')"
  with assms purge_own [OF assms(1,2)] purge_other [OF assms(1), of u' u] show "P e"
    by (cases "u' = u") auto
qed

end

section \<open>The memory repository keeps the contract\<close>

definition repo_events :: "string \<Rightarrow> 'c memory_fraud_repo \<times> 'c \<Rightarrow> screened_event list" where
  "repo_events u s = (case GetEventsByUserID u (fst s) of Inr evs \<Rightarrow> evs | Inl _ \<Rightarrow> [])"

definition repo_save :: "screened_event \<Rightarrow> 'c memory_fraud_repo \<times> 'c \<Rightarrow> go_error option \<times> 'c memory_fraud_repo \<times> 'c" where
  "repo_save e s = (case SaveEvent e (fst s) of (r, m) \<Rightarrow> (r, m, snd s))"

definition repo_inv :: "'c memory_fraud_repo \<times> 'c \<Rightarrow> bool" where
  "repo_inv s \<longleftrightarrow> (\<forall>u. \<forall>e \<in> set (slice_at (fr_events (fst s)) u). event_user e = u)"

lemma repo_events_slice: "repo_events u s = slice_at (fr_events (fst s)) u"
  by (simp add: repo_events_def GetEventsByUserID_def slice_at_def split: option.splits)

lemma slice_at_upd: "slice_at (m(k := v)) k' = (if k' = k then (case v of None \<Rightarrow> [] | Some vs \<Rightarrow> vs) else slice_at m k')"
  by (simp add: slice_at_def)

lemma repo_save_events:
  "repo_events u (snd (repo_save e s)) = (if u = event_user e then repo_events u s @ [e] else repo_events u s)"
  by (simp add: repo_events_slice repo_save_def SaveEvent_def slice_at_upd)

lemma repo_purge_events:
  "repo_events u' (snd (DeleteUserEvents u s)) = (if u' = u then [] else repo_events u' s)"
  by (cases s) (simp add: repo_events_slice DeleteUserEvents_def Let_def slice_at_upd split: option.splits)

lemma repo_inv_events: "repo_inv s \<longleftrightarrow> (\<forall>u. \<forall>e \<in> set (repo_events u s). event_user e = u)"
  by (simp add: repo_inv_def repo_events_slice)

interpretation memory_store: fraud_store repo_save repo_events DeleteUserEvents repo_inv
proof unfold_locales
  fix s :: "'c memory_fraud_repo \<times> 'c" and u n s'
  assume "DeleteUserEvents u s = (Inr n, s')"
  then show "repo_events u s' = []"
    using repo_purge_events [of u u s] by simp
qed (auto simp: repo_inv_events repo_save_events repo_purge_events)

lemma repo_inv_New: "repo_inv (NewMemoryFraudRepository del, c)"
  by (simp add: repo_inv_def NewMemoryFraudRepository_def)

text \<open>The repository after any sequence of saves and deletions.\<close>

datatype repo_op = OpSave screened_event | OpDelete string

fun repo_apply :: "repo_op \<Rightarrow> 'c memory_fraud_repo \<times> 'c \<Rightarrow> 'c memory_fraud_repo \<times> 'c" where
  "repo_apply (OpSave e) s = snd (repo_save e s)"
| "repo_apply (OpDelete u) s = snd (DeleteUserEvents u s)"

text \<open>The events of a user by the history: those saved since the last deletion.\<close>

fun saved_since :: "string \<Rightarrow> repo_op list \<Rightarrow> screened_event list" where
  "saved_since u [] = []"
| "saved_since u (OpSave e # ops) = (if OpDelete u \<in> set ops then saved_since u ops
     else if event_user e = u then e # saved_since u ops else saved_since u ops)"
| "saved_since u (OpDelete u' # ops) = saved_since u ops"

lemma saved_since_snoc:
  "saved_since u (ops @ [OpSave e]) = (if event_user e = u then saved_since u ops @ [e] else saved_since u ops)"
  "saved_since u (ops @ [OpDelete u']) = (if u' = u then [] else saved_since u ops)"
proof (induction ops)
  case (Cons op ops)
  { case 1 then show ?case using Cons by (cases op) auto }
  { case 2 then show ?case using Cons by (cases op) auto }
qed simp_all

lemma repo_history:
  "repo_events u (fold repo_apply ops (NewMemoryFraudRepository del, c)) = saved_since u ops"
proof (induction ops rule: rev_induct)
  case Nil
  then show ?case by (simp add: repo_events_slice NewMemoryFraudRepository_def)
next
  case (snoc op ops)
  then show ?case
    by (cases op) (simp_all add: saved_since_snoc repo_save_events repo_purge_events)
qed

section \<open>Properties\<close>

text \<open>
  What the memory repository hands out for a user is exactly that user's events saved
  since the last deletion of that user, in the order of the saves, after any sequence of saves
  and deletions of any users.
\<close>
theorem memory_repo_history:
  "GetEventsByUserID u (fst (fold repo_apply ops (NewMemoryFraudRepository del, c))) = Inr (saved_since u ops)"
  using repo_history [of u ops del c]
  by (simp add: repo_events_def GetEventsByUserID_def split: option.splits)

end
