(* ===== verification/Tracker.thy ===== *)
theory Tracker
  imports GoFloat
begin

text \<open>
  \<^verbatim>\<open>pkg/domain/analytics/memory.go\<close>, \<^verbatim>\<open>models.go\<close> and the contract of \<^verbatim>\<open>tracker.go\<close>: the counters of
  the system. Every counter is an atomic int64 of its own, so an increment is one atomic step;
  a reading loads the counters one after the other, which the model does at one instant here and load by load in
  \<^verbatim>\<open>Threads\<close>.
\<close>

section \<open>The memory tracker\<close>

record memory_tracker =
  mt_startTime :: time
  mt_totalReceived :: int
  mt_legitimate :: int
  mt_fraudulent :: int
  mt_crmAttempts :: int
  mt_crmSuccesses :: int
  mt_crmFailures :: int

record system_metrics =
  TotalEventsReceived :: int
  LegitimateEvents :: int
  FraudulentEvents :: int
  CRMAttempts :: int
  CRMSuccesses :: int
  CRMFailures :: int
  EventsPerSecond :: rat

definition NewMemoryTelemetryTracker :: "time \<Rightarrow> memory_tracker" where
  "NewMemoryTelemetryTracker now =
     \<lparr>mt_startTime = now, mt_totalReceived = 0, mt_legitimate = 0, mt_fraudulent = 0, mt_crmAttempts = 0,
      mt_crmSuccesses = 0, mt_crmFailures = 0\<rparr>"

text \<open>\<^verbatim>\<open>atomic.AddInt64\<close> wraps around.\<close>

definition add64 :: "int \<Rightarrow> int \<Rightarrow> int" where
  "add64 delta x = wrap64 (x + delta)"

definition IncrementMetric :: "string \<Rightarrow> int \<Rightarrow> memory_tracker \<Rightarrow> memory_tracker" where
  "IncrementMetric name delta m =
     (if name = ''total_received'' then mt_totalReceived_update (add64 delta) m
      else if name = ''legitimate'' then mt_legitimate_update (add64 delta) m
      else if name = ''fraudulent'' then mt_fraudulent_update (add64 delta) m
      else if name = ''crm_attempts'' then mt_crmAttempts_update (add64 delta) m
      else if name = ''crm_successes'' then mt_crmSuccesses_update (add64 delta) m
      else if name = ''crm_failures'' then mt_crmFailures_update (add64 delta) m
      else m)"

text \<open>
  \<^verbatim>\<open>time.Since(t).Seconds()\<close> on the monotonic clock: the whole seconds plus the rest over 10^9,
  in \<^verbatim>\<open>float64\<close>.
\<close>

definition Seconds :: "duration \<Rightarrow> rat" where
  "Seconds d = (let sec = (if d < 0 then - (- d div Second) else d div Second); nsec = d - sec * Second in
     fadd (f64 (of_int sec)) (fdiv (f64 (of_int nsec)) 1000000000))"

definition elapsed_seconds :: "time \<Rightarrow> time \<Rightarrow> rat" where
  "elapsed_seconds now start = (let elapsed = Seconds (Sub now start) in if elapsed \<le> 0 then 1 else elapsed)"

definition GetMetrics :: "time \<Rightarrow> memory_tracker \<Rightarrow> system_metrics" where
  "GetMetrics now m =
     (let elapsed = elapsed_seconds now (mt_startTime m); totalReceived = mt_totalReceived m in
      \<lparr>TotalEventsReceived = totalReceived, LegitimateEvents = mt_legitimate m, FraudulentEvents = mt_fraudulent m,
       CRMAttempts = mt_crmAttempts m, CRMSuccesses = mt_crmSuccesses m, CRMFailures = mt_crmFailures m,
       EventsPerSecond = fdiv (f64 (of_int totalReceived)) elapsed\<rparr>)"

section \<open>The contract of a tracker\<close>

text \<open>The names a tracker counts under, and the reading of one of them.\<close>

definition metric_names :: "string list" where
  "metric_names = [''total_received'', ''legitimate'', ''fraudulent'', ''crm_attempts'', ''crm_successes'', ''crm_failures'']"

definition metric :: "string \<Rightarrow> system_metrics \<Rightarrow> int" where
  "metric name sm =
     (if name = ''total_received'' then TotalEventsReceived sm
      else if name = ''legitimate'' then LegitimateEvents sm
      else if name = ''fraudulent'' then FraudulentEvents sm
      else if name = ''crm_attempts'' then CRMAttempts sm
      else if name = ''crm_successes'' then CRMSuccesses sm
      else if name = ''crm_failures'' then CRMFailures sm
      else 0)"

locale telemetry =
  fixes increment :: "string \<Rightarrow> int \<Rightarrow> 't \<Rightarrow> 't"
    and read :: "string \<Rightarrow> 't \<Rightarrow> int"
  assumes counted: "name \<in> set metric_names \<Longrightarrow> read name (increment name d t) = wrap64 (read name t + d)"
    and others: "name' \<noteq> name \<Longrightarrow> read name' (increment name d t) = read name' t"
    and in_range: "is_int64 (read name t0) \<Longrightarrow> is_int64 (read name (increment name' d t0))"
begin

definition increments :: "(string \<times> int) list \<Rightarrow> 't \<Rightarrow> 't" where
  "increments ops t = fold (\<lambda>(name, d) t. increment name d t) ops t"

definition total :: "string \<Rightarrow> (string \<times> int) list \<Rightarrow> int" where
  "total name ops = sum_list (map snd (filter (\<lambda>(n, d). n = name) ops))"

lemma increments_total:
  "name \<in> set metric_names \<Longrightarrow> is_int64 (read name t) \<Longrightarrow> read name (increments ops t) = wrap64 (read name t + total name ops)"
proof (induction ops arbitrary: t)
  case Nil
  then show ?case by (simp add: increments_def total_def wrap64_id)
next
  case (Cons op ops)
  obtain n d where op: "op = (n, d)" by (cases op)
  have "read name (increments (op # ops) t) = wrap64 (read name (increment n d t) + total name ops)"
    using Cons.IH [of "increment n d t"] Cons.prems in_range by (simp add: increments_def op)
  then show ?case
    using counted [OF Cons.prems(1)] others [of name n] wrap64_add_left [of "read name t + d" "total name ops"]
    by (cases "n = name") (auto simp: op total_def algebra_simps)
qed

end

definition counter :: "string \<Rightarrow> memory_tracker \<Rightarrow> int" where
  "counter name m = metric name (GetMetrics 0 m)"

lemma counter_GetMetrics: "metric name (GetMetrics now m) = counter name m"
  by (simp add: counter_def metric_def GetMetrics_def Let_def)

lemmas counter_defs = counter_def metric_def GetMetrics_def Let_def IncrementMetric_def

lemma counter_increment:
  "counter name (IncrementMetric ''total_received'' d m) = (if name = ''total_received'' then add64 d (counter name m) else counter name m)"
  "counter name (IncrementMetric ''legitimate'' d m) = (if name = ''legitimate'' then add64 d (counter name m) else counter name m)"
  "counter name (IncrementMetric ''fraudulent'' d m) = (if name = ''fraudulent'' then add64 d (counter name m) else counter name m)"
  "counter name (IncrementMetric ''crm_attempts'' d m) = (if name = ''crm_attempts'' then add64 d (counter name m) else counter name m)"
  "counter name (IncrementMetric ''crm_successes'' d m) = (if name = ''crm_successes'' then add64 d (counter name m) else counter name m)"
  "counter name (IncrementMetric ''crm_failures'' d m) = (if name = ''crm_failures'' then add64 d (counter name m) else counter name m)"
  by (simp_all add: counter_defs)

lemma IncrementMetric_unknown: "name \<notin> set metric_names \<Longrightarrow> IncrementMetric name d m = m"
  by (simp add: IncrementMetric_def metric_names_def)

lemma counter_IncrementMetric:
  "counter name (IncrementMetric name' d m) =
     (if name' = name \<and> name \<in> set metric_names then add64 d (counter name m) else counter name m)"
proof (cases "name' \<in> set metric_names")
  case True
  then show ?thesis
    unfolding metric_names_def list.set insert_iff empty_iff
    by (elim disjE) (simp_all only: counter_increment, simp_all)
next
  case False
  then show ?thesis by (auto simp: IncrementMetric_unknown)
qed

interpretation memory_telemetry: telemetry IncrementMetric counter
  by unfold_locales (auto simp: counter_IncrementMetric add64_def is_int64_wrap64)

lemma counter_New [simp]: "counter name (NewMemoryTelemetryTracker now) = 0"
  by (simp add: counter_def metric_def GetMetrics_def Let_def NewMemoryTelemetryTracker_def)

section \<open>Properties\<close>

text \<open>
  The tracker loses no increment: after any sequence of increments, in any order and under
  any names, each of the six counters reads the sum of the increments under its name, as a
  64-bit integer, at whatever time it is read.
\<close>
theorem tracker_counts_all:
  assumes "name \<in> set metric_names"
  shows "metric name (GetMetrics now (fold (\<lambda>(n, d). IncrementMetric n d) ops (NewMemoryTelemetryTracker start))) =
    wrap64 (sum_list (map snd (filter (\<lambda>(n, d). n = name) ops)))"
  using memory_telemetry.increments_total [OF assms, of "NewMemoryTelemetryTracker start" ops]
  by (simp add: counter_GetMetrics memory_telemetry.increments_def memory_telemetry.total_def is_int64_def
      int64_min_def int64_max_def)

theorem tracker_counts_all_witness:
  "metric ''legitimate'' (GetMetrics 7 (fold (\<lambda>(n, d). IncrementMetric n d)
     [(''legitimate'', 1), (''fraudulent'', 1), (''legitimate'', 1), (''clicks'', 1)] (NewMemoryTelemetryTracker 0))) = 2"
  by (subst tracker_counts_all) (simp_all add: metric_names_def wrap64_def)

end
