(* ===== verification/Broker.thy ===== *)
theory Broker
  imports Events
begin

text \<open>
  \<^verbatim>\<open>pkg/broker/broker.go\<close>: the in-memory broker. Publishing holds the read lock and the
  other methods the write lock, so publishers run beside each other but never beside a
  subscription or \<^verbatim>\<open>Close\<close>; channel operations are atomic. A method is one step here, and
  taking an event out of a subscriber's channel, which needs no lock, is a step of its own.
\<close>

section \<open>Buffered channels\<close>

record 'e chan =
  ch_buf :: "'e list"
  ch_cap :: nat
  ch_closed :: bool

definition make_chan :: "int \<Rightarrow> 'e chan" where
  "make_chan n = \<lparr>ch_buf = [], ch_cap = nat n, ch_closed = False\<rparr>"

text \<open>\<open>v, ok := <-ch\<close>: \<open>NotReady\<close> when the channel is empty and open.\<close>

datatype 'e received = NotReady | Received 'e | ChanClosed

fun chan_recv :: "'e chan \<Rightarrow> 'e received \<times> 'e chan" where
  "chan_recv ch = (case ch_buf ch of
      e # es \<Rightarrow> (Received e, ch\<lparr>ch_buf := es\<rparr>)
    | [] \<Rightarrow> (if ch_closed ch then ChanClosed else NotReady, ch))"

text \<open>
  One \<^verbatim>\<open>select\<close> of a publisher on a subscriber. A send on a closed channel is ready, and
  panics when chosen. Of the ready cases the runtime picks any one; \<open>default\<close> is taken when none is.
\<close>

record select_env =
  se_done :: "go_error option"
  se_pick_send :: bool

definition send_ready :: "'e chan \<Rightarrow> bool" where
  "send_ready ch \<longleftrightarrow> ch_closed ch \<or> length (ch_buf ch) < ch_cap ch"

fun send_all :: "(nat \<Rightarrow> select_env) \<Rightarrow> nat \<Rightarrow> 'e \<Rightarrow> 'e chan list \<Rightarrow> (go_error option \<times> 'e chan list) outcome" where
  "send_all env i e [] = Ret (None, [])"
| "send_all env i e (ch # chs) =
     (if send_ready ch \<and> (se_done (env i) = None \<or> se_pick_send (env i)) then
        if ch_closed ch then Panic ''send on closed channel''
        else (case send_all env (Suc i) e chs of
                Ret (r, chs') \<Rightarrow> Ret (r, ch\<lparr>ch_buf := ch_buf ch @ [e]\<rparr> # chs')
              | Panic m \<Rightarrow> Panic m)
      else (case se_done (env i) of
              Some err \<Rightarrow> Ret (Some err, ch # chs)
            | None \<Rightarrow>
                (case send_all env (Suc i) e chs of
                   Ret (r, chs') \<Rightarrow> Ret (r, ch # chs')
                 | Panic m \<Rightarrow> Panic m)))"

text \<open>\<^verbatim>\<open>close(ch)\<close> panics on a channel that is closed already.\<close>

fun close_all :: "'e chan list \<Rightarrow> 'e chan list outcome" where
  "close_all [] = Ret []"
| "close_all (ch # chs) =
     (if ch_closed ch then Panic ''close of closed channel''
      else (case close_all chs of Ret chs' \<Rightarrow> Ret (ch\<lparr>ch_closed := True\<rparr> # chs') | Panic m \<Rightarrow> Panic m))"

section \<open>The broker\<close>

record in_memory_broker =
  rawSubs :: "tracking_event chan list"
  screenedSubs :: "screened_event chan list"
  br_closed :: bool
  bufferSize :: int

definition NewInMemoryBroker :: "int \<Rightarrow> in_memory_broker" where
  "NewInMemoryBroker n =
     \<lparr>rawSubs = [], screenedSubs = [], br_closed = False, bufferSize = (if n \<le> 0 then 10000 else n)\<rparr>"

definition broker_is_closed :: go_error where
  "broker_is_closed = NewError ''broker is closed''"

text \<open>The context's \<^verbatim>\<open>Done\<close> and the runtime's choice at each subscriber are the argument \<open>env\<close>.\<close>

definition PublishRaw ::
  "(nat \<Rightarrow> select_env) \<Rightarrow> tracking_event \<Rightarrow> in_memory_broker \<Rightarrow> (go_error option \<times> in_memory_broker) outcome" where
  "PublishRaw env event b =
     (if br_closed b then Ret (Some broker_is_closed, b)
      else (case send_all env 0 event (rawSubs b) of
              Ret (r, chs) \<Rightarrow> Ret (r, b\<lparr>rawSubs := chs\<rparr>)
            | Panic m \<Rightarrow> Panic m))"

definition PublishScreened ::
  "(nat \<Rightarrow> select_env) \<Rightarrow> screened_event \<Rightarrow> in_memory_broker \<Rightarrow> (go_error option \<times> in_memory_broker) outcome" where
  "PublishScreened env event b =
     (if br_closed b then Ret (Some broker_is_closed, b)
      else (case send_all env 0 event (screenedSubs b) of
              Ret (r, chs) \<Rightarrow> Ret (r, b\<lparr>screenedSubs := chs\<rparr>)
            | Panic m \<Rightarrow> Panic m))"

text \<open>A subscription answers with the new channel, named by its place among the subscribers.\<close>

definition SubscribeRaw :: "in_memory_broker \<Rightarrow> (go_error + nat) \<times> in_memory_broker" where
  "SubscribeRaw b =
     (if br_closed b then (Inl broker_is_closed, b)
      else (Inr (length (rawSubs b)), b\<lparr>rawSubs := rawSubs b @ [make_chan (bufferSize b)]\<rparr>))"

definition SubscribeScreened :: "in_memory_broker \<Rightarrow> (go_error + nat) \<times> in_memory_broker" where
  "SubscribeScreened b =
     (if br_closed b then (Inl broker_is_closed, b)
      else (Inr (length (screenedSubs b)), b\<lparr>screenedSubs := screenedSubs b @ [make_chan (bufferSize b)]\<rparr>))"

definition Close :: "in_memory_broker \<Rightarrow> (go_error option \<times> in_memory_broker) outcome" where
  "Close b =
     (if br_closed b then Ret (None, b)
      else (case close_all (rawSubs b) of
              Panic m \<Rightarrow> Panic m
            | Ret raw \<Rightarrow>
                (case close_all (screenedSubs b) of
                   Panic m \<Rightarrow> Panic m
                 | Ret scr \<Rightarrow> Ret (None, b\<lparr>br_closed := True, rawSubs := raw, screenedSubs := scr\<rparr>))))"

text \<open>A consumer takes from the channel it was given.\<close>

definition RecvRaw :: "nat \<Rightarrow> in_memory_broker \<Rightarrow> tracking_event received \<times> in_memory_broker" where
  "RecvRaw i b = (case chan_recv (rawSubs b ! i) of (r, ch) \<Rightarrow> (r, b\<lparr>rawSubs := (rawSubs b)[i := ch]\<rparr>))"

definition RecvScreened :: "nat \<Rightarrow> in_memory_broker \<Rightarrow> screened_event received \<times> in_memory_broker" where
  "RecvScreened i b =
     (case chan_recv (screenedSubs b ! i) of (r, ch) \<Rightarrow> (r, b\<lparr>screenedSubs := (screenedSubs b)[i := ch]\<rparr>))"

section \<open>What the loops do\<close>

definition chan_ok :: "bool \<Rightarrow> int \<Rightarrow> 'e chan \<Rightarrow> bool" where
  "chan_ok c n ch \<longleftrightarrow> ch_closed ch = c \<and> ch_cap ch = nat n \<and> length (ch_buf ch) \<le> nat n"

definition chans_ok :: "bool \<Rightarrow> int \<Rightarrow> 'e chan list \<Rightarrow> bool" where
  "chans_ok c n chs \<longleftrightarrow> (\<forall>ch \<in> set chs. chan_ok c n ch)"

lemma chans_ok_simps [simp]:
  "chans_ok c n []"
  "chans_ok c n (ch # chs) \<longleftrightarrow> chan_ok c n ch \<and> chans_ok c n chs"
  "chans_ok c n (xs @ ys) \<longleftrightarrow> chans_ok c n xs \<and> chans_ok c n ys"
  by (auto simp: chans_ok_def)

lemma chans_ok_nth: "chans_ok c n chs \<Longrightarrow> i < length chs \<Longrightarrow> chan_ok c n (chs ! i)"
  by (simp add: chans_ok_def)

lemma chans_ok_update: "chans_ok c n chs \<Longrightarrow> chan_ok c n ch \<Longrightarrow> chans_ok c n (chs[i := ch])"
  by (auto simp: chans_ok_def dest: set_update_subset_insert [THEN subsetD])

text \<open>A channel after a publisher passed by: unchanged, or with the event at its end if there was room.\<close>

definition maybe_sent :: "'e \<Rightarrow> 'e chan \<Rightarrow> 'e chan \<Rightarrow> bool" where
  "maybe_sent e ch ch' \<longleftrightarrow> ch' = ch \<or> length (ch_buf ch) < ch_cap ch \<and> ch' = ch\<lparr>ch_buf := ch_buf ch @ [e]\<rparr>"

lemma maybe_sent_refl [simp]: "maybe_sent e ch ch"
  by (simp add: maybe_sent_def)

lemma maybe_sent_all_refl [simp]: "list_all2 (maybe_sent e) chs chs"
  by (simp add: list_all2_refl)

lemma send_all_spec:
  "chans_ok False n chs \<Longrightarrow> \<exists>r chs'. send_all env i e chs = Ret (r, chs') \<and> list_all2 (maybe_sent e) chs chs'"
proof (induction chs arbitrary: i)
  case (Cons ch chs)
  then have "\<exists>r chs'. send_all env (Suc i) e chs = Ret (r, chs') \<and> list_all2 (maybe_sent e) chs chs'"
    by simp
  then obtain r chs' where IH: "send_all env (Suc i) e chs = Ret (r, chs')" "list_all2 (maybe_sent e) chs chs'"
    by blast
  have "send_ready ch \<Longrightarrow> maybe_sent e ch (ch\<lparr>ch_buf := ch_buf ch @ [e]\<rparr>)" "\<not> ch_closed ch"
    using Cons.prems by (auto simp: chan_ok_def maybe_sent_def send_ready_def)
  with IH show ?case
    by (cases "se_done (env i)") auto
qed simp

lemma maybe_sent_ok: "list_all2 (maybe_sent e) chs chs' \<Longrightarrow> chans_ok c n chs \<Longrightarrow> chans_ok c n chs'"
  by (induction rule: list_all2_induct) (auto simp: chan_ok_def maybe_sent_def)

lemma close_all_spec: "chans_ok False n chs \<Longrightarrow> close_all chs = Ret (map (ch_closed_update (\<lambda>_. True)) chs)"
  by (induction chs) (simp_all add: chan_ok_def)

lemma close_all_ok: "chans_ok False n chs \<Longrightarrow> chans_ok True n (map (ch_closed_update (\<lambda>_. True)) chs)"
  by (auto simp: chans_ok_def chan_ok_def)

lemma make_chan_ok: "0 < n \<Longrightarrow> chan_ok False n (make_chan n)"
  by (simp add: chan_ok_def make_chan_def)

lemma chan_recv_ok: "chan_ok c n ch \<Longrightarrow> chan_ok c n (snd (chan_recv ch))"
  by (auto simp: chan_ok_def split: list.splits)

text \<open>With a live context every subscriber with room gets the event, the others are passed over.\<close>

definition offered :: "'e \<Rightarrow> 'e chan \<Rightarrow> 'e chan" where
  "offered e ch = (if length (ch_buf ch) < ch_cap ch then ch\<lparr>ch_buf := ch_buf ch @ [e]\<rparr> else ch)"

lemma send_all_live:
  assumes "\<forall>j. se_done (env j) = None"
  shows "chans_ok False n chs \<Longrightarrow> send_all env i e chs = Ret (None, map (offered e) chs)"
proof (induction chs arbitrary: i)
  case (Cons ch chs)
  then have "send_all env (Suc i) e chs = Ret (None, map (offered e) chs)" "\<not> ch_closed ch"
    by (auto simp: chan_ok_def)
  then show ?case by (simp add: assms offered_def send_ready_def)
qed simp

section \<open>Invariant\<close>

definition broker_wf :: "in_memory_broker \<Rightarrow> bool" where
  "broker_wf b \<longleftrightarrow> 0 < bufferSize b \<and> chans_ok (br_closed b) (bufferSize b) (rawSubs b) \<and>
     chans_ok (br_closed b) (bufferSize b) (screenedSubs b)"

lemma broker_wf_New: "broker_wf (NewInMemoryBroker n)"
  by (simp add: broker_wf_def NewInMemoryBroker_def chans_ok_def)

lemma PublishRaw_spec:
  assumes "broker_wf b"
  shows "\<exists>r b'. PublishRaw env e b = Ret (r, b') \<and> broker_wf b' \<and>
    list_all2 (maybe_sent e) (rawSubs b) (rawSubs b') \<and> b' = b\<lparr>rawSubs := rawSubs b'\<rparr>"
proof (cases "br_closed b")
  case True
  with assms show ?thesis
    by (simp add: PublishRaw_def)
next
  case False
  with assms have ok: "chans_ok False (bufferSize b) (rawSubs b)" by (simp add: broker_wf_def)
  obtain r chs where "send_all env 0 e (rawSubs b) = Ret (r, chs)" "list_all2 (maybe_sent e) (rawSubs b) chs"
    using send_all_spec [OF ok] by blast
  with False assms maybe_sent_ok [of e "rawSubs b" chs False "bufferSize b"] ok show ?thesis
    by (simp add: PublishRaw_def broker_wf_def)
qed

lemma PublishScreened_spec:
  assumes "broker_wf b"
  shows "\<exists>r b'. PublishScreened env e b = Ret (r, b') \<and> broker_wf b' \<and>
    list_all2 (maybe_sent e) (screenedSubs b) (screenedSubs b') \<and> b' = b\<lparr>screenedSubs := screenedSubs b'\<rparr>"
proof (cases "br_closed b")
  case True
  with assms show ?thesis
    by (simp add: PublishScreened_def)
next
  case False
  with assms have ok: "chans_ok False (bufferSize b) (screenedSubs b)" by (simp add: broker_wf_def)
  obtain r chs where "send_all env 0 e (screenedSubs b) = Ret (r, chs)" "list_all2 (maybe_sent e) (screenedSubs b) chs"
    using send_all_spec [OF ok] by blast
  with False assms maybe_sent_ok [of e "screenedSubs b" chs False "bufferSize b"] ok show ?thesis
    by (simp add: PublishScreened_def broker_wf_def)
qed

lemma Close_spec:
  assumes "broker_wf b"
  shows "\<exists>b'. Close b = Ret (None, b') \<and> broker_wf b' \<and> br_closed b' \<and>
    map ch_buf (rawSubs b') = map ch_buf (rawSubs b) \<and> map ch_buf (screenedSubs b') = map ch_buf (screenedSubs b)"
proof (cases "br_closed b")
  case False
  with assms have ok: "chans_ok False (bufferSize b) (rawSubs b)" "chans_ok False (bufferSize b) (screenedSubs b)"
    by (simp_all add: broker_wf_def)
  from False assms show ?thesis
    by (simp add: Close_def close_all_spec [OF ok(1)] close_all_spec [OF ok(2)] broker_wf_def
        close_all_ok [OF ok(1)] close_all_ok [OF ok(2)] comp_def)
qed (use assms in \<open>simp add: Close_def\<close>)

section \<open>Runs\<close>

text \<open>The calls on a broker and the receptions from its channels, with their answers.\<close>

datatype broker_op =
    OpPublishRaw "nat \<Rightarrow> select_env" tracking_event "go_error option"
  | OpPublishScreened "nat \<Rightarrow> select_env" screened_event "go_error option"
  | OpSubscribeRaw "go_error + nat"
  | OpSubscribeScreened "go_error + nat"
  | OpRecvRaw nat "tracking_event received"
  | OpRecvScreened nat "screened_event received"
  | OpClose "go_error option"

inductive broker_step :: "in_memory_broker \<Rightarrow> broker_op \<Rightarrow> in_memory_broker \<Rightarrow> bool" where
  st_publish_raw: "PublishRaw env e b = Ret (r, b') \<Longrightarrow> broker_step b (OpPublishRaw env e r) b'"
| st_publish_screened: "PublishScreened env se b = Ret (r, b') \<Longrightarrow> broker_step b (OpPublishScreened env se r) b'"
| st_subscribe_raw: "SubscribeRaw b = (s, b') \<Longrightarrow> broker_step b (OpSubscribeRaw s) b'"
| st_subscribe_screened: "SubscribeScreened b = (s, b') \<Longrightarrow> broker_step b (OpSubscribeScreened s) b'"
| st_recv_raw: "i < length (rawSubs b) \<Longrightarrow> RecvRaw i b = (v, b') \<Longrightarrow> broker_step b (OpRecvRaw i v) b'"
| st_recv_screened:
    "i < length (screenedSubs b) \<Longrightarrow> RecvScreened i b = (w, b') \<Longrightarrow> broker_step b (OpRecvScreened i w) b'"
| st_close: "Close b = Ret (r, b') \<Longrightarrow> broker_step b (OpClose r) b'"

inductive_simps broker_step_simps:
  "broker_step b (OpPublishRaw env e r) b'" "broker_step b (OpPublishScreened env se r) b'"
  "broker_step b (OpSubscribeRaw s) b'" "broker_step b (OpSubscribeScreened s) b'"
  "broker_step b (OpRecvRaw i v) b'" "broker_step b (OpRecvScreened i w) b'"
  "broker_step b (OpClose r) b'"

lemma broker_wf_step: "broker_step b op b' \<Longrightarrow> broker_wf b \<Longrightarrow> broker_wf b' \<and> bufferSize b' = bufferSize b"
proof (induction rule: broker_step.induct)
  case (st_publish_raw env e b r b')
  from PublishRaw_spec [OF st_publish_raw(2), of env e] st_publish_raw(1) show ?case
    by (auto dest: arg_cong [where f = bufferSize])
next
  case (st_publish_screened env se b r b')
  from PublishScreened_spec [OF st_publish_screened(2), of env se] st_publish_screened(1) show ?case
    by (auto dest: arg_cong [where f = bufferSize])
next
  case (st_subscribe_raw b s b')
  then show ?case by (auto simp: SubscribeRaw_def broker_wf_def make_chan_ok split: if_splits)
next
  case (st_subscribe_screened b s b')
  then show ?case by (auto simp: SubscribeScreened_def broker_wf_def make_chan_ok split: if_splits)
next
  case (st_recv_raw i b v b')
  then have "chan_ok (br_closed b) (bufferSize b) (snd (chan_recv (rawSubs b ! i)))"
    by (intro chan_recv_ok) (auto simp: broker_wf_def chans_ok_nth)
  with st_recv_raw show ?case
    by (auto simp: RecvRaw_def broker_wf_def split: prod.splits intro!: chans_ok_update)
next
  case (st_recv_screened i b w b')
  then have "chan_ok (br_closed b) (bufferSize b) (snd (chan_recv (screenedSubs b ! i)))"
    by (intro chan_recv_ok) (auto simp: broker_wf_def chans_ok_nth)
  with st_recv_screened show ?case
    by (auto simp: RecvScreened_def broker_wf_def split: prod.splits intro!: chans_ok_update)
next
  case (st_close b r b')
  from Close_spec [OF st_close(2)] st_close(1) show ?case
    by (auto simp: Close_def split: if_splits outcome.splits)
qed

section \<open>The contract of a topic\<close>

text \<open>
  What a consumer relies on, for either topic: a step puts new events at the end of a
  subscriber's buffer, in the order of publication, and takes them from the front. The buffer
  of a subscriber that does not exist yet is empty.
\<close>

definition buffered :: "'e chan list \<Rightarrow> nat \<Rightarrow> 'e list" where
  "buffered chs i = (if i < length chs then ch_buf (chs ! i) else [])"

locale topic =
  fixes step :: "'b \<Rightarrow> 'op \<Rightarrow> 'b \<Rightarrow> bool"
    and inv :: "'b \<Rightarrow> bool"
    and subs :: "'b \<Rightarrow> 'e chan list"
    and published :: "'op \<Rightarrow> 'e list"
    and taken :: "nat \<Rightarrow> 'op \<Rightarrow> 'e list"
  assumes inv_step: "step b op b' \<Longrightarrow> inv b \<Longrightarrow> inv b'"
    and flow: "step b op b' \<Longrightarrow> inv b \<Longrightarrow>
      \<exists>d. subseq d (published op) \<and> taken i op @ buffered (subs b') i = buffered (subs b) i @ d"
begin

lemma delivery:
  "run step b ops b' \<Longrightarrow> inv b \<Longrightarrow>
   \<exists>d. subseq d (concat (map published ops)) \<and>
     concat (map (taken i) ops) @ buffered (subs b') i = buffered (subs b) i @ d"
proof (induction rule: run.induct)
  case (run_cons b op b1 ops b')
  obtain d where d: "subseq d (published op)" "taken i op @ buffered (subs b1) i = buffered (subs b) i @ d"
    using flow [OF run_cons.hyps(1) run_cons.prems] by blast
  obtain d' where d': "subseq d' (concat (map published ops))"
    "concat (map (taken i) ops) @ buffered (subs b') i = buffered (subs b1) i @ d'"
    using run_cons.IH inv_step [OF run_cons.hyps(1) run_cons.prems] by blast
  have "concat (map (taken i) (op # ops)) @ buffered (subs b') i = taken i op @ buffered (subs b1) i @ d'"
    using d'(2) by simp
  also have "\<dots> = (taken i op @ buffered (subs b1) i) @ d'"
    by simp
  also have "\<dots> = buffered (subs b) i @ d @ d'"
    by (simp only: d(2)) simp
  finally show ?case
    using d(1) d'(1) by (intro exI [of _ "d @ d'"]) (auto intro: list_emb_append_mono)
qed (auto intro: exI [of _ "[]"])

end

text \<open>A topic that drops an event only when the subscriber's buffer is full.\<close>

locale reliable_topic = topic +
  fixes live :: "'op \<Rightarrow> bool" and room :: nat
  assumes exists_step: "step b op b' \<Longrightarrow> inv b \<Longrightarrow> i < length (subs b) \<Longrightarrow> i < length (subs b')"
    and lossless: "step b op b' \<Longrightarrow> inv b \<Longrightarrow> live op \<Longrightarrow> i < length (subs b) \<Longrightarrow>
      length (buffered (subs b) i) + length (published op) \<le> room \<Longrightarrow>
      taken i op @ buffered (subs b') i = buffered (subs b) i @ published op"
begin

lemma lossless_delivery:
  "run step b ops b' \<Longrightarrow> inv b \<Longrightarrow> \<forall>op \<in> set ops. live op \<Longrightarrow> i < length (subs b) \<Longrightarrow>
   length (buffered (subs b) i) + length (concat (map published ops)) \<le> room \<Longrightarrow>
   concat (map (taken i) ops) @ buffered (subs b') i = buffered (subs b) i @ concat (map published ops)"
proof (induction rule: run.induct)
  case (run_cons b op b1 ops b')
  have one: "taken i op @ buffered (subs b1) i = buffered (subs b) i @ published op"
    using lossless [OF run_cons.hyps(1)] run_cons.prems by simp
  have "length (buffered (subs b1) i) \<le> length (buffered (subs b) i) + length (published op)"
    using arg_cong [OF one, of length] by simp
  then have "concat (map (taken i) ops) @ buffered (subs b') i = buffered (subs b1) i @ concat (map published ops)"
    using run_cons.prems inv_step [OF run_cons.hyps(1)] exists_step [OF run_cons.hyps(1)] run_cons.prems(1)
    by (intro run_cons.IH) auto
  then have "concat (map (taken i) (op # ops)) @ buffered (subs b') i =
      (taken i op @ buffered (subs b1) i) @ concat (map published ops)"
    by simp
  with one show ?case by simp
qed simp

end

section \<open>The broker keeps the contract, on both topics\<close>

fun raw_published :: "broker_op \<Rightarrow> tracking_event list" where
  "raw_published (OpPublishRaw env e r) = [e]"
| "raw_published _ = []"

fun raw_taken :: "nat \<Rightarrow> broker_op \<Rightarrow> tracking_event list" where
  "raw_taken i (OpRecvRaw j (Received e)) = (if i = j then [e] else [])"
| "raw_taken i _ = []"

fun screened_published :: "broker_op \<Rightarrow> screened_event list" where
  "screened_published (OpPublishScreened env e r) = [e]"
| "screened_published _ = []"

fun screened_taken :: "nat \<Rightarrow> broker_op \<Rightarrow> screened_event list" where
  "screened_taken i (OpRecvScreened j (Received e)) = (if i = j then [e] else [])"
| "screened_taken i _ = []"

text \<open>A publication that ran with a live context on an open broker.\<close>

fun op_live :: "broker_op \<Rightarrow> bool" where
  "op_live (OpPublishRaw env e r) \<longleftrightarrow> (\<forall>i. se_done (env i) = None) \<and> r = None"
| "op_live (OpPublishScreened env se r) \<longleftrightarrow> (\<forall>i. se_done (env i) = None) \<and> r = None"
| "op_live _ \<longleftrightarrow> True"

lemma buffered_maybe_sent:
  assumes "list_all2 (maybe_sent e) chs chs'"
  shows "\<exists>d. subseq d [e] \<and> buffered chs' i = buffered chs i @ d"
proof (cases "i < length chs")
  case True
  with assms have "maybe_sent e (chs ! i) (chs' ! i)" "i < length chs'"
    by (auto simp: list_all2_conv_all_nth)
  with True have "buffered chs' i = buffered chs i \<or> buffered chs' i = buffered chs i @ [e]"
    by (auto simp: buffered_def maybe_sent_def)
  then show ?thesis
  proof
    assume "buffered chs' i = buffered chs i"
    then show ?thesis by (intro exI [of _ "[]"]) simp
  next
    assume "buffered chs' i = buffered chs i @ [e]"
    then show ?thesis by (intro exI [of _ "[e]"]) simp
  qed
next
  case False
  with assms show ?thesis by (auto simp: buffered_def list_all2_conv_all_nth)
qed

lemma buffered_subscribe [simp]: "buffered (chs @ [make_chan n]) i = buffered chs i"
  by (auto simp: buffered_def make_chan_def nth_append less_Suc_eq)

lemma buffered_recv:
  assumes "i < length chs" "chan_recv (chs ! i) = (v, ch)"
  shows "(case v of Received e \<Rightarrow> if j = i then [e] else [] | _ \<Rightarrow> []) @ buffered (chs[i := ch]) j = buffered chs j"
  using assms by (cases "i = j") (auto simp: buffered_def split: list.splits if_splits)

lemma buffered_map: "map ch_buf chs' = map ch_buf chs \<Longrightarrow> buffered chs' i = buffered chs i"
  using map_eq_imp_length_eq [of ch_buf chs' ch_buf chs] nth_map [of i chs' ch_buf] nth_map [of i chs ch_buf]
  by (simp add: buffered_def)

lemma buffered_offered:
  assumes "i < length chs" "length (buffered chs i) + 1 \<le> nat n" "chans_ok c n chs"
  shows "buffered (map (offered e) chs) i = buffered chs i @ [e]"
  using assms chans_ok_nth [OF assms(3,1)] by (auto simp: buffered_def offered_def chan_ok_def)

lemma PublishRaw_frame:
  assumes "PublishRaw env e b = Ret (r, b')"
  shows "screenedSubs b' = screenedSubs b \<and> br_closed b' = br_closed b"
  using assms by (auto simp: PublishRaw_def split: if_splits outcome.splits)

lemma PublishScreened_frame:
  assumes "PublishScreened env e b = Ret (r, b')"
  shows "rawSubs b' = rawSubs b \<and> br_closed b' = br_closed b"
  using assms by (auto simp: PublishScreened_def split: if_splits outcome.splits)

lemma PublishRaw_live:
  assumes "PublishRaw env e b = Ret (None, b')" "\<forall>i. se_done (env i) = None" "broker_wf b"
  shows "b' = b\<lparr>rawSubs := map (offered e) (rawSubs b)\<rparr>"
  using assms send_all_live [OF assms(2), of "bufferSize b" "rawSubs b" 0 e]
  by (auto simp: PublishRaw_def broker_wf_def split: if_splits)

lemma PublishScreened_live:
  assumes "PublishScreened env e b = Ret (None, b')" "\<forall>i. se_done (env i) = None" "broker_wf b"
  shows "b' = b\<lparr>screenedSubs := map (offered e) (screenedSubs b)\<rparr>"
  using assms send_all_live [OF assms(2), of "bufferSize b" "screenedSubs b" 0 e]
  by (auto simp: PublishScreened_def broker_wf_def split: if_splits)

lemma Close_buffers:
  assumes "Close b = Ret (r, b')" "broker_wf b"
  shows "buffered (rawSubs b') i = buffered (rawSubs b) i" "buffered (screenedSubs b') i = buffered (screenedSubs b) i"
    "length (rawSubs b') = length (rawSubs b)" "length (screenedSubs b') = length (screenedSubs b)"
  using Close_spec [OF assms(2)] assms(1) by (auto intro: buffered_map dest: map_eq_imp_length_eq)

lemma raw_flow:
  assumes "broker_step b op b'" "broker_wf b"
  shows "\<exists>d. subseq d (raw_published op) \<and> raw_taken i op @ buffered (rawSubs b') i = buffered (rawSubs b) i @ d"
  using assms
proof (cases rule: broker_step.cases)
  case (st_publish_raw env e r)
  with PublishRaw_spec [OF assms(2), of env e] buffered_maybe_sent show ?thesis by auto
next
  case (st_recv_raw j v)
  then obtain ch where "chan_recv (rawSubs b ! j) = (v, ch)" "b' = b\<lparr>rawSubs := (rawSubs b)[j := ch]\<rparr>"
    by (auto simp: RecvRaw_def split: prod.splits)
  with buffered_recv [OF st_recv_raw(2), of v ch i] st_recv_raw(1) show ?thesis
    by (cases v) (auto intro: exI [of _ "[]"])
next
  case (st_publish_screened env e r)
  then show ?thesis by (simp add: PublishScreened_frame)
next
  case (st_close r)
  then show ?thesis using Close_buffers [OF _ assms(2)] by simp
qed (auto simp: SubscribeRaw_def SubscribeScreened_def RecvScreened_def split: if_splits prod.splits)

lemma screened_flow:
  assumes "broker_step b op b'" "broker_wf b"
  shows "\<exists>d. subseq d (screened_published op) \<and>
    screened_taken i op @ buffered (screenedSubs b') i = buffered (screenedSubs b) i @ d"
  using assms
proof (cases rule: broker_step.cases)
  case (st_publish_screened env e r)
  with PublishScreened_spec [OF assms(2), of env e] buffered_maybe_sent show ?thesis by auto
next
  case (st_recv_screened j v)
  then obtain ch where "chan_recv (screenedSubs b ! j) = (v, ch)" "b' = b\<lparr>screenedSubs := (screenedSubs b)[j := ch]\<rparr>"
    by (auto simp: RecvScreened_def split: prod.splits)
  with buffered_recv [OF st_recv_screened(2), of v ch i] st_recv_screened(1) show ?thesis
    by (cases v) (auto intro: exI [of _ "[]"])
next
  case (st_publish_raw env e r)
  then show ?thesis by (simp add: PublishRaw_frame)
next
  case (st_close r)
  then show ?thesis using Close_buffers [OF _ assms(2)] by simp
qed (auto simp: SubscribeRaw_def SubscribeScreened_def RecvRaw_def split: if_splits prod.splits)

lemma Publish_length:
  "PublishRaw env e b = Ret (r, b') \<Longrightarrow> broker_wf b \<Longrightarrow> length (rawSubs b') = length (rawSubs b)"
  "PublishScreened env se b = Ret (r, b') \<Longrightarrow> broker_wf b \<Longrightarrow> length (screenedSubs b') = length (screenedSubs b)"
  using PublishRaw_spec [of b env e] PublishScreened_spec [of b env se] by (auto dest: list_all2_lengthD)

lemma subs_grow:
  assumes "broker_step b op b'" "broker_wf b"
  shows "length (rawSubs b) \<le> length (rawSubs b')" "length (screenedSubs b) \<le> length (screenedSubs b')"
  using assms
  by (induction rule: broker_step.induct)
    (auto simp: SubscribeRaw_def SubscribeScreened_def RecvRaw_def RecvScreened_def Close_buffers
      PublishRaw_frame PublishScreened_frame Publish_length split: if_splits prod.splits)

lemma raw_lossless:
  assumes "broker_step b op b'" "broker_wf b" "op_live op" "i < length (rawSubs b)"
    "length (buffered (rawSubs b) i) + length (raw_published op) \<le> nat (bufferSize b)"
  shows "raw_taken i op @ buffered (rawSubs b') i = buffered (rawSubs b) i @ raw_published op"
proof (cases "\<exists>env e. op = OpPublishRaw env e None")
  case True
  then obtain env e where op: "op = OpPublishRaw env e None" by blast
  with assms PublishRaw_live [of env e b b'] have "b' = b\<lparr>rawSubs := map (offered e) (rawSubs b)\<rparr>"
    by (simp add: broker_step_simps)
  with op assms show ?thesis
    using buffered_offered [of i "rawSubs b" "bufferSize b" "br_closed b" e] by (simp add: broker_wf_def)
next
  case False
  with assms(3) have "raw_published op = []" by (cases op) auto
  with raw_flow [OF assms(1,2), of i] show ?thesis by auto
qed

lemma screened_lossless:
  assumes "broker_step b op b'" "broker_wf b" "op_live op" "i < length (screenedSubs b)"
    "length (buffered (screenedSubs b) i) + length (screened_published op) \<le> nat (bufferSize b)"
  shows "screened_taken i op @ buffered (screenedSubs b') i = buffered (screenedSubs b) i @ screened_published op"
proof (cases "\<exists>env e. op = OpPublishScreened env e None")
  case True
  then obtain env e where op: "op = OpPublishScreened env e None" by blast
  with assms PublishScreened_live [of env e b b'] have "b' = b\<lparr>screenedSubs := map (offered e) (screenedSubs b)\<rparr>"
    by (simp add: broker_step_simps)
  with op assms show ?thesis
    using buffered_offered [of i "screenedSubs b" "bufferSize b" "br_closed b" e] by (simp add: broker_wf_def)
next
  case False
  with assms(3) have "screened_published op = []" by (cases op) auto
  with screened_flow [OF assms(1,2), of i] show ?thesis by auto
qed

definition broker_inv :: "int \<Rightarrow> in_memory_broker \<Rightarrow> bool" where
  "broker_inv n b \<longleftrightarrow> broker_wf b \<and> bufferSize b = n"

lemma broker_inv_New: "broker_inv (bufferSize (NewInMemoryBroker n)) (NewInMemoryBroker n)"
  using broker_wf_New by (simp add: broker_inv_def)

lemma broker_inv_step: "broker_step b op b' \<Longrightarrow> broker_inv n b \<Longrightarrow> broker_inv n b'"
  using broker_wf_step by (simp add: broker_inv_def)

interpretation raw: reliable_topic broker_step "broker_inv n" rawSubs raw_published raw_taken op_live "nat n" for n
  by unfold_locales
    (auto simp: broker_inv_def raw_flow raw_lossless dest: broker_wf_step subs_grow(1))

interpretation screened: reliable_topic broker_step "broker_inv n" screenedSubs screened_published screened_taken op_live "nat n" for n
  by unfold_locales
    (auto simp: broker_inv_def screened_flow screened_lossless dest: broker_wf_step subs_grow(2))

lemma reachable_inv:
  "run broker_step (NewInMemoryBroker n) ops b \<Longrightarrow> broker_inv (bufferSize (NewInMemoryBroker n)) b"
  using run_invariant [of broker_step _ ops b "broker_inv (bufferSize (NewInMemoryBroker n))"] broker_inv_New broker_inv_step
  by blast

lemma reachable_wf: "run broker_step (NewInMemoryBroker n) ops b \<Longrightarrow> broker_wf b"
  using reachable_inv by (auto simp: broker_inv_def)

lemma New_no_subs [simp]: "rawSubs (NewInMemoryBroker n) = []" "screenedSubs (NewInMemoryBroker n) = []"
  by (simp_all add: NewInMemoryBroker_def)

lemma closed_step: "broker_step b op b' \<Longrightarrow> broker_wf b \<Longrightarrow> br_closed b \<Longrightarrow> br_closed b'"
  by (induction rule: broker_step.induct)
    (auto simp: PublishRaw_def PublishScreened_def SubscribeRaw_def SubscribeScreened_def RecvRaw_def
      RecvScreened_def Close_def split: prod.splits)

lemma closed_run: "run broker_step b ops b' \<Longrightarrow> broker_wf b \<Longrightarrow> br_closed b \<Longrightarrow> br_closed b'"
  using run_invariant [of broker_step b ops b' "\<lambda>b. broker_wf b \<and> br_closed b"] closed_step broker_wf_step by blast

section \<open>Properties\<close>

text \<open>
  C7: Both topics deliver in order: in every run of a broker, what a subscriber has received
  followed by what is waiting in its channel is a subsequence of the events published on the
  topic, in the order of publication; nothing is duplicated, reordered or made up, and no more
  events wait than the configured buffer holds.
\<close>
theorem broker_delivers_in_order:
  assumes "run broker_step (NewInMemoryBroker n) ops b"
  shows "subseq (concat (map (raw_taken i) ops) @ buffered (rawSubs b) i) (concat (map raw_published ops)) \<and>
    subseq (concat (map (screened_taken i) ops) @ buffered (screenedSubs b) i) (concat (map screened_published ops)) \<and>
    length (buffered (rawSubs b) i) \<le> (if n \<le> 0 then 10000 else nat n) \<and>
    length (buffered (screenedSubs b) i) \<le> (if n \<le> 0 then 10000 else nat n)"
proof -
  have "chans_ok (br_closed b) (bufferSize b) (rawSubs b)" "chans_ok (br_closed b) (bufferSize b) (screenedSubs b)"
    and n: "nat (bufferSize b) = (if n \<le> 0 then 10000 else nat n)"
    using reachable_inv [OF assms] by (auto simp: broker_inv_def broker_wf_def NewInMemoryBroker_def)
  then have "length (buffered (rawSubs b) i) \<le> nat (bufferSize b)" "length (buffered (screenedSubs b) i) \<le> nat (bufferSize b)"
    by (auto simp: buffered_def chan_ok_def dest: chans_ok_nth)
  with raw.delivery [OF assms broker_inv_New, of i] screened.delivery [OF assms broker_inv_New, of i] n
  show ?thesis by (auto simp: buffered_def)
qed

definition live_env :: "nat \<Rightarrow> select_env" where
  "live_env i = \<lparr>se_done = None, se_pick_send = True\<rparr>"

lemmas broker_eval = NewInMemoryBroker_def SubscribeRaw_def SubscribeScreened_def PublishRaw_def PublishScreened_def
  RecvRaw_def RecvScreened_def Close_def make_chan_def send_ready_def live_env_def broker_step_simps

theorem broker_delivers_in_order_witness:
  "\<exists>b. run broker_step (NewInMemoryBroker 1)
     [OpSubscribeRaw (Inr 0), OpPublishRaw live_env zero_tracking_event None, OpRecvRaw 0 (Received zero_tracking_event)] b \<and>
     subseq ([zero_tracking_event] @ buffered (rawSubs b) 0) [zero_tracking_event]"
proof -
  let ?ops = "[OpSubscribeRaw (Inr 0), OpPublishRaw live_env zero_tracking_event None,
    OpRecvRaw 0 (Received zero_tracking_event)]"
  obtain b where run: "run broker_step (NewInMemoryBroker 1) ?ops b"
    by (auto simp: broker_eval)
  with broker_delivers_in_order [OF run, of 0] show ?thesis by auto
qed

text \<open>
  A subscriber that keeps up loses nothing: if no more events are published after a
  subscription than the buffer holds, each with a live context and answered without an error,
  then what the subscriber has received followed by what is waiting is exactly what was
  published since, in order.
\<close>
theorem broker_lossless_within_buffer:
  assumes "run broker_step (NewInMemoryBroker n) ops0 b0" "SubscribeRaw b0 = (Inr i, b1)"
    and "run broker_step b1 ops b" "\<forall>op \<in> set ops. op_live op"
    and "length (concat (map raw_published ops)) \<le> (if n \<le> 0 then 10000 else nat n)"
  shows "concat (map (raw_taken i) ops) @ buffered (rawSubs b) i = concat (map raw_published ops)"
proof -
  have inv: "broker_inv (bufferSize (NewInMemoryBroker n)) b1"
    using broker_inv_step [OF st_subscribe_raw [OF assms(2)] reachable_inv [OF assms(1)]] .
  have "i < length (rawSubs b1)" "buffered (rawSubs b1) i = []"
    using assms(2) by (auto simp: SubscribeRaw_def buffered_def make_chan_def split: if_splits)
  with raw.lossless_delivery [OF assms(3) inv assms(4)] assms(5) show ?thesis
    by (simp add: NewInMemoryBroker_def split: if_splits)
qed

theorem broker_lossless_within_buffer_witness:
  "\<exists>b. run broker_step (snd (SubscribeRaw (NewInMemoryBroker 2)))
     [OpPublishRaw live_env zero_tracking_event None, OpRecvRaw 0 (Received zero_tracking_event),
      OpPublishRaw live_env zero_tracking_event None] b \<and>
     [zero_tracking_event] @ buffered (rawSubs b) 0 = [zero_tracking_event, zero_tracking_event]"
proof -
  let ?b1 = "snd (SubscribeRaw (NewInMemoryBroker 2))"
  let ?ops = "[OpPublishRaw live_env zero_tracking_event None, OpRecvRaw 0 (Received zero_tracking_event),
      OpPublishRaw live_env zero_tracking_event None]"
  have sub: "SubscribeRaw (NewInMemoryBroker 2) = (Inr 0, ?b1)" by (simp add: broker_eval)
  obtain b where run: "run broker_step ?b1 ?ops b" by (auto simp: broker_eval)
  from broker_lossless_within_buffer [OF run_nil sub run] run show ?thesis
    by (auto simp: live_env_def)
qed

text \<open>
  The broker never panics: in every state it can reach, through any interleaving of
  subscriptions, publications, receptions and \<open>Close\<close>, publishing does not send on a
  closed channel and closing does not close one twice.
\<close>
theorem broker_never_panics:
  assumes "run broker_step (NewInMemoryBroker n) ops b"
  shows "no_panic (PublishRaw env e b) \<and> no_panic (PublishScreened env se b) \<and> no_panic (Close b)"
  using PublishRaw_spec [OF reachable_wf [OF assms], of env e] PublishScreened_spec [OF reachable_wf [OF assms], of env se]
    Close_spec [OF reachable_wf [OF assms]] by auto

theorem broker_never_panics_witness:
  "\<exists>b. run broker_step (NewInMemoryBroker 1) [OpSubscribeRaw (Inr 0), OpClose None] b \<and>
     no_panic (PublishRaw live_env zero_tracking_event b) \<and> no_panic (Close b)"
proof -
  obtain b where run: "run broker_step (NewInMemoryBroker 1) [OpSubscribeRaw (Inr 0), OpClose None] b"
    by (auto simp: broker_eval)
  with broker_never_panics [OF run] show ?thesis by blast
qed

text \<open>
  Closing is final: after \<open>Close\<close>, whatever follows, every publication and every
  subscription is refused with "broker is closed" and changes nothing, and a subscriber that
  has drained its channel sees it closed.
\<close>
theorem closed_broker_refuses:
  assumes "run broker_step (NewInMemoryBroker n) (ops @ OpClose r # ops') b"
  shows "PublishRaw env e b = Ret (Some broker_is_closed, b) \<and>
    PublishScreened env se b = Ret (Some broker_is_closed, b) \<and>
    SubscribeRaw b = (Inl broker_is_closed, b) \<and> SubscribeScreened b = (Inl broker_is_closed, b) \<and>
    (\<forall>i < length (rawSubs b). buffered (rawSubs b) i = [] \<longrightarrow> fst (RecvRaw i b) = ChanClosed) \<and>
    (\<forall>i < length (screenedSubs b). buffered (screenedSubs b) i = [] \<longrightarrow> fst (RecvScreened i b) = ChanClosed)"
proof -
  obtain b0 b1 where 0: "run broker_step (NewInMemoryBroker n) ops b0" and 1: "Close b0 = Ret (r, b1)"
    and 2: "run broker_step b1 ops' b"
    using assms by (auto simp: run_append broker_step_simps)
  have wf: "broker_wf b1" "br_closed b1"
    using Close_spec [OF reachable_wf [OF 0]] 1 by auto
  have cl: "br_closed b" by (rule closed_run [OF 2 wf])
  moreover have "broker_wf b" by (rule reachable_wf [OF assms])
  ultimately have "\<forall>i < length (rawSubs b). ch_closed (rawSubs b ! i)"
    "\<forall>i < length (screenedSubs b). ch_closed (screenedSubs b ! i)"
    by (auto simp: broker_wf_def chan_ok_def dest: chans_ok_nth)
  with cl show ?thesis
    by (auto simp: PublishRaw_def PublishScreened_def SubscribeRaw_def SubscribeScreened_def RecvRaw_def
        RecvScreened_def buffered_def)
qed

theorem closed_broker_refuses_witness:
  "\<exists>b. run broker_step (NewInMemoryBroker 1) ([OpSubscribeRaw (Inr 0)] @ OpClose None # []) b \<and>
     PublishRaw live_env zero_tracking_event b = Ret (Some broker_is_closed, b) \<and> fst (RecvRaw 0 b) = ChanClosed"
proof -
  obtain b where run: "run broker_step (NewInMemoryBroker 1) ([OpSubscribeRaw (Inr 0)] @ OpClose None # []) b"
    by (auto simp: broker_eval)
  then have "rawSubs b \<noteq> []" "buffered (rawSubs b) 0 = []" by (auto simp: broker_eval buffered_def)
  with closed_broker_refuses [OF run] run show ?thesis by blast
qed

text \<open>
  Publishing fans out without blocking: on an open broker with a live context a publication
  succeeds, every subscriber whose buffer has room gets the event at the end of its channel,
  and a subscriber whose buffer is full is passed over, whatever the others' state.
\<close>
theorem publish_fans_out:
  assumes "run broker_step (NewInMemoryBroker n) ops b" "\<not> br_closed b" "\<forall>j. se_done (env j) = None"
  shows "PublishRaw env e b = Ret (None, b\<lparr>rawSubs := map (offered e) (rawSubs b)\<rparr>) \<and>
    PublishScreened env se b = Ret (None, b\<lparr>screenedSubs := map (offered se) (screenedSubs b)\<rparr>)"
  using reachable_wf [OF assms(1)] assms(2) send_all_live [OF assms(3), of "bufferSize b" "rawSubs b" 0 e]
    send_all_live [OF assms(3), of "bufferSize b" "screenedSubs b" 0 se]
  by (simp add: PublishRaw_def PublishScreened_def broker_wf_def)

theorem publish_fans_out_witness:
  "\<exists>b. run broker_step (NewInMemoryBroker 1)
     [OpSubscribeRaw (Inr 0), OpPublishRaw live_env zero_tracking_event None, OpSubscribeRaw (Inr 1)] b \<and>
     PublishRaw live_env zero_tracking_event b = Ret (None, b\<lparr>rawSubs := map (offered zero_tracking_event) (rawSubs b)\<rparr>)"
proof -
  obtain b where run: "run broker_step (NewInMemoryBroker 1)
     [OpSubscribeRaw (Inr 0), OpPublishRaw live_env zero_tracking_event None, OpSubscribeRaw (Inr 1)] b"
    by (auto simp: broker_eval)
  then have "\<not> br_closed b" by (auto simp: broker_eval)
  with publish_fans_out [OF run this, of live_env] run show ?thesis by (auto simp: live_env_def)
qed

end
