(* ===== verification/Worker.thy ===== *)
theory Worker
  imports Broker
begin

text \<open>
  The loop both background workers run: wait for the context or for the next event of a
  channel, stop when either ends, handle the event otherwise. One turn is one passage of the
  \<^verbatim>\<open>for\<close> loop; on a turn with nothing ready the worker stays blocked in its \<^verbatim>\<open>select\<close>.
\<close>

text \<open>The context's \<^verbatim>\<open>Done\<close>, which case the runtime picks when both are ready, and the clock.\<close>

record turn =
  tn_done :: "go_error option"
  tn_pick_done :: bool
  tn_clock :: "nat \<Rightarrow> time"

datatype 's worker_result = Running 's | Returned "go_error option" 's | Crashed string

fun consume ::
  "('s \<Rightarrow> 'e received \<times> 's) \<Rightarrow> (turn \<Rightarrow> 'e \<Rightarrow> 's \<Rightarrow> 's outcome) \<Rightarrow> turn list \<Rightarrow> 's \<Rightarrow> 's worker_result" where
  "consume recv handle [] s = Running s"
| "consume recv handle (t # ts) s =
     (case recv s of (r, s1) \<Rightarrow>
        if tn_done t \<noteq> None \<and> (r = NotReady \<or> tn_pick_done t) then Returned (tn_done t) s
        else (case r of
                NotReady \<Rightarrow> consume recv handle ts s
              | ChanClosed \<Rightarrow> Returned None s1
              | Received e \<Rightarrow>
                  (case handle t e s1 of
                     Panic m \<Rightarrow> Crashed m
                   | Ret s2 \<Rightarrow> consume recv handle ts s2)))"

text \<open>Under a cancelled context: \<open>n\<close> turns whose \<^verbatim>\<open>select\<close> takes an event, then one that takes the context's end.\<close>

definition cancelled_after :: "nat \<Rightarrow> turn \<Rightarrow> turn list" where
  "cancelled_after n t = replicate n (t\<lparr>tn_pick_done := False\<rparr>) @ [t\<lparr>tn_pick_done := True\<rparr>]"

text \<open>
  The contract of a worker's world: a queue that is received from its front and that handling
  an event leaves alone, and a record \<open>handled\<close> of what has been handled.
\<close>

locale consumer =
  fixes recv :: "'s \<Rightarrow> 'e received \<times> 's"
    and handle :: "turn \<Rightarrow> 'e \<Rightarrow> 's \<Rightarrow> 's outcome"
    and queue :: "'s \<Rightarrow> 'e list"
    and closed :: "'s \<Rightarrow> bool"
    and handled :: "'e list \<Rightarrow> 's \<Rightarrow> bool"
  assumes recv_front: "handled es s \<Longrightarrow> queue s = e # q \<Longrightarrow> \<exists>s1. recv s = (Received e, s1)"
    and recv_empty: "handled es s \<Longrightarrow> queue s = [] \<Longrightarrow> recv s = (if closed s then ChanClosed else NotReady, s)"
    and handle_front: "handled es s \<Longrightarrow> queue s = e # q \<Longrightarrow> recv s = (Received e, s1) \<Longrightarrow>
      \<exists>s2. handle t e s1 = Ret s2 \<and> handled (es @ [e]) s2 \<and> queue s2 = q \<and> closed s2 = closed s"
begin

text \<open>After the channel is closed a worker with a live context handles all that waits, in order, and returns nil.\<close>

lemma drains:
  assumes "handled es s" "closed s" "length (queue s) < length ts" "\<forall>t \<in> set ts. tn_done t = None"
  shows "\<exists>s'. consume recv handle ts s = Returned None s' \<and> handled (es @ queue s) s' \<and> queue s' = []"
  using assms
proof (induction ts arbitrary: es s)
  case (Cons t ts)
  show ?case
  proof (cases "queue s")
    case Nil
    with Cons.prems recv_empty [OF Cons.prems(1) Nil] show ?thesis by simp
  next
    case (Cons e q)
    obtain s1 where r: "recv s = (Received e, s1)" using recv_front [OF Cons.prems(1) Cons] by blast
    obtain s2 where h: "handle t e s1 = Ret s2" "handled (es @ [e]) s2" "queue s2 = q" "closed s2 = closed s"
      using handle_front [OF Cons.prems(1) Cons r] by blast
    obtain s' where "consume recv handle ts s2 = Returned None s'" "handled ((es @ [e]) @ queue s2) s'" "queue s' = []"
      using Cons.IH [OF h(2)] Cons.prems h(3,4) Cons by auto
    with r h Cons Cons.prems(4) show ?thesis by simp
  qed
qed simp

text \<open>While the channel is open the worker handles what waits and then blocks; it never crashes.\<close>

lemma keeps_up:
  assumes "handled es s" "\<not> closed s" "length (queue s) \<le> length ts" "\<forall>t \<in> set ts. tn_done t = None"
  shows "\<exists>s'. consume recv handle ts s = Running s' \<and> handled (es @ queue s) s' \<and> queue s' = []"
  using assms
proof (induction ts arbitrary: es s)
  case (Cons t ts)
  show ?case
  proof (cases "queue s")
    case Nil
    with Cons.prems recv_empty [OF Cons.prems(1) Nil] Cons.IH [OF Cons.prems(1)] show ?thesis by simp
  next
    case (Cons e q)
    obtain s1 where r: "recv s = (Received e, s1)" using recv_front [OF Cons.prems(1) Cons] by blast
    obtain s2 where h: "handle t e s1 = Ret s2" "handled (es @ [e]) s2" "queue s2 = q" "closed s2 = closed s"
      using handle_front [OF Cons.prems(1) Cons r] by blast
    obtain s' where "consume recv handle ts s2 = Running s'" "handled ((es @ [e]) @ queue s2) s'" "queue s' = []"
      using Cons.IH [OF h(2)] Cons.prems h(3,4) Cons by auto
    with r h Cons Cons.prems(4) show ?thesis by simp
  qed
qed simp

text \<open>
  Under a cancelled context the worker returns, whether or not the channel is closed, and has by then handled the
  first \<open>k\<close> of the events that waited: how many, the \<^verbatim>\<open>select\<close> decides.
\<close>

lemma stops:
  assumes "handled es s" "length (queue s) < length ts" "\<forall>t \<in> set ts. tn_done t = Some err"
  shows "\<exists>k r s'. k \<le> length (queue s) \<and> consume recv handle ts s = Returned r s' \<and> (r = Some err \<or> r = None \<and> closed s) \<and>
    handled (es @ take k (queue s)) s' \<and> queue s' = drop k (queue s)"
  using assms
proof (induction ts arbitrary: es s)
  case (Cons t ts)
  show ?case
  proof (cases "queue s")
    case Nil
    with Cons.prems recv_empty [OF Cons.prems(1) Nil] show ?thesis by (auto intro!: exI [of _ 0])
  next
    case (Cons e q)
    obtain s1 where r: "recv s = (Received e, s1)" using recv_front [OF Cons.prems(1) Cons] by blast
    obtain s2 where h: "handle t e s1 = Ret s2" "handled (es @ [e]) s2" "queue s2 = q" "closed s2 = closed s"
      using handle_front [OF Cons.prems(1) Cons r] by blast
    show ?thesis
    proof (cases "tn_pick_done t")
      case True
      with r Cons Cons.prems(1,3) show ?thesis by (intro exI [of _ 0] exI [of _ "Some err"] exI [of _ s]) simp
    next
      case False
      obtain k x s' where "k \<le> length (queue s2)" "consume recv handle ts s2 = Returned x s'"
          "x = Some err \<or> x = None \<and> closed s2" "handled ((es @ [e]) @ take k (queue s2)) s'" "queue s' = drop k (queue s2)"
        using Cons.IH [OF h(2)] Cons.prems(2,3) h(3) Cons by auto
      with r h False Cons show ?thesis by (intro exI [of _ "Suc k"] exI [of _ x] exI [of _ s']) simp
    qed
  qed
qed simp

text \<open>It can stop after any number of them.\<close>

lemma stops_after:
  assumes "handled es s" "n \<le> length (queue s)" "tn_done t = Some err"
  shows "\<exists>s'. consume recv handle (cancelled_after n t @ ts) s = Returned (Some err) s' \<and>
    handled (es @ take n (queue s)) s' \<and> queue s' = drop n (queue s)"
  using assms
proof (induction n arbitrary: es s)
  case 0
  then show ?case by (auto simp: cancelled_after_def split: prod.splits)
next
  case (Suc n)
  then obtain e q where q: "queue s = e # q" by (cases "queue s") auto
  obtain s1 where r: "recv s = (Received e, s1)" using recv_front [OF Suc.prems(1) q] by blast
  obtain s2 where h: "handle (t\<lparr>tn_pick_done := False\<rparr>) e s1 = Ret s2" "handled (es @ [e]) s2" "queue s2 = q"
    using handle_front [OF Suc.prems(1) q r] by blast
  from Suc.IH [OF h(2) _ Suc.prems(3)] h(3) q Suc.prems(2) obtain s' where
    "consume recv handle (cancelled_after n t @ ts) s2 = Returned (Some err) s'"
    "handled ((es @ [e]) @ take n q) s'" "queue s' = drop n q" by auto
  with r h q show ?case by (intro exI [of _ s']) (simp add: cancelled_after_def)
qed

end

end
