(* ===== verification/FraudService.thy ===== *)
theory FraudService
  imports Rules FraudRepo Tracker Worker
begin

text \<open>
  \<^verbatim>\<open>pkg/domain/fraud/service.go\<close>: the screening of an event and the worker that screens
  what arrives. The service holds its broker, repository and tracker by interface, so their
  operations on the state \<open>'w\<close> of the program are arguments; its rule state is its own.
\<close>

section \<open>Screening\<close>

definition DefaultRules :: "fraud_rule list" where
  "DefaultRules = [BotRule, RateLimitRule, GeoVelocityRule]"

text \<open>
  The loop over the rules, with the running score and the reasons. The \<open>i\<close>th rule reads the
  clock at \<open>clock i\<close>. A rule that fails is skipped.
\<close>

fun evaluate_rules ::
  "fraud_rule list \<Rightarrow> (nat \<Rightarrow> time) \<Rightarrow> nat \<Rightarrow> tracking_event \<Rightarrow> rat \<times> string list \<times> rule_state \<Rightarrow> rat \<times> string list \<times> rule_state" where
  "evaluate_rules [] clock i event acc = acc"
| "evaluate_rules (rule # rules) clock i event (fraudScore, reasons, st) =
     (case fr_evaluate rule (clock i) event st of
        (v, st') \<Rightarrow>
          if vd_err v \<noteq> None then evaluate_rules rules clock (Suc i) event (fraudScore, reasons, st')
          else if 0 < vd_score v
          then evaluate_rules rules clock (Suc i) event (fadd fraudScore (vd_score v), reasons @ [vd_reason v], st')
          else evaluate_rules rules clock (Suc i) event (fraudScore, reasons, st'))"

text \<open>The screened event, and the rule state the screening leaves.\<close>

definition screen ::
  "fraud_rule list \<Rightarrow> (nat \<Rightarrow> time) \<Rightarrow> tracking_event \<Rightarrow> rule_state \<Rightarrow> screened_event \<times> rule_state" where
  "screen rules clock event st =
     (case evaluate_rules rules clock 0 event (0, [], st) of
        (fraudScore, reasons, st') \<Rightarrow>
          (\<lparr>Tracking = event, IsFraudulent = (f64 (5 / 10) \<le> fraudScore),
            FraudScore = (if 1 < fraudScore then 1 else fraudScore),
            FraudReason = Join reasons '', '', ScreenedAt = clock (length rules)\<rparr>, st'))"

type_synonym 'w save_event = "screened_event \<Rightarrow> 'w \<Rightarrow> go_error option \<times> 'w"
type_synonym 'w publish_screened = "screened_event \<Rightarrow> 'w \<Rightarrow> (go_error option \<times> 'w) outcome"

definition ScreenEvent ::
  "'w save_event \<Rightarrow> (string \<Rightarrow> int \<Rightarrow> 'w \<Rightarrow> 'w) \<Rightarrow> 'w publish_screened \<Rightarrow> fraud_rule list \<Rightarrow>
   (nat \<Rightarrow> time) \<Rightarrow> tracking_event \<Rightarrow> rule_state \<times> 'w \<Rightarrow> (rule_state \<times> 'w) outcome" where
  "ScreenEvent save increment publish rules clock event s =
     (case s of (st, w) \<Rightarrow>
        case screen rules clock event st of (screened, st') \<Rightarrow>
          let w1 = snd (save screened w);
              w2 = increment (if IsFraudulent screened then ''fraudulent'' else ''legitimate'') 1 w1 in
          (case publish screened w2 of
             Ret (err, w3) \<Rightarrow> Ret (st', w3)
           | Panic m \<Rightarrow> Panic m))"

section \<open>The verdict\<close>

definition bot_hit :: "tracking_event \<Rightarrow> bool" where
  "bot_hit e \<longleftrightarrow> UserAgent e \<noteq> [] \<and> (\<exists>w \<in> set bot_signatures. Contains (ToLower (UserAgent e)) w)"

definition rate_hit :: "time \<Rightarrow> tracking_event \<Rightarrow> rule_state \<Rightarrow> bool" where
  "rate_hit now e st \<longleftrightarrow> 10 \<le> length (in_window now (slice_at (IPHistory st) (IPAddress e)))"

definition geo_hit :: "time \<Rightarrow> tracking_event \<Rightarrow> rule_state \<Rightarrow> bool" where
  "geo_hit now e st \<longleftrightarrow> (\<exists>c g. map_get (Payload e) ''country'' = Some (JStr c) \<and> c \<noteq> [] \<and>
     UserHistory st (UserID e) = Some g \<and> LastCountry g \<noteq> c \<and> Sub now (LastTime g) < 10 * Second)"

text \<open>What each of the three rules finds of an event: its reason and its score.\<close>

definition findings :: "(nat \<Rightarrow> time) \<Rightarrow> tracking_event \<Rightarrow> rule_state \<Rightarrow> (string \<times> rat) list" where
  "findings clock e st =
     (if UserAgent e = [] then [(''empty user-agent'', 4 / 10)]
      else if bot_hit e then [(''known bot/crawler user-agent signature'', 8 / 10)] else []) @
     (if rate_hit (clock 1) e st then [(''high-frequency events from single IP (rate limit exceeded)'', 7 / 10)] else []) @
     (if geo_hit (clock 2) e st then [(''geo-velocity anomaly: user IP location changed too fast'', 9 / 10)] else [])"

lemma bot_verdict:
  "fst (bot_evaluate now e st) =
     (if UserAgent e = [] then finding (4 / 10) ''empty user-agent''
      else if bot_hit e then finding (8 / 10) ''known bot/crawler user-agent signature'' else no_finding)"
  by (auto simp: bot_evaluate_eq bot_hit_def)

lemma rate_verdict:
  "fst (rate_evaluate now e st) =
     (if rate_hit now e st then finding (7 / 10) ''high-frequency events from single IP (rate limit exceeded)'' else no_finding)"
  by (auto simp: rate_evaluate_def rate_hit_def in_window_def Let_def)

lemma geo_verdict:
  "fst (geo_evaluate now e st) =
     (if geo_hit now e st then finding (9 / 10) ''geo-velocity anomaly: user IP location changed too fast'' else no_finding)"
proof (cases "geo_hit now e st")
  case True
  then show ?thesis by (auto simp: geo_hit_def geo_evaluate_def Let_def)
next
  case False
  then show ?thesis
    by (auto simp: geo_hit_def geo_evaluate_def Let_def split: option.splits json.splits)
qed

lemma geo_hit_cong: "UserHistory st' = UserHistory st \<Longrightarrow> geo_hit now e st' = geo_hit now e st"
  by (simp add: geo_hit_def)

text \<open>Adding up the scores of the three rules, in \<^verbatim>\<open>float64\<close>.\<close>

lemma score_sums:
  "fadd 0 (f64 (4 / 10)) = f64 (4 / 10)" "fadd 0 (f64 (8 / 10)) = f64 (8 / 10)"
  "fadd 0 (f64 (7 / 10)) = f64 (7 / 10)" "fadd 0 (f64 (9 / 10)) = f64 (9 / 10)"
  by code_simp+

lemma two_scores_above:
  "1 < fadd (f64 (4 / 10)) (f64 (7 / 10))" "1 < fadd (f64 (4 / 10)) (f64 (9 / 10))"
  "1 < fadd (f64 (8 / 10)) (f64 (7 / 10))" "1 < fadd (f64 (8 / 10)) (f64 (9 / 10))"
  "1 < fadd (f64 (7 / 10)) (f64 (9 / 10))"
  by code_simp+

lemma three_scores_above:
  "1 < fadd (fadd (f64 (4 / 10)) (f64 (7 / 10))) (f64 (9 / 10))"
  "1 < fadd (fadd (f64 (8 / 10)) (f64 (7 / 10))) (f64 (9 / 10))"
  by code_simp+

lemma half: "f64 (1 / 2) = 1 / 2"
  by code_simp

lemmas sums_above = two_scores_above [simplified score_values] three_scores_above [simplified score_values]

lemma above_half: "1 < (s :: rat) \<Longrightarrow> 1 \<le> s * 2"
  by simp

lemmas score_facts = score_sums [simplified score_values] half score_values sums_above
  sums_above [THEN above_half]

text \<open>One rule of the contract, as a step on the score and the reasons.\<close>

definition add_finding :: "verdict \<Rightarrow> rat \<times> string list \<Rightarrow> rat \<times> string list" where
  "add_finding v sr = (if 0 < vd_score v then (fadd (fst sr) (vd_score v), snd sr @ [vd_reason v]) else sr)"

lemma add_finding_simps:
  "add_finding no_finding sr = sr"
  "0 < f64 x \<Longrightarrow> add_finding (finding x r) sr = (fadd (fst sr) (f64 x), snd sr @ [r])"
  by (simp_all add: add_finding_def)

lemma evaluate_step:
  assumes "vd_err (fst (fr_evaluate rule (clock i) e st)) = None"
  shows "evaluate_rules (rule # rules) clock i e (fst sr, snd sr, st) =
    (let sr' = add_finding (fst (fr_evaluate rule (clock i) e st)) sr
     in evaluate_rules rules clock (Suc i) e (fst sr', snd sr', snd (fr_evaluate rule (clock i) e st)))"
  using assms by (cases "fr_evaluate rule (clock i) e st") (simp add: add_finding_def)

definition default_state :: "(nat \<Rightarrow> time) \<Rightarrow> tracking_event \<Rightarrow> rule_state \<Rightarrow> rule_state" where
  "default_state clock e st = snd (geo_evaluate (clock 2) e (snd (rate_evaluate (clock 1) e st)))"

lemma evaluate_default:
  "evaluate_rules DefaultRules clock 0 e (0, [], st) =
     (let sr = add_finding (fst (geo_evaluate (clock 2) e (snd (rate_evaluate (clock 1) e st))))
                (add_finding (fst (rate_evaluate (clock 1) e st)) (add_finding (fst (bot_evaluate (clock 0) e st)) (0, [])))
      in (fst sr, snd sr, default_state clock e st))"
proof -
  note step = evaluate_step [of BotRule clock 0 e st _ "(0, [])"] evaluate_step [of RateLimitRule]
    evaluate_step [of GeoVelocityRule]
  have ev: "fr_evaluate BotRule = bot_evaluate" "fr_evaluate RateLimitRule = rate_evaluate"
    "fr_evaluate GeoVelocityRule = geo_evaluate"
    by (simp_all add: BotRule_def RateLimitRule_def GeoVelocityRule_def)
  show ?thesis
    using step(1)
    by (simp add: DefaultRules_def ev bot.no_error rate.no_error geo.no_error step(2,3) Let_def default_state_def
        numeral_2_eq_2 del: evaluate_rules.simps(2))
qed

lemma screen_default:
  "screen DefaultRules clock e st =
    (let fs = findings clock e st in
      (\<lparr>Tracking = e, IsFraudulent = (fs \<noteq> [] \<and> map snd fs \<noteq> [4 / 10]),
        FraudScore = (if fs = [] then 0 else if length fs = 1 then f64 (snd (hd fs)) else 1),
        FraudReason = Join (map fst fs) '', '', ScreenedAt = clock 3\<rparr>, default_state clock e st))"
proof -
  have geo: "geo_hit (clock 2) e (snd (rate_evaluate (clock 1) e st)) = geo_hit (clock 2) e st"
    by (rule geo_hit_cong) (rule rate_evaluate_state)
  have len: "length DefaultRules = 3" by (simp add: DefaultRules_def)
  show ?thesis
    unfolding screen_def evaluate_default bot_verdict rate_verdict geo_verdict geo findings_def len
    by (cases "UserAgent e = []"; cases "bot_hit e"; cases "rate_hit (clock 1) e st"; cases "geo_hit (clock 2) e st")
      (simp_all add: Let_def add_finding_simps score_facts)
qed

section \<open>The worker\<close>

text \<open>
  \<^verbatim>\<open>Start\<close>: the subscription, then the loop. \<open>subscribe\<close> and \<open>recv\<close> are the broker's
  \<^verbatim>\<open>SubscribeRaw\<close> and the reception from the channel it answers with.
\<close>

definition Start ::
  "('w \<Rightarrow> (go_error + nat) \<times> 'w) \<Rightarrow> (nat \<Rightarrow> 'w \<Rightarrow> tracking_event received \<times> 'w) \<Rightarrow>
   'w save_event \<Rightarrow> (string \<Rightarrow> int \<Rightarrow> 'w \<Rightarrow> 'w) \<Rightarrow> 'w publish_screened \<Rightarrow> fraud_rule list \<Rightarrow>
   turn list \<Rightarrow> rule_state \<times> 'w \<Rightarrow> (rule_state \<times> 'w) worker_result" where
  "Start subscribe recv save increment publish rules turns s =
     (case subscribe (snd s) of
        (Inl err, w) \<Rightarrow> Returned (Some err) (fst s, w)
      | (Inr ch, w) \<Rightarrow>
          consume (\<lambda>(st, w). case recv ch w of (r, w') \<Rightarrow> (r, st, w'))
            (\<lambda>t event. ScreenEvent save increment publish rules (tn_clock t) event) turns (fst s, w))"

section \<open>Properties\<close>

text \<open>
  C6: The verdict of the three default rules: an event is called fraudulent if and only if it
  carries a bot signature, exceeds the rate of its address or moves implausibly fast; a missing
  user agent alone is not fraud. The score is 0 with no finding, the rule's own score with one
  and 1 with several, for all the rounding of \<^verbatim>\<open>float64\<close>, and the reason lists the findings in
  the order of the rules.
\<close>
theorem screening_verdict:
  "(IsFraudulent (fst (screen DefaultRules clock e st)) \<longleftrightarrow>
      bot_hit e \<or> rate_hit (clock 1) e st \<or> geo_hit (clock 2) e st) \<and>
   FraudScore (fst (screen DefaultRules clock e st)) =
     (case findings clock e st of [] \<Rightarrow> 0 | [(r, s)] \<Rightarrow> f64 s | _ \<Rightarrow> 1) \<and>
   FraudReason (fst (screen DefaultRules clock e st)) = Join (map fst (findings clock e st)) '', '' \<and>
   Tracking (fst (screen DefaultRules clock e st)) = e"
proof (intro conjI)
  show "IsFraudulent (fst (screen DefaultRules clock e st)) \<longleftrightarrow>
      bot_hit e \<or> rate_hit (clock 1) e st \<or> geo_hit (clock 2) e st"
    by (auto simp: screen_default Let_def findings_def bot_hit_def)
qed (auto simp: screen_default Let_def split: list.splits)

text \<open>
  The score an event is stored and published with lies between 0 and 1, is positive exactly
  when a reason is given, and is at least one half exactly when the event is called fraudulent,
  so no reader of the score and no reader of the flag can disagree.
\<close>
theorem score_bounds:
  "0 \<le> FraudScore (fst (screen DefaultRules clock e st)) \<and> FraudScore (fst (screen DefaultRules clock e st)) \<le> 1 \<and>
   (0 < FraudScore (fst (screen DefaultRules clock e st)) \<longleftrightarrow> FraudReason (fst (screen DefaultRules clock e st)) \<noteq> []) \<and>
   (IsFraudulent (fst (screen DefaultRules clock e st)) \<longleftrightarrow> 1 / 2 \<le> FraudScore (fst (screen DefaultRules clock e st)))"
  by (cases "UserAgent e = []"; cases "bot_hit e"; cases "rate_hit (clock 1) e st"; cases "geo_hit (clock 2) e st")
    (simp_all add: screen_default findings_def Let_def score_values)

end
