(* ===== verification/CircuitBreaker.thy ===== *)
theory CircuitBreaker
  imports Prelude
begin

text \<open>
  \<^verbatim>\<open>pkg/resilience/circuit_breaker.go\<close>. Every method holds the breaker's mutex for
  its whole body, so a method is one atomic step on the record below. The methods that read
  the clock take the reading as an argument.
\<close>

section \<open>State and operations\<close>

datatype CircuitBreakerState = StateClosed | StateHalfOpen | StateOpen

text \<open>The values of the \<^verbatim>\<open>iota\<close> block, and \<^verbatim>\<open>String\<close> on the underlying integer.\<close>

fun state_code :: "CircuitBreakerState \<Rightarrow> int" where
  "state_code StateClosed = 0"
| "state_code StateHalfOpen = 1"
| "state_code StateOpen = 2"

definition state_String :: "int \<Rightarrow> string" where
  "state_String s =
     (if s = state_code StateClosed then ''CLOSED''
      else if s = state_code StateHalfOpen then ''HALF-OPEN''
      else if s = state_code StateOpen then ''OPEN''
      else ''UNKNOWN'')"

text \<open>
  \<open>cb_onStateChange\<close> says whether a callback is installed; \<open>cb_changes\<close> records its calls,
  the oldest first.
\<close>

record circuit_breaker =
  cb_state :: CircuitBreakerState
  cb_failures :: int
  cb_threshold :: int
  cb_cooldown :: duration
  cb_lastFailure :: time
  cb_onStateChange :: bool
  cb_changes :: "(CircuitBreakerState \<times> CircuitBreakerState) list"

definition NewCircuitBreaker :: "int \<Rightarrow> duration \<Rightarrow> bool \<Rightarrow> circuit_breaker" where
  "NewCircuitBreaker threshold cooldown onStateChange =
     \<lparr>cb_state = StateClosed, cb_failures = 0, cb_threshold = threshold, cb_cooldown = cooldown,
      cb_lastFailure = 0, cb_onStateChange = onStateChange, cb_changes = []\<rparr>"

definition State :: "circuit_breaker \<Rightarrow> CircuitBreakerState" where
  "State cb = cb_state cb"

text \<open>\<^verbatim>\<open>cb.state = s\<close> followed by the callback, when there is one.\<close>

definition change_state :: "CircuitBreakerState \<Rightarrow> circuit_breaker \<Rightarrow> circuit_breaker" where
  "change_state s cb =
     (let old = cb_state cb; cb' = cb\<lparr>cb_state := s\<rparr> in
      if cb_onStateChange cb then cb'\<lparr>cb_changes := cb_changes cb @ [(old, s)]\<rparr> else cb')"

definition Allow :: "time \<Rightarrow> circuit_breaker \<Rightarrow> bool \<times> circuit_breaker" where
  "Allow now cb =
     (if cb_state cb = StateOpen then
        if cb_cooldown cb < Sub now (cb_lastFailure cb) then (True, change_state StateHalfOpen cb)
        else (False, cb)
      else (True, cb))"

definition RecordSuccess :: "circuit_breaker \<Rightarrow> circuit_breaker" where
  "RecordSuccess cb =
     (if cb_state cb = StateHalfOpen \<or> cb_state cb = StateOpen
      then (change_state StateClosed cb)\<lparr>cb_failures := 0\<rparr>
      else cb\<lparr>cb_failures := 0\<rparr>)"

definition RecordFailure :: "time \<Rightarrow> circuit_breaker \<Rightarrow> circuit_breaker" where
  "RecordFailure now cb0 =
     (let cb = cb0\<lparr>cb_failures := wrap64 (cb_failures cb0 + 1), cb_lastFailure := now\<rparr> in
      if cb_state cb = StateHalfOpen \<or> cb_threshold cb \<le> cb_failures cb then
        if cb_state cb \<noteq> StateOpen then change_state StateOpen cb else cb
      else cb)"

lemma change_state_simps [simp]:
  "cb_state (change_state s cb) = s"
  "cb_failures (change_state s cb) = cb_failures cb"
  "cb_threshold (change_state s cb) = cb_threshold cb"
  "cb_cooldown (change_state s cb) = cb_cooldown cb"
  "cb_lastFailure (change_state s cb) = cb_lastFailure cb"
  "cb_onStateChange (change_state s cb) = cb_onStateChange cb"
  "cb_changes (change_state s cb) =
     (if cb_onStateChange cb then cb_changes cb @ [(cb_state cb, s)] else cb_changes cb)"
  by (simp_all add: change_state_def Let_def)

lemmas cb_defs = Allow_def RecordSuccess_def RecordFailure_def Let_def

section \<open>Runs\<close>

text \<open>The calls on a breaker, with the answers of \<^const>\<open>Allow\<close>.\<close>

datatype cb_op = OpAllow time bool | OpSuccess | OpFailure time

inductive cb_step :: "circuit_breaker \<Rightarrow> cb_op \<Rightarrow> circuit_breaker \<Rightarrow> bool" where
  step_allow: "Allow now cb = (r, cb') \<Longrightarrow> cb_step cb (OpAllow now r) cb'"
| step_success: "cb_step cb OpSuccess (RecordSuccess cb)"
| step_failure: "cb_step cb (OpFailure now) (RecordFailure now cb)"

inductive_simps cb_step_allow [simp]: "cb_step cb (OpAllow now r) cb'"
inductive_simps cb_step_success [simp]: "cb_step cb OpSuccess cb'"
inductive_simps cb_step_failure [simp]: "cb_step cb (OpFailure now) cb'"

abbreviation cb_run :: "circuit_breaker \<Rightarrow> cb_op list \<Rightarrow> circuit_breaker \<Rightarrow> bool" where
  "cb_run \<equiv> run cb_step"

section \<open>Invariant\<close>

text \<open>
  A legal change of state, and a callback log that tells the state's history without a gap:
  it starts in \<open>s\<close>, ends in \<open>t\<close>, and each entry starts where the one before ended.
\<close>

fun legal_change :: "CircuitBreakerState \<Rightarrow> CircuitBreakerState \<Rightarrow> bool" where
  "legal_change StateClosed t = (t = StateOpen)"
| "legal_change StateOpen t = (t = StateHalfOpen \<or> t = StateClosed)"
| "legal_change StateHalfOpen t = (t = StateClosed \<or> t = StateOpen)"

fun log_between :: "CircuitBreakerState \<Rightarrow> (CircuitBreakerState \<times> CircuitBreakerState) list \<Rightarrow> CircuitBreakerState \<Rightarrow> bool" where
  "log_between s [] t = (s = t)"
| "log_between s ((a, b) # l) t = (s = a \<and> legal_change a b \<and> log_between b l t)"

lemma log_between_snoc [simp]:
  "log_between s (l @ [(a, b)]) t \<longleftrightarrow> log_between s l a \<and> legal_change a b \<and> b = t"
  by (induction s l t rule: log_between.induct) auto

definition cb_wf :: "circuit_breaker \<Rightarrow> bool" where
  "cb_wf cb \<longleftrightarrow>
     1 \<le> cb_threshold cb \<and> is_int64 (cb_threshold cb) \<and> is_int64 (cb_failures cb) \<and>
     (cb_state cb = StateClosed \<longrightarrow> 0 \<le> cb_failures cb \<and> cb_failures cb < cb_threshold cb) \<and>
     (cb_onStateChange cb \<longrightarrow> log_between StateClosed (cb_changes cb) (cb_state cb))"

lemma cb_wf_New: "1 \<le> n \<Longrightarrow> is_int64 n \<Longrightarrow> cb_wf (NewCircuitBreaker n d b)"
  by (simp add: cb_wf_def NewCircuitBreaker_def is_int64_def int64_min_def)

lemma closed_failure_no_wrap:
  "cb_wf cb \<Longrightarrow> cb_state cb = StateClosed \<Longrightarrow> wrap64 (cb_failures cb + 1) = cb_failures cb + 1"
  by (rule wrap64_id) (auto simp: cb_wf_def is_int64_def int64_min_def)

lemma cb_wf_Allow: "cb_wf cb \<Longrightarrow> cb_wf (snd (Allow now cb))"
  by (auto simp: cb_wf_def cb_defs)

lemma cb_wf_RecordSuccess: "cb_wf cb \<Longrightarrow> cb_wf (RecordSuccess cb)"
  by (cases "cb_state cb") (auto simp: cb_wf_def cb_defs is_int64_def int64_min_def int64_max_def)

lemma cb_wf_RecordFailure: "cb_wf cb \<Longrightarrow> cb_wf (RecordFailure now cb)"
  using closed_failure_no_wrap [of cb] is_int64_wrap64 [of "cb_failures cb + 1"]
  by (cases "cb_state cb") (auto simp: cb_wf_def cb_defs)

lemma cb_wf_step: "cb_step cb op cb' \<Longrightarrow> cb_wf cb \<Longrightarrow> cb_wf cb'"
proof (induction rule: cb_step.induct)
  case (step_allow now cb r cb')
  then show ?case using cb_wf_Allow [of cb now] by simp
qed (auto intro: cb_wf_RecordSuccess cb_wf_RecordFailure)

lemma cb_wf_run: "cb_run cb ops cb' \<Longrightarrow> cb_wf cb \<Longrightarrow> cb_wf cb'"
  by (rule run_invariant [of cb_step cb ops cb' cb_wf]) (auto intro: cb_wf_step)

lemma cb_fixed_step:
  "cb_step cb op cb' \<Longrightarrow> cb_threshold cb' = cb_threshold cb \<and> cb_cooldown cb' = cb_cooldown cb \<and>
     cb_onStateChange cb' = cb_onStateChange cb"
  by (cases op) (auto simp: cb_defs split: if_splits)

section \<open>The breaker's contract\<close>

text \<open>
  The abstract breaker: armed with the failures it still accepts, blocking since an instant,
  or letting probes through.
\<close>

datatype breaker = Armed int | Blocking time | Probing

definition breaker_of :: "circuit_breaker \<Rightarrow> breaker" where
  "breaker_of cb =
     (case cb_state cb of
        StateClosed \<Rightarrow> Armed (cb_threshold cb - cb_failures cb)
      | StateOpen \<Rightarrow> Blocking (cb_lastFailure cb)
      | StateHalfOpen \<Rightarrow> Probing)"

fun spec_allow :: "duration \<Rightarrow> time \<Rightarrow> breaker \<Rightarrow> bool \<times> breaker" where
  "spec_allow cooldown now (Blocking t) = (if cooldown < Sub now t then (True, Probing) else (False, Blocking t))"
| "spec_allow cooldown now b = (True, b)"

fun spec_failure :: "time \<Rightarrow> breaker \<Rightarrow> breaker" where
  "spec_failure now (Armed n) = (if n \<le> 1 then Blocking now else Armed (n - 1))"
| "spec_failure now b = Blocking now"

definition spec_success :: "int \<Rightarrow> breaker \<Rightarrow> breaker" where
  "spec_success threshold b = Armed threshold"

fun spec_step :: "int \<Rightarrow> duration \<Rightarrow> breaker \<Rightarrow> cb_op \<Rightarrow> breaker \<Rightarrow> bool" where
  "spec_step n d b (OpAllow now r) b' \<longleftrightarrow> spec_allow d now b = (r, b')"
| "spec_step n d b OpSuccess b' \<longleftrightarrow> b' = spec_success n b"
| "spec_step n d b (OpFailure now) b' \<longleftrightarrow> b' = spec_failure now b"

fun spec_run :: "int \<Rightarrow> duration \<Rightarrow> breaker \<Rightarrow> cb_op list \<Rightarrow> breaker \<Rightarrow> bool" where
  "spec_run n d b [] b' \<longleftrightarrow> b = b'"
| "spec_run n d b (op # ops) b' \<longleftrightarrow> (\<exists>b1. spec_step n d b op b1 \<and> spec_run n d b1 ops b')"

lemma breaker_of_step:
  assumes "cb_step cb op cb'" "cb_wf cb"
  shows "spec_step (cb_threshold cb) (cb_cooldown cb) (breaker_of cb) op (breaker_of cb')"
  using assms closed_failure_no_wrap [of cb]
  by (cases op; cases "cb_state cb")
    (auto simp: breaker_of_def cb_defs spec_success_def cb_wf_def split: if_splits)

lemma breaker_of_run:
  "cb_run cb ops cb' \<Longrightarrow> cb_wf cb \<Longrightarrow>
   spec_run (cb_threshold cb) (cb_cooldown cb) (breaker_of cb) ops (breaker_of cb')"
proof (induction rule: run.induct)
  case (run_cons cb op cb1 ops cb')
  then show ?case
    using breaker_of_step [of cb op cb1] cb_wf_step [of cb op cb1] cb_fixed_step [of cb op cb1] by auto
qed simp

lemma breaker_of_New: "breaker_of (NewCircuitBreaker n d b) = Armed n"
  by (simp add: breaker_of_def NewCircuitBreaker_def)

lemma spec_failures_run:
  "0 < n \<Longrightarrow> fold spec_failure ts (Armed n) =
     (if int (length ts) < n then Armed (n - int (length ts)) else Blocking (last ts))"
proof (induction ts rule: rev_induct)
  case (snoc t ts)
  then show ?case by auto
qed simp

lemma failures_refine:
  "cb_wf cb \<Longrightarrow> breaker_of (fold RecordFailure ts cb) = fold spec_failure ts (breaker_of cb) \<and>
     cb_wf (fold RecordFailure ts cb)"
proof (induction ts arbitrary: cb)
  case (Cons t ts)
  have "breaker_of (RecordFailure t cb) = spec_failure t (breaker_of cb)"
    using breaker_of_step [OF step_failure Cons.prems, of t] by simp
  with Cons show ?case using cb_wf_RecordFailure by simp
qed simp

lemma breaker_of_open_iff: "cb_state cb = StateOpen \<longleftrightarrow> (\<exists>t. breaker_of cb = Blocking t)"
  by (auto simp: breaker_of_def split: CircuitBreakerState.splits)

text \<open>While it is open: no probe before the cooldown, whatever else is reported but success.\<close>

lemma open_stays_open:
  assumes "cb_run cb ops cb'" "cb_state cb = StateOpen" "L \<le> cb_lastFailure cb" "OpSuccess \<notin> set ops"
    "\<forall>now r. OpAllow now r \<in> set ops \<longrightarrow> Sub now L \<le> cb_cooldown cb"
    "\<forall>t. OpFailure t \<in> set ops \<longrightarrow> L \<le> t"
  shows "cb_state cb' = StateOpen \<and> (\<forall>now. OpAllow now True \<notin> set ops)"
  using assms
proof (induction rule: run.induct)
  case (run_cons cb op cb1 ops cb')
  show ?case
  proof (cases op)
    case (OpAllow now r)
    have "Sub now (cb_lastFailure cb) \<le> Sub now L"
      using run_cons.prems(2) by (auto simp: Sub_def)
    also have "\<dots> \<le> cb_cooldown cb"
      using run_cons.prems(4) OpAllow by auto
    finally have "Allow now cb = (False, cb)"
      using run_cons.prems(1) by (simp add: Allow_def)
    with run_cons.hyps(1) OpAllow have same: "cb1 = cb" "\<not> r" by auto
    have "cb_state cb' = StateOpen \<and> (\<forall>now. OpAllow now True \<notin> set ops)"
      using run_cons.prems same by (intro run_cons.IH) auto
    with same OpAllow show ?thesis by auto
  next
    case OpSuccess
    with run_cons.prems show ?thesis by simp
  next
    case (OpFailure t)
    with run_cons.hyps(1) run_cons.prems
    have "cb_state cb1 = StateOpen" "L \<le> cb_lastFailure cb1" "cb_cooldown cb1 = cb_cooldown cb"
      by (auto simp: RecordFailure_def Let_def)
    then have "cb_state cb' = StateOpen \<and> (\<forall>now. OpAllow now True \<notin> set ops)"
      using run_cons.prems by (intro run_cons.IH) auto
    with OpFailure show ?thesis by auto
  qed
qed simp

section \<open>Properties\<close>

text \<open>
  In every state a breaker reaches from its construction, a closed breaker has recorded
  fewer failures than its threshold, and the calls of the state-change callback tell the whole
  history: they start at CLOSED, follow one another without a gap, use only the legal
  transitions and end in the present state.
\<close>
theorem breaker_reachable_log:
  assumes "1 \<le> n" "is_int64 n" "cb_run (NewCircuitBreaker n d True) ops cb"
  shows "log_between StateClosed (cb_changes cb) (State cb) \<and>
    (State cb = StateClosed \<longrightarrow> 0 \<le> cb_failures cb \<and> cb_failures cb < n)"
proof -
  have "cb_wf cb \<and> cb_threshold cb = n \<and> cb_onStateChange cb"
    using assms(3)
  proof (rule run_invariant)
    show "cb_wf (NewCircuitBreaker n d True) \<and> cb_threshold (NewCircuitBreaker n d True) = n \<and>
        cb_onStateChange (NewCircuitBreaker n d True)"
      using cb_wf_New [OF assms(1,2)] by (simp add: NewCircuitBreaker_def)
  next
    fix cb op cb'
    assume "cb_step cb op cb'" "cb_wf cb \<and> cb_threshold cb = n \<and> cb_onStateChange cb"
    then show "cb_wf cb' \<and> cb_threshold cb' = n \<and> cb_onStateChange cb'"
      using cb_wf_step cb_fixed_step by metis
  qed
  then show ?thesis by (auto simp: cb_wf_def State_def)
qed

theorem breaker_reachable_log_witness:
  "\<exists>cb. cb_run (NewCircuitBreaker 1 5 True) [OpFailure 100, OpAllow 106 True, OpSuccess] cb \<and>
     cb_changes cb = [(StateClosed, StateOpen), (StateOpen, StateHalfOpen), (StateHalfOpen, StateClosed)] \<and>
     log_between StateClosed (cb_changes cb) (State cb)"
proof -
  let ?cb = "RecordSuccess (snd (Allow 106 (RecordFailure 100 (NewCircuitBreaker 1 5 True))))"
  have run: "cb_run (NewCircuitBreaker 1 5 True) [OpFailure 100, OpAllow 106 True, OpSuccess] ?cb"
    by (auto simp: cb_defs NewCircuitBreaker_def wrap64_def Sub_def int64_min_def int64_max_def)
  have "cb_changes ?cb = [(StateClosed, StateOpen), (StateOpen, StateHalfOpen), (StateHalfOpen, StateClosed)]"
    by (simp add: cb_defs NewCircuitBreaker_def wrap64_def Sub_def int64_min_def int64_max_def)
  moreover have "log_between StateClosed (cb_changes ?cb) (State ?cb)"
    using breaker_reachable_log [OF _ _ run] by (simp add: is_int64_def int64_min_def int64_max_def)
  ultimately show ?thesis using run by blast
qed

text \<open>
  C8: The breaker refines its contract: along every sequence of calls from its construction,
  the answers of Allow and the final state are those of the abstract breaker, which starts
  armed with \<open>n\<close> failures, blocks from the failure that uses up the last one until more than the
  cooldown has passed since the latest failure, then lets probes through, and is armed with
  \<open>n\<close> again by any success.
\<close>
theorem breaker_refines_contract:
  assumes "1 \<le> n" "is_int64 n" "cb_run (NewCircuitBreaker n d b) ops cb"
  shows "spec_run n d (Armed n) ops (breaker_of cb)"
  using breaker_of_run [OF assms(3) cb_wf_New [OF assms(1,2)]]
  by (simp add: breaker_of_New) (simp add: NewCircuitBreaker_def)

theorem breaker_refines_contract_witness:
  "\<exists>cb. cb_run (NewCircuitBreaker 2 5 False) [OpFailure 100, OpFailure 101, OpAllow 106 False] cb \<and>
     breaker_of cb = Blocking 101 \<and>
     spec_run 2 5 (Armed 2) [OpFailure 100, OpFailure 101, OpAllow 106 False] (breaker_of cb)"
proof -
  let ?cb = "RecordFailure 101 (RecordFailure 100 (NewCircuitBreaker 2 5 False))"
  have run: "cb_run (NewCircuitBreaker 2 5 False) [OpFailure 100, OpFailure 101, OpAllow 106 False] ?cb"
    by (auto simp: cb_defs NewCircuitBreaker_def wrap64_def Sub_def int64_min_def int64_max_def)
  have "breaker_of ?cb = Blocking 101"
    by (simp add: cb_defs breaker_of_def NewCircuitBreaker_def wrap64_def)
  then show ?thesis
    using run breaker_refines_contract [OF _ _ run] by (auto simp: is_int64_def int64_min_def int64_max_def)
qed

text \<open>
  An open breaker blocks every request of its cooldown: in any sequence of calls without a
  reported success, as long as the clock is at most the cooldown past the failure that opened
  it, no call of Allow answers true, and the breaker is still open afterwards.
\<close>
theorem open_breaker_blocks:
  assumes "State cb = StateOpen" "cb_run cb ops cb'" "OpSuccess \<notin> set ops"
    and "\<forall>now r. OpAllow now r \<in> set ops \<longrightarrow> Sub now (cb_lastFailure cb) \<le> cb_cooldown cb"
    and "\<forall>t. OpFailure t \<in> set ops \<longrightarrow> cb_lastFailure cb \<le> t"
  shows "State cb' = StateOpen \<and> (\<forall>now. OpAllow now True \<notin> set ops)"
  using open_stays_open [OF assms(2), of "cb_lastFailure cb"] assms by (simp add: State_def)

theorem open_breaker_blocks_witness:
  "\<exists>cb cb'. State cb = StateOpen \<and> cb_run cb [OpAllow 105 False, OpFailure 103] cb' \<and> State cb' = StateOpen"
proof -
  let ?cb = "RecordFailure 100 (NewCircuitBreaker 1 5 False)"
  have s: "State ?cb = StateOpen" "cb_lastFailure ?cb = 100" "cb_cooldown ?cb = 5"
    by (simp_all add: cb_defs NewCircuitBreaker_def State_def wrap64_def)
  have run: "cb_run ?cb [OpAllow 105 False, OpFailure 103] (RecordFailure 103 ?cb)"
    by (auto simp: cb_defs NewCircuitBreaker_def wrap64_def Sub_def int64_min_def int64_max_def)
  have "State (RecordFailure 103 ?cb) = StateOpen"
    using open_breaker_blocks [OF s(1) run] s by (auto simp: Sub_def int64_min_def int64_max_def)
  with s run show ?thesis by blast
qed

text \<open>
  The breaker trips exactly at its threshold: after \<open>k\<close> failures in a row on a breaker just
  built or just reset, it is open if and only if \<open>k\<close> has reached the threshold.
\<close>
theorem breaker_trips_at_threshold:
  assumes "1 \<le> n" "is_int64 n"
  shows "State (fold RecordFailure ts (NewCircuitBreaker n d b)) = StateOpen \<longleftrightarrow> n \<le> int (length ts)"
proof -
  have "breaker_of (fold RecordFailure ts (NewCircuitBreaker n d b)) =
      (if int (length ts) < n then Armed (n - int (length ts)) else Blocking (last ts))"
    using failures_refine [OF cb_wf_New [OF assms], of ts d b] spec_failures_run [of n ts] assms(1)
    by (simp add: breaker_of_New)
  then show ?thesis by (auto simp: State_def breaker_of_open_iff)
qed

theorem breaker_trips_at_threshold_witness:
  "State (fold RecordFailure [1, 2, 3] (NewCircuitBreaker 3 5 False)) = StateOpen \<and>
   State (fold RecordFailure [1, 2] (NewCircuitBreaker 3 5 False)) \<noteq> StateOpen"
  using breaker_trips_at_threshold [of 3 "[1, 2, 3]" 5 False] breaker_trips_at_threshold [of 3 "[1, 2]" 5 False]
  by (simp add: is_int64_def int64_min_def int64_max_def)

end
