(* ===== verification/ResilientClient.thy ===== *)
theory ResilientClient
  imports CircuitBreaker
begin

text \<open>
  \<^verbatim>\<open>pkg/resilience/resilient_client.go\<close>: the HTTP client with retries, exponential
  backoff and the circuit breaker, and the mock CRM server. What the code does not decide (the
  network, the clock, the random jitter, the cancellation of the request's context) is an
  argument, one record per attempt.
\<close>

section \<open>HTTP requests and the transport\<close>

text \<open>
  A request's body is a reader: \<open>rq_body\<close> is what it still holds. \<^verbatim>\<open>req.Clone\<close>
  copies the reader's reference, so the clone shares \<open>rq_body\<close> with its original, and
  \<open>rq_contentLength\<close> stays what it was when the request was built.
\<close>

record http_request =
  rq_method :: string
  rq_url :: string
  rq_contentType :: string
  rq_contentLength :: nat
  rq_body :: string

record http_response =
  rs_statusCode :: int
  rs_status :: string
  rs_body :: string

text \<open>\<^verbatim>\<open>http.NewRequestWithContext\<close> with a \<^verbatim>\<open>*bytes.Buffer\<close> body.\<close>

definition NewRequest :: "string \<Rightarrow> string \<Rightarrow> string \<Rightarrow> http_request" where
  "NewRequest method url body =
     \<lparr>rq_method = method, rq_url = url, rq_contentType = [], rq_contentLength = length body, rq_body = body\<rparr>"

definition Clone :: "http_request \<Rightarrow> http_request" where
  "Clone req = req"

text \<open>
  What the network does with one request: it fails before anything is written, it fails (a
  timeout among others) after the request is written, or a response arrives.
\<close>

datatype net = NetRefused go_error | NetLost go_error | NetResponse http_response

text \<open>
  \<^verbatim>\<open>client.Do\<close>: writing the request empties the body's reader, and a body shorter than
  the announced length is the transport's error, whatever the server would have answered.
  The transport would rewind the body with \<^verbatim>\<open>GetBody\<close> and send again only when it wrote nothing on a
  reused idle connection. No retry of this client meets one: the loop neither reads nor closes
  the response of a failed attempt, so that connection is never idle again, and its callers
  send one request at a time, so no second connection waits in the pool. A retry dials.
\<close>

definition client_Do :: "net \<Rightarrow> http_request \<Rightarrow> (go_error + http_response) \<times> http_request" where
  "client_Do n req =
     (case n of
        NetRefused e \<Rightarrow> (Inl e, req)
      | _ \<Rightarrow>
          if length (rq_body req) < rq_contentLength req then
            (Inl (NewError (''http: ContentLength='' @ show_nat (rq_contentLength req) @
                            '' with Body length '' @ show_nat (length (rq_body req)))),
             req\<lparr>rq_body := []\<rparr>)
          else
            (case n of NetLost e \<Rightarrow> Inl e | NetResponse r \<Rightarrow> Inr r | NetRefused e \<Rightarrow> Inl e,
             req\<lparr>rq_body := []\<rparr>))"

section \<open>The client\<close>

record resilient_client =
  rc_cb :: circuit_breaker
  rc_maxRetries :: int
  rc_baseDelay :: duration
  rc_timeout :: duration

definition NewResilientClient ::
  "duration \<Rightarrow> int \<Rightarrow> duration \<Rightarrow> int \<Rightarrow> duration \<Rightarrow> bool \<Rightarrow> resilient_client" where
  "NewResilientClient timeout cbThreshold cbCooldown maxRetries baseDelay onCBChange =
     \<lparr>rc_cb = NewCircuitBreaker cbThreshold cbCooldown onCBChange, rc_maxRetries = maxRetries,
      rc_baseDelay = baseDelay, rc_timeout = timeout\<rparr>"

text \<open>
  The surroundings of one attempt: \<^verbatim>\<open>rand.Intn(100)\<close>, the context's error if it is done
  before the backoff timer fires, the network, and the clock when a failure is recorded.
\<close>

record attempt_env =
  ae_jitter :: nat
  ae_done :: "go_error option"
  ae_net :: net
  ae_now :: time

text \<open>\<^verbatim>\<open>rc.baseDelay * (1 << uint(attempt-1)) + jitter\<close>, in int64 arithmetic.\<close>

definition backoff :: "duration \<Rightarrow> int \<Rightarrow> nat \<Rightarrow> duration" where
  "backoff baseDelay attempt roll =
     wrap64 (wrap64 (baseDelay * wrap64 (2 ^ nat (attempt - 1))) + wrap64 (int roll * Millisecond))"

text \<open>The two results of \<^verbatim>\<open>Do\<close>: a response and nil, or an error with or without a response.\<close>

datatype do_result = DoOk http_response | DoErr "http_response option" go_error

text \<open>The state of a call: the client, the request with what is left of its body, the delays slept, the requests sent.\<close>

record do_state =
  ds_client :: resilient_client
  ds_req :: http_request
  ds_sleeps :: "duration list"
  ds_sent :: nat

definition on_cb :: "(circuit_breaker \<Rightarrow> circuit_breaker) \<Rightarrow> do_state \<Rightarrow> do_state" where
  "on_cb f st = st\<lparr>ds_client := (ds_client st)\<lparr>rc_cb := f (rc_cb (ds_client st))\<rparr>\<rparr>"

text \<open>The text of the final error; \<^verbatim>\<open>%w\<close> keeps the cause.\<close>

definition retries_text :: "int \<Rightarrow> string" where
  "retries_text n = '' after '' @ show_int n @ '' retries''"

text \<open>After the loop: the last attempt's error or response. With no attempt at all, \<^verbatim>\<open>resp\<close> is nil.\<close>

definition after_loop :: "int \<Rightarrow> (go_error + http_response) option \<Rightarrow> do_result outcome" where
  "after_loop maxRetries prev =
     (case prev of
        Some (Inl err) \<Rightarrow> Ret (DoErr None (Wrapped (''request failed'' @ retries_text maxRetries) err))
      | Some (Inr resp) \<Rightarrow>
          Ret (DoErr (Some resp) (NewError (''request failed with status '' @ rs_status resp @ retries_text maxRetries)))
      | None \<Rightarrow> Panic ''invalid memory address or nil pointer dereference'')"

text \<open>
  One attempt, once the backoff timer has fired: the delay that was slept, the request sent
  (the first attempt sends the request itself, the others a clone), the answer.
\<close>

definition one_attempt :: "attempt_env \<Rightarrow> int \<Rightarrow> do_state \<Rightarrow> (go_error + http_response) \<times> do_state" where
  "one_attempt e attempt st =
     (let delay = backoff (rc_baseDelay (ds_client st)) attempt (ae_jitter e);
          retryReq = (if 0 < attempt then Clone (ds_req st) else ds_req st);
          (r, req') = client_Do (ae_net e) retryReq
      in (r, st\<lparr>ds_req := req', ds_sent := Suc (ds_sent st),
                ds_sleeps := ds_sleeps st @ (if 0 < attempt then [delay] else [])\<rparr>))"

text \<open>The loop over the attempts. \<open>prev\<close> holds \<^verbatim>\<open>(resp, err)\<close> of the attempt before.\<close>

function do_loop ::
  "(nat \<Rightarrow> attempt_env) \<Rightarrow> int \<Rightarrow> (go_error + http_response) option \<Rightarrow> do_state \<Rightarrow> do_result outcome \<times> do_state" where
  "do_loop env attempt prev st =
     (let maxRetries = rc_maxRetries (ds_client st); e = env (nat attempt) in
      if maxRetries < attempt then (after_loop maxRetries prev, st)
      else if 0 < attempt \<and> ae_done e \<noteq> None then
        (Ret (DoErr None (the (ae_done e))), on_cb (RecordFailure (ae_now e)) st)
      else
        let (r, st1) = one_attempt e attempt st in
        case r of
          Inr resp \<Rightarrow>
            if rs_statusCode resp < 500 then (Ret (DoOk resp), on_cb RecordSuccess st1)
            else do_loop env (attempt + 1) (Some r) (on_cb (RecordFailure (ae_now e)) st1)
        | Inl err \<Rightarrow> do_loop env (attempt + 1) (Some r) (on_cb (RecordFailure (ae_now e)) st1))"
  by pat_completeness auto
termination
  by (relation "measure (\<lambda>(env, attempt, prev, st). nat (rc_maxRetries (ds_client st) + 1 - attempt))")
    (auto simp: on_cb_def one_attempt_def split: if_splits prod.splits)

declare do_loop.simps [simp del]

text \<open>\<^verbatim>\<open>Do\<close>: \<open>now\<close> is the clock read by the breaker's Allow.\<close>

definition Do :: "time \<Rightarrow> (nat \<Rightarrow> attempt_env) \<Rightarrow> http_request \<Rightarrow> resilient_client \<Rightarrow> do_result outcome \<times> do_state" where
  "Do now env req rc =
     (let (ok, cb) = Allow now (rc_cb rc);
          st = \<lparr>ds_client = rc\<lparr>rc_cb := cb\<rparr>, ds_req = req, ds_sleeps = [], ds_sent = 0\<rparr> in
      if \<not> ok then (Ret (DoErr None (NewError ''circuit breaker is open - request blocked'')), st)
      else do_loop env 0 None st)"

section \<open>The mock CRM server\<close>

text \<open>The handler for one roll of \<^verbatim>\<open>rand.Intn(100)\<close>: the time it sleeps, and the response.\<close>

definition MockCRM :: "nat \<Rightarrow> duration \<times> http_response" where
  "MockCRM roll =
     (if roll < 5 then
        (3 * Second, \<lparr>rs_statusCode = 504, rs_status = ''504 Gateway Timeout'', rs_body = ''{\"error\": \"timeout\"}''\<rparr>)
      else if 5 \<le> roll \<and> roll < 20 then
        (0, \<lparr>rs_statusCode = 503, rs_status = ''503 Service Unavailable'', rs_body = ''{\"error\": \"service unavailable\"}''\<rparr>)
      else
        (0, \<lparr>rs_statusCode = 200, rs_status = ''200 OK'',
             rs_body = ''{\"status\": \"synced\", \"message\": \"contact updated successfully\"}''\<rparr>))"

text \<open>The mock server behind a client with a timeout, when the network itself is instantaneous.\<close>

definition mock_net :: "duration \<Rightarrow> nat \<Rightarrow> net" where
  "mock_net timeout roll =
     (let (latency, resp) = MockCRM roll in
      if timeout < latency then NetLost DeadlineExceeded else NetResponse resp)"

section \<open>The loop, step by step\<close>

lemma on_cb_simps [simp]:
  "rc_cb (ds_client (on_cb f st)) = f (rc_cb (ds_client st))"
  "rc_maxRetries (ds_client (on_cb f st)) = rc_maxRetries (ds_client st)"
  "rc_baseDelay (ds_client (on_cb f st)) = rc_baseDelay (ds_client st)"
  "ds_req (on_cb f st) = ds_req st" "ds_sleeps (on_cb f st) = ds_sleeps st" "ds_sent (on_cb f st) = ds_sent st"
  by (simp_all add: on_cb_def)

lemma one_attempt_state:
  assumes "one_attempt e a st = (r, st1)"
  shows "ds_client st1 = ds_client st" "ds_sent st1 = Suc (ds_sent st)"
    "(r, ds_req st1) = client_Do (ae_net e) (ds_req st)"
    "ds_sleeps st1 = ds_sleeps st @ (if 0 < a then [backoff (rc_baseDelay (ds_client st)) a (ae_jitter e)] else [])"
  using assms by (auto simp: one_attempt_def Clone_def Let_def split: prod.splits if_splits)

text \<open>An attempt that does not end the call: an error, or a status of the server's fault.\<close>

definition failed :: "go_error + http_response \<Rightarrow> bool" where
  "failed r \<longleftrightarrow> (case r of Inl e \<Rightarrow> True | Inr resp \<Rightarrow> 500 \<le> rs_statusCode resp)"

lemma failed_simps [simp]: "failed (Inl e)" "failed (Inr resp) \<longleftrightarrow> 500 \<le> rs_statusCode resp"
  by (simp_all add: failed_def)

lemma do_loop_stop:
  "rc_maxRetries (ds_client st) < a \<Longrightarrow> do_loop env a prev st = (after_loop (rc_maxRetries (ds_client st)) prev, st)"
  by (simp add: do_loop.simps Let_def)

lemma do_loop_done:
  "a \<le> rc_maxRetries (ds_client st) \<Longrightarrow> 0 < a \<Longrightarrow> ae_done (env (nat a)) = Some err \<Longrightarrow>
   do_loop env a prev st = (Ret (DoErr None err), on_cb (RecordFailure (ae_now (env (nat a)))) st)"
  by (simp add: do_loop.simps Let_def)

lemma do_loop_ok:
  "a \<le> rc_maxRetries (ds_client st) \<Longrightarrow> a \<le> 0 \<or> ae_done (env (nat a)) = None \<Longrightarrow>
   one_attempt (env (nat a)) a st = (Inr resp, st1) \<Longrightarrow> rs_statusCode resp < 500 \<Longrightarrow>
   do_loop env a prev st = (Ret (DoOk resp), on_cb RecordSuccess st1)"
  by (auto simp: do_loop.simps Let_def)

lemma do_loop_retry:
  "a \<le> rc_maxRetries (ds_client st) \<Longrightarrow> a \<le> 0 \<or> ae_done (env (nat a)) = None \<Longrightarrow>
   one_attempt (env (nat a)) a st = (r, st1) \<Longrightarrow> failed r \<Longrightarrow>
   do_loop env a prev st = do_loop env (a + 1) (Some r) (on_cb (RecordFailure (ae_now (env (nat a)))) st1)"
  by (subst do_loop.simps) (auto simp: Let_def split: sum.splits)

text \<open>Computation induction, with one case for each way a turn of the loop goes.\<close>

lemma do_loop_induct [case_names stop cancel ok retry]:
  assumes stop: "\<And>a prev st. rc_maxRetries (ds_client st) < a \<Longrightarrow> P a prev st"
    and cancel: "\<And>a prev st err. a \<le> rc_maxRetries (ds_client st) \<Longrightarrow> 0 < a \<Longrightarrow> ae_done (env (nat a)) = Some err \<Longrightarrow> P a prev st"
    and ok: "\<And>a prev st resp st1. a \<le> rc_maxRetries (ds_client st) \<Longrightarrow> a \<le> 0 \<or> ae_done (env (nat a)) = None \<Longrightarrow>
        one_attempt (env (nat a)) a st = (Inr resp, st1) \<Longrightarrow> rs_statusCode resp < 500 \<Longrightarrow> P a prev st"
    and retry: "\<And>a prev st r st1. a \<le> rc_maxRetries (ds_client st) \<Longrightarrow> a \<le> 0 \<or> ae_done (env (nat a)) = None \<Longrightarrow>
        one_attempt (env (nat a)) a st = (r, st1) \<Longrightarrow> failed r \<Longrightarrow>
        P (a + 1) (Some r) (on_cb (RecordFailure (ae_now (env (nat a)))) st1) \<Longrightarrow> P a prev st"
  shows "P a prev st"
proof (induction "nat (rc_maxRetries (ds_client st) + 1 - a)" arbitrary: a prev st rule: less_induct)
  case less
  obtain r st1 where at: "one_attempt (env (nat a)) a st = (r, st1)" by fastforce
  have IH: "P (a + 1) (Some r) (on_cb (RecordFailure (ae_now (env (nat a)))) st1)"
    if "a \<le> rc_maxRetries (ds_client st)"
    using that by (intro less) (simp add: one_attempt_state(1) [OF at])
  show ?case
  proof (cases "a \<le> rc_maxRetries (ds_client st) \<and> (a \<le> 0 \<or> ae_done (env (nat a)) = None)")
    case True
    with at IH ok retry show ?thesis
      by (cases r; cases "failed r") (auto simp: not_le)
  next
    case False
    show ?thesis
    proof (cases "a \<le> rc_maxRetries (ds_client st)")
      case True
      with False obtain err where "0 < a" "ae_done (env (nat a)) = Some err" by auto
      with True show ?thesis by (rule cancel)
    qed (simp add: stop)
  qed
qed

lemmas do_loop_eqs = do_loop_stop do_loop_done do_loop_ok do_loop_retry

section \<open>What a call does to the breaker\<close>

text \<open>
  Every attempt that fails, and a cancellation during a backoff, is one RecordFailure;
  a success is one RecordSuccess, the last call on the breaker.
\<close>

definition is_ok :: "do_result outcome \<Rightarrow> bool" where
  "is_ok res \<longleftrightarrow> (case res of Ret (DoOk _) \<Rightarrow> True | _ \<Rightarrow> False)"

lemma is_ok_simps [simp]: "is_ok (Ret (DoOk r))" "\<not> is_ok (Ret (DoErr x e))" "\<not> is_ok (Panic s)"
  "\<not> is_ok (after_loop n prev)"
  by (auto simp: is_ok_def after_loop_def split: option.splits sum.splits)

lemma do_loop_sent:
  "0 \<le> a \<Longrightarrow> a \<le> rc_maxRetries (ds_client st) + 1 \<Longrightarrow> do_loop env a prev st = (res, st') \<Longrightarrow>
   \<exists>ts. rc_cb (ds_client st') = (if is_ok res then RecordSuccess else id) (fold RecordFailure ts (rc_cb (ds_client st))) \<and>
     ds_sent st' \<le> ds_sent st + nat (rc_maxRetries (ds_client st) + 1 - a) \<and>
     ((\<forall>k > 0. ae_done (env k) = None) \<and> \<not> is_ok res \<longrightarrow>
        length ts = nat (rc_maxRetries (ds_client st) + 1 - a) \<and> ds_sent st' = ds_sent st + length ts)"
proof (induction a prev st rule: do_loop_induct [where env = env])
  case (stop a prev st)
  then show ?case by (intro exI [of _ "[]"]) (auto simp: do_loop_stop)
next
  case (cancel a prev st err)
  then show ?case
    by (intro exI [of _ "[ae_now (env (nat a))]"]) (auto simp: do_loop_done intro!: exI [of _ "nat a"])
next
  case (ok a prev st resp st1)
  then show ?case
    using one_attempt_state [OF ok(3)] by (intro exI [of _ "[]"]) (auto simp: do_loop_ok)
next
  case (retry a prev st r st1)
  let ?t = "ae_now (env (nat a))"
  note at = one_attempt_state [OF retry(3)]
  have "do_loop env (a + 1) (Some r) (on_cb (RecordFailure ?t) st1) = (res, st')"
    using retry by (simp add: do_loop_retry)
  then obtain ts where ts: "rc_cb (ds_client st') = (if is_ok res then RecordSuccess else id)
        (fold RecordFailure ts (RecordFailure ?t (rc_cb (ds_client st))))"
      "ds_sent st' \<le> Suc (ds_sent st) + nat (rc_maxRetries (ds_client st) - a)"
      "(\<forall>k > 0. ae_done (env k) = None) \<and> \<not> is_ok res \<longrightarrow>
        length ts = nat (rc_maxRetries (ds_client st) - a) \<and> ds_sent st' = Suc (ds_sent st) + length ts"
    using retry(1,5,6) at by auto
  with retry(1) show ?case by (intro exI [of _ "?t # ts"]) auto
qed

lemma do_loop_no_panic:
  "prev \<noteq> None \<or> a \<le> rc_maxRetries (ds_client st) \<Longrightarrow> no_panic (fst (do_loop env a prev st))"
  by (induction a prev st rule: do_loop_induct [where env = env])
    (auto simp: do_loop_eqs after_loop_def split: option.splits sum.splits)

lemma do_loop_ok_status:
  "fst (do_loop env a prev st) = Ret (DoOk resp) \<Longrightarrow> rs_statusCode resp < 500"
  by (induction a prev st rule: do_loop_induct [where env = env])
    (auto simp: do_loop_eqs after_loop_def split: option.splits sum.splits)

text \<open>A drained body: no later attempt can succeed.\<close>

lemma client_Do_drained:
  "length (rq_body req) < rq_contentLength req \<Longrightarrow> client_Do n req = (r, req') \<Longrightarrow>
   (\<exists>e. r = Inl e) \<and> length (rq_body req') < rq_contentLength req'"
  by (auto simp: client_Do_def split: net.splits)

lemma client_Do_drains:
  "client_Do n req = (r, req') \<Longrightarrow> (\<forall>e. n \<noteq> NetRefused e) \<Longrightarrow> rq_body req' = [] \<and> rq_contentLength req' = rq_contentLength req"
  by (auto simp: client_Do_def split: net.splits if_splits)

lemma do_loop_drained:
  "length (rq_body (ds_req st)) < rq_contentLength (ds_req st) \<Longrightarrow> \<not> is_ok (fst (do_loop env a prev st))"
proof (induction a prev st rule: do_loop_induct [where env = env])
  case (ok a prev st resp st1)
  with client_Do_drained [OF ok(5) one_attempt_state(3) [OF ok(3), symmetric]] show ?case by auto
next
  case (retry a prev st r st1)
  with client_Do_drained [OF retry(6) one_attempt_state(3) [OF retry(3), symmetric]] show ?case
    by (simp add: do_loop_retry)
qed (auto simp: do_loop_stop do_loop_done)

text \<open>The delays: the one before attempt \<open>k\<close> is the backoff of \<open>k\<close> with that attempt's jitter.\<close>

definition sleeps_ok :: "(nat \<Rightarrow> attempt_env) \<Rightarrow> duration \<Rightarrow> duration list \<Rightarrow> bool" where
  "sleeps_ok env base xs \<longleftrightarrow>
     (\<forall>i < length xs. xs ! i = backoff base (int i + 1) (ae_jitter (env (i + 1))))"

lemma sleeps_ok_simps [simp]:
  "sleeps_ok env base []"
  "sleeps_ok env base (xs @ [d]) \<longleftrightarrow>
     sleeps_ok env base xs \<and> d = backoff base (int (length xs) + 1) (ae_jitter (env (length xs + 1)))"
  by (auto simp: sleeps_ok_def nth_append less_Suc_eq)

lemma one_attempt_sleeps:
  assumes "one_attempt (env (nat a)) a st = (r, st1)" "0 \<le> a" "length (ds_sleeps st) = nat (a - 1)"
    "sleeps_ok env (rc_baseDelay (ds_client st)) (ds_sleeps st)"
  shows "length (ds_sleeps st1) = nat a \<and> sleeps_ok env (rc_baseDelay (ds_client st)) (ds_sleeps st1)"
proof (cases "0 < a")
  case True
  then have "int (nat (a - 1)) + 1 = a" "nat (a - 1) + 1 = nat a" by auto
  with True assms one_attempt_state(4) [OF assms(1)] show ?thesis by simp
qed (use assms one_attempt_state(4) [OF assms(1)] in auto)

lemma do_loop_sleeps:
  assumes "0 \<le> a" "length (ds_sleeps st) = nat (a - 1)"
    "sleeps_ok env (rc_baseDelay (ds_client st)) (ds_sleeps st)"
    "do_loop env a prev st = (res, st')" "a \<le> rc_maxRetries (ds_client st) + 1"
  shows "length (ds_sleeps st') \<le> nat (rc_maxRetries (ds_client st)) \<and>
    sleeps_ok env (rc_baseDelay (ds_client st)) (ds_sleeps st')"
  using assms
proof (induction a prev st rule: do_loop_induct [where env = env])
  case (retry a prev st r st1)
  note at = one_attempt_state(1) [OF retry(3)] one_attempt_sleeps [OF retry(3,6,7,8)]
  have "do_loop env (a + 1) (Some r) (on_cb (RecordFailure (ae_now (env (nat a)))) st1) = (res, st')"
    using retry(1-4) retry(9) by (simp add: do_loop_retry)
  then show ?case
    using retry(1,5,6) at by simp
next
  case (ok a prev st resp st1)
  then show ?case
    using one_attempt_state(1) [OF ok(3)] one_attempt_sleeps [OF ok(3,5,6,7)] do_loop_ok [of a st env resp st1 prev]
    by auto
qed (auto simp: do_loop_stop do_loop_done)

lemma backoff_bounds:
  assumes "0 \<le> base" "roll < 100" "1 \<le> k" "base * 2 ^ nat (k - 1) + 10 ^ 8 < 2 ^ 63" "k \<le> 62"
  shows "base * 2 ^ nat (k - 1) \<le> backoff base k roll \<and> backoff base k roll \<le> base * 2 ^ nat (k - 1) + 99 * Millisecond"
proof -
  define p where "p = (2::int) ^ nat (k - 1)"
  have "p \<le> 2 ^ 61" unfolding p_def using assms(5) by (intro power_increasing) auto
  moreover have "0 \<le> p" by (simp add: p_def)
  ultimately have "wrap64 p = p" by (intro wrap64_small) auto
  then have 1: "wrap64 (2 ^ nat (k - 1)) = 2 ^ nat (k - 1)" by (simp only: p_def)
  define q where "q = base * 2 ^ nat (k - 1)"
  have q: "0 \<le> q" "q + 10 ^ 8 < 2 ^ 63" using assms(1,4) by (simp_all add: q_def)
  then have "wrap64 q = q" by (intro wrap64_small) auto
  moreover have "wrap64 (int roll * Millisecond) = int roll * Millisecond"
    using assms(2) by (intro wrap64_small) (auto simp: Millisecond_def)
  moreover have "wrap64 (q + int roll * Millisecond) = q + int roll * Millisecond"
    using q assms(2) by (intro wrap64_small) (auto simp: Millisecond_def)
  ultimately have "backoff base k roll = q + int roll * Millisecond"
    by (simp add: backoff_def 1 flip: q_def)
  then show ?thesis
    using assms(2) by (simp add: Millisecond_def flip: q_def)
qed

section \<open>A whole call\<close>

lemma Do_blocked:
  "State (rc_cb rc) = StateOpen \<Longrightarrow> Sub now (cb_lastFailure (rc_cb rc)) \<le> cb_cooldown (rc_cb rc) \<Longrightarrow>
   Do now env req rc = (Ret (DoErr None (NewError ''circuit breaker is open - request blocked'')),
     \<lparr>ds_client = rc, ds_req = req, ds_sleeps = [], ds_sent = 0\<rparr>)"
  by (simp add: Do_def Allow_def State_def)

text \<open>A call that is let through: the loop from a breaker that is not open.\<close>

lemma Do_allowed:
  assumes "fst (Allow now (rc_cb rc))"
  shows "\<exists>st. Do now env req rc = do_loop env 0 None st \<and> ds_client st = rc\<lparr>rc_cb := snd (Allow now (rc_cb rc))\<rparr> \<and>
    ds_req st = req \<and> ds_sleeps st = [] \<and> ds_sent st = 0 \<and>
    cb_state (rc_cb (ds_client st)) \<noteq> StateOpen \<and> (cb_wf (rc_cb rc) \<longrightarrow> cb_wf (rc_cb (ds_client st)))"
  using assms cb_wf_Allow [of "rc_cb rc" now] by (auto simp: Do_def Allow_def split: if_splits)

lemma Do_cases [case_names blocked allowed]:
  assumes "\<not> fst (Allow now (rc_cb rc)) \<Longrightarrow> State (rc_cb rc) = StateOpen \<Longrightarrow>
      Do now env req rc = (Ret (DoErr None (NewError ''circuit breaker is open - request blocked'')),
        \<lparr>ds_client = rc, ds_req = req, ds_sleeps = [], ds_sent = 0\<rparr>) \<Longrightarrow> P"
    and "\<And>st. fst (Allow now (rc_cb rc)) \<Longrightarrow> Do now env req rc = do_loop env 0 None st \<Longrightarrow>
      ds_client st = rc\<lparr>rc_cb := snd (Allow now (rc_cb rc))\<rparr> \<Longrightarrow> ds_req st = req \<Longrightarrow> ds_sleeps st = [] \<Longrightarrow>
      ds_sent st = 0 \<Longrightarrow> cb_state (rc_cb (ds_client st)) \<noteq> StateOpen \<Longrightarrow>
      (cb_wf (rc_cb rc) \<longrightarrow> cb_wf (rc_cb (ds_client st))) \<Longrightarrow> P"
  shows P
proof (cases "fst (Allow now (rc_cb rc))")
  case True
  then show ?thesis using Do_allowed [OF True] assms(2) by blast
next
  case False
  then have "State (rc_cb rc) = StateOpen" "Sub now (cb_lastFailure (rc_cb rc)) \<le> cb_cooldown (rc_cb rc)"
    by (auto simp: Allow_def State_def split: if_splits)
  with False Do_blocked assms(1) show ?thesis by blast
qed

lemma RecordSuccess_closed: "cb_state (RecordSuccess cb) = StateClosed \<and> cb_failures (RecordSuccess cb) = 0"
  by (cases "cb_state cb") (auto simp: RecordSuccess_def)

lemma failures_open:
  assumes "cb_wf cb" "cb_state cb \<noteq> StateOpen" "ts \<noteq> []" "cb_threshold cb \<le> int (length ts)"
  shows "cb_state (fold RecordFailure ts cb) = StateOpen"
proof -
  have blocking: "\<exists>t'. fold spec_failure us (Blocking t) = Blocking t'" for us t
    by (induction us arbitrary: t) auto
  have "\<exists>t. fold spec_failure ts (breaker_of cb) = Blocking t"
  proof (cases "cb_state cb")
    case StateClosed
    with assms(1) have n: "0 < cb_threshold cb - cb_failures cb" "cb_threshold cb - cb_failures cb \<le> int (length ts)"
      using assms(4) by (auto simp: cb_wf_def)
    then show ?thesis using StateClosed by (simp add: breaker_of_def spec_failures_run)
  next
    case StateHalfOpen
    with assms(3) blocking show ?thesis by (cases ts) (auto simp: breaker_of_def)
  qed (use assms(2) in simp)
  with failures_refine [OF assms(1), of ts] show ?thesis by (simp add: breaker_of_open_iff)
qed

text \<open>A first attempt that was written and failed leaves nothing to retry with.\<close>

lemma drained_call_fails:
  assumes "body \<noteq> []" "ae_net (env 0) = NetLost e \<or> (ae_net (env 0) = NetResponse r \<and> 500 \<le> rs_statusCode r)"
  shows "\<not> is_ok (fst (Do now env (NewRequest method url body) rc))"
proof (cases rule: Do_cases [of now rc env "NewRequest method url body"])
  case (allowed st)
  obtain a st1 where at: "one_attempt (env 0) 0 st = (a, st1)" by fastforce
  note s = one_attempt_state [OF at]
  have drained: "length (rq_body (ds_req st1)) < rq_contentLength (ds_req st1)" and "failed a"
    using s(3) allowed(4) assms by (auto simp: NewRequest_def client_Do_def split: net.splits if_splits)
  show ?thesis
  proof (cases "0 \<le> rc_maxRetries (ds_client st)")
    case True
    have "do_loop env 0 None st = do_loop env 1 (Some a) (on_cb (RecordFailure (ae_now (env 0))) st1)"
      using do_loop_retry [of 0 st env a st1 None] True at \<open>failed a\<close> by simp
    with allowed(2) drained show ?thesis by (simp add: do_loop_drained)
  qed (use allowed(2) in \<open>simp add: do_loop_stop\<close>)
qed simp

text \<open>What a call does to its breaker: it asks once for permission, then tells it the outcomes.\<close>

fun is_allow :: "cb_op \<Rightarrow> bool" where
  "is_allow (OpAllow now r) = True"
| "is_allow _ = False"

lemma cb_run_failures: "cb_run cb (map OpFailure ts) (fold RecordFailure ts cb)"
  by (induction ts arbitrary: cb) auto

lemma Do_breaker:
  assumes "0 \<le> rc_maxRetries rc" "Do now env req rc = (res, st)"
  shows "\<exists>cops. cb_run (rc_cb rc) cops (rc_cb (ds_client st)) \<and> length (filter is_allow cops) = 1"
proof (cases rule: Do_cases [of now rc env req])
  case blocked
  then have "Allow now (rc_cb rc) = (False, rc_cb rc)" by (auto simp: Allow_def split: if_splits)
  with blocked assms(2) show ?thesis by (intro exI [of _ "[OpAllow now False]"]) auto
next
  case (allowed st0)
  then have "do_loop env 0 None st0 = (res, st)" "rc_maxRetries (ds_client st0) = rc_maxRetries rc" using assms(2) by simp_all
  with do_loop_sent [of 0 st0 env None res st] assms(1) obtain ts where
    ts: "rc_cb (ds_client st) = (if is_ok res then RecordSuccess else id) (fold RecordFailure ts (rc_cb (ds_client st0)))"
    by auto
  let ?cops = "OpAllow now True # map OpFailure ts @ (if is_ok res then [OpSuccess] else [])"
  have "Allow now (rc_cb rc) = (True, rc_cb (ds_client st0))" using allowed(1,3) by (cases "Allow now (rc_cb rc)") simp
  then have "cb_run (rc_cb rc) ?cops (rc_cb (ds_client st))" using cb_run_failures ts by (auto simp: run_append)
  moreover have "length (filter is_allow ?cops) = 1" by (simp add: filter_map comp_def)
  ultimately show ?thesis by blast
qed

section \<open>Properties\<close>

text \<open>
  C26: A call always ends with a result (it never dereferences a nil response), sends at most
  \<open>maxRetries + 1\<close> requests, and reports success only for a status below 500, in which case
  the breaker ends closed with no failure on record.
\<close>
theorem Do_bounded_and_sound:
  assumes "0 \<le> rc_maxRetries rc" "Do now env req rc = (res, st)"
  shows "no_panic res \<and> ds_sent st \<le> nat (rc_maxRetries rc) + 1 \<and>
    (\<forall>resp. res = Ret (DoOk resp) \<longrightarrow> rs_statusCode resp < 500 \<and>
       State (rc_cb (ds_client st)) = StateClosed \<and> cb_failures (rc_cb (ds_client st)) = 0)"
proof (cases rule: Do_cases [of now rc env req])
  case blocked
  with assms(2) show ?thesis by auto
next
  case (allowed st0)
  then have run: "do_loop env 0 None st0 = (res, st)" and m: "rc_maxRetries (ds_client st0) = rc_maxRetries rc"
    using assms(2) by simp_all
  have "no_panic res"
    using do_loop_no_panic [of None 0 st0 env] run m assms(1) by simp
  moreover have "rs_statusCode resp < 500" if "res = Ret (DoOk resp)" for resp
    using do_loop_ok_status [of env 0 None st0] run that by simp
  moreover obtain ts where "rc_cb (ds_client st) =
      (if is_ok res then RecordSuccess else id) (fold RecordFailure ts (rc_cb (ds_client st0)))"
    "ds_sent st \<le> ds_sent st0 + nat (rc_maxRetries (ds_client st0) + 1 - 0)"
    using do_loop_sent [OF _ _ run] m assms(1) by auto
  ultimately show ?thesis
    using allowed m assms(1) RecordSuccess_closed by (auto simp: State_def nat_add_distrib)
qed

theorem Do_bounded_and_sound_witness:
  "no_panic (fst (Do 0 (\<lambda>k. \<lparr>ae_jitter = 0, ae_done = None, ae_net = mock_net 250 7, ae_now = 1\<rparr>) (NewRequest ''POST'' ''u'' ''{}'')
     (NewResilientClient 250 3 5 2 20 False)))"
  using Do_bounded_and_sound [of "NewResilientClient 250 3 5 2 20 False" 0
      "\<lambda>k. \<lparr>ae_jitter = 0, ae_done = None, ae_net = mock_net 250 7, ae_now = 1\<rparr>" "NewRequest ''POST'' ''u'' ''{}''"]
  by (simp add: NewResilientClient_def) (metis prod.collapse)

text \<open>
  While the breaker is open and its cooldown has not passed, a call is refused at once:
  nothing is sent, nothing is slept, and neither the breaker nor the request is changed.
\<close>
theorem open_breaker_refuses_call:
  assumes "State (rc_cb rc) = StateOpen" "Sub now (cb_lastFailure (rc_cb rc)) \<le> cb_cooldown (rc_cb rc)"
  shows "Do now env req rc = (Ret (DoErr None (NewError ''circuit breaker is open - request blocked'')),
     \<lparr>ds_client = rc, ds_req = req, ds_sleeps = [], ds_sent = 0\<rparr>)"
  using assms by (rule Do_blocked)

theorem open_breaker_refuses_call_witness:
  "\<forall>env req. ds_sent (snd (Do 104 env req ((NewResilientClient 250 1 5 2 20 False)\<lparr>rc_cb := RecordFailure 100 (NewCircuitBreaker 1 5 False)\<rparr>))) = 0"
proof -
  let ?rc = "(NewResilientClient 250 1 5 2 20 False)\<lparr>rc_cb := RecordFailure 100 (NewCircuitBreaker 1 5 False)\<rparr>"
  have "State (rc_cb ?rc) = StateOpen" "Sub 104 (cb_lastFailure (rc_cb ?rc)) \<le> cb_cooldown (rc_cb ?rc)"
    by (simp_all add: cb_defs NewCircuitBreaker_def State_def wrap64_def Sub_def int64_min_def int64_max_def)
  from open_breaker_refuses_call [OF this] show ?thesis by simp
qed

text \<open>
  A call that uses up its retries always leaves the breaker open, when the threshold is at
  most the number of attempts of one call (as in every configuration of the program: threshold
  3, two retries). The failures are counted per attempt, so one failing request is enough to trip a
  closed breaker.
\<close>
theorem failed_call_opens_breaker:
  assumes "cb_wf (rc_cb rc)" "cb_threshold (rc_cb rc) \<le> rc_maxRetries rc + 1"
    and "\<forall>k > 0. ae_done (env k) = None" "Do now env req rc = (res, st)" "\<not> is_ok res"
  shows "State (rc_cb (ds_client st)) = StateOpen"
proof (cases rule: Do_cases [of now rc env req])
  case blocked
  with assms(4) show ?thesis by auto
next
  case (allowed st0)
  then have run: "do_loop env 0 None st0 = (res, st)" and m: "rc_maxRetries (ds_client st0) = rc_maxRetries rc"
    using assms(4) by simp_all
  have thr: "cb_threshold (rc_cb (ds_client st0)) = cb_threshold (rc_cb rc)"
    using allowed(3) by (simp add: Allow_def)
  have pos: "1 \<le> cb_threshold (rc_cb rc)" using assms(1) by (simp add: cb_wf_def)
  obtain ts where "rc_cb (ds_client st) = fold RecordFailure ts (rc_cb (ds_client st0))"
    "length ts = nat (rc_maxRetries rc + 1)"
    using do_loop_sent [OF _ _ run] m assms(2,3,5) pos by auto
  moreover from this(2) have "ts \<noteq> []" using assms(2) pos by auto
  ultimately show ?thesis using failures_open [of "rc_cb (ds_client st0)" ts] allowed thr pos assms(1,2)
    by (auto simp: State_def)
qed

theorem failed_call_opens_breaker_witness:
  "State (rc_cb (ds_client (snd (Do 0 (\<lambda>k. \<lparr>ae_jitter = 0, ae_done = None, ae_net = NetRefused Canceled, ae_now = 1\<rparr>)
     (NewRequest ''POST'' ''u'' ''{}'') (NewResilientClient 250 3 5 2 20 False))))) = StateOpen"
proof -
  let ?rc = "NewResilientClient 250 3 5 2 20 False"
  let ?env = "\<lambda>k. \<lparr>ae_jitter = 0, ae_done = None, ae_net = NetRefused Canceled, ae_now = 1\<rparr>"
  obtain res st where r: "Do 0 ?env (NewRequest ''POST'' ''u'' ''{}'') ?rc = (res, st)" by fastforce
  have "cb_wf (rc_cb ?rc)" "cb_threshold (rc_cb ?rc) \<le> rc_maxRetries ?rc + 1"
    by (simp_all add: NewResilientClient_def cb_wf_def NewCircuitBreaker_def is_int64_def int64_min_def int64_max_def)
  moreover have "\<not> is_ok res"
    using r by (auto simp: Do_def NewResilientClient_def Allow_def NewCircuitBreaker_def do_loop.simps one_attempt_def
        client_Do_def Clone_def Let_def on_cb_def after_loop_def)
  ultimately have "State (rc_cb (ds_client st)) = StateOpen"
    using failed_call_opens_breaker [OF _ _ _ r] by simp
  with r show ?thesis by simp
qed


text \<open>The network of the witness: a 503 first, then 200 for ever.\<close>

definition flaky_env :: "nat \<Rightarrow> attempt_env" where
  "flaky_env k = \<lparr>ae_jitter = 0, ae_done = None,
     ae_net = (if k = 0 then NetResponse \<lparr>rs_statusCode = 503, rs_status = ''503'', rs_body = []\<rparr>
               else NetResponse \<lparr>rs_statusCode = 200, rs_status = ''200 OK'', rs_body = []\<rparr>), ae_now = 1\<rparr>"


text \<open>
  The backoff is exponential with a jitter below 100 ms: the delay before attempt \<open>i + 1\<close>
  lies between \<open>baseDelay * 2 ^ i\<close> and that plus 99 ms, as long as the largest such delay fits an int64
  duration, and there are at most \<open>maxRetries\<close> delays.
\<close>
theorem backoff_is_exponential:
  assumes "0 \<le> rc_baseDelay rc" "0 \<le> rc_maxRetries rc" "rc_maxRetries rc \<le> 62" "\<forall>k. ae_jitter (env k) < 100"
    and "rc_baseDelay rc * 2 ^ nat (rc_maxRetries rc) + 10 ^ 8 < 2 ^ 63"
    and "Do now env req rc = (res, st)"
  shows "length (ds_sleeps st) \<le> nat (rc_maxRetries rc) \<and>
    (\<forall>i < length (ds_sleeps st). rc_baseDelay rc * 2 ^ i \<le> ds_sleeps st ! i \<and>
       ds_sleeps st ! i \<le> rc_baseDelay rc * 2 ^ i + 99 * Millisecond)"
proof (cases rule: Do_cases [of now rc env req])
  case blocked
  with assms(6) show ?thesis by auto
next
  case (allowed st0)
  then have c: "rc_maxRetries (ds_client st0) = rc_maxRetries rc" "rc_baseDelay (ds_client st0) = rc_baseDelay rc"
    and run: "do_loop env 0 None st0 = (res, st)"
    using assms(6) by simp_all
  have s: "length (ds_sleeps st) \<le> nat (rc_maxRetries rc)" "sleeps_ok env (rc_baseDelay rc) (ds_sleeps st)"
    using do_loop_sleeps [OF _ _ _ run] allowed(5) c assms(2) by simp_all
  have "rc_baseDelay rc * 2 ^ i \<le> ds_sleeps st ! i \<and> ds_sleeps st ! i \<le> rc_baseDelay rc * 2 ^ i + 99 * Millisecond"
    if i: "i < length (ds_sleeps st)" for i
  proof -
    have "i \<le> nat (rc_maxRetries rc)" "int i + 1 \<le> 62" using i s(1) assms(2,3) by linarith+
    then have "(2::int) ^ i \<le> 2 ^ nat (rc_maxRetries rc)" by (intro power_increasing) auto
    then have "rc_baseDelay rc * 2 ^ i \<le> rc_baseDelay rc * 2 ^ nat (rc_maxRetries rc)"
      using assms(1) by (rule mult_left_mono)
    with assms(5) have "rc_baseDelay rc * 2 ^ i + 10 ^ 8 < 2 ^ 63" by linarith
    with backoff_bounds [of "rc_baseDelay rc" "ae_jitter (env (i + 1))" "int i + 1"] assms(1,4) \<open>int i + 1 \<le> 62\<close>
    show ?thesis using s(2) i by (simp add: sleeps_ok_def)
  qed
  with s(1) show ?thesis by blast
qed

theorem backoff_is_exponential_witness:
  "length (ds_sleeps (snd (Do 0 flaky_env (NewRequest ''POST'' ''u'' ''{}'') (NewResilientClient 250 3 5 2 (20 * Millisecond) False)))) \<le> 2"
proof -
  let ?rc = "NewResilientClient 250 3 5 2 (20 * Millisecond) False"
  obtain res st where r: "Do 0 flaky_env (NewRequest ''POST'' ''u'' ''{}'') ?rc = (res, st)" by fastforce
  show ?thesis
    using backoff_is_exponential [OF _ _ _ _ _ r] r
    by (simp add: NewResilientClient_def flaky_env_def Millisecond_def)
qed

lemma mock_net_simps:
  assumes "timeout < 3 * Second" "0 \<le> timeout"
  shows "roll < 5 \<Longrightarrow> mock_net timeout roll = NetLost DeadlineExceeded"
    "5 \<le> roll \<Longrightarrow> roll < 20 \<Longrightarrow> \<exists>r. mock_net timeout roll = NetResponse r \<and> rs_statusCode r = 503"
    "20 \<le> roll \<Longrightarrow> \<exists>r. mock_net timeout roll = NetResponse r \<and> rs_statusCode r = 200"
  using assms by (simp_all add: mock_net_def MockCRM_def)

text \<open>
  Against the mock CRM server a call that is let through succeeds exactly when its first
  attempt rolls 20 or more, 80 of the 100 values: the retries do not improve the success rate, whatever
  the later rolls are.
\<close>
theorem mock_crm_call_succeeds_iff_first_roll:
  assumes "body \<noteq> []" "0 \<le> timeout" "timeout < 3 * Second" "0 \<le> rc_maxRetries rc" "fst (Allow now (rc_cb rc))"
    and "\<forall>k. ae_net (env k) = mock_net timeout (rolls k)"
  shows "is_ok (fst (Do now env (NewRequest method url body) rc)) \<longleftrightarrow> 20 \<le> rolls 0"
proof
  assume ok: "is_ok (fst (Do now env (NewRequest method url body) rc))"
  show "20 \<le> rolls 0"
  proof (rule ccontr)
    assume "\<not> 20 \<le> rolls 0"
    then consider "rolls 0 < 5" | "5 \<le> rolls 0" "rolls 0 < 20" by linarith
    then obtain e r where
      "ae_net (env 0) = NetLost e \<or> (ae_net (env 0) = NetResponse r \<and> 500 \<le> rs_statusCode r)"
      using mock_net_simps(1,2) [OF assms(3,2)] assms(6) by cases fastforce+
    then have "\<not> is_ok (fst (Do now env (NewRequest method url body) rc))"
      by (rule drained_call_fails [OF assms(1)])
    with ok show False by simp
  qed
next
  assume "20 \<le> rolls 0"
  then obtain r where r: "ae_net (env 0) = NetResponse r" "rs_statusCode r = 200"
    using mock_net_simps(3) [OF assms(3,2)] assms(6) by fastforce
  obtain st where st: "Do now env (NewRequest method url body) rc = do_loop env 0 None st"
    "ds_client st = rc\<lparr>rc_cb := snd (Allow now (rc_cb rc))\<rparr>" "ds_req st = NewRequest method url body"
    using Do_allowed [OF assms(5)] by blast
  obtain a st1 where at: "one_attempt (env 0) 0 st = (a, st1)" by fastforce
  with one_attempt_state(3) [OF at] st(3) r have "a = Inr r"
    by (simp add: client_Do_def NewRequest_def)
  with at st r assms(4) show "is_ok (fst (Do now env (NewRequest method url body) rc))"
    by (simp add: do_loop_ok [of 0 st env r st1])
qed

definition mock_env :: "nat \<Rightarrow> attempt_env" where
  "mock_env k = \<lparr>ae_jitter = 0, ae_done = None, ae_net = mock_net (250 * Millisecond) (if k = 0 then 7 else 50), ae_now = 1\<rparr>"

theorem mock_crm_call_succeeds_iff_first_roll_witness:
  "\<not> is_ok (fst (Do 0 mock_env (NewRequest ''POST'' ''u'' ''{}'')
     (NewResilientClient (250 * Millisecond) 3 (5 * Second) 2 (20 * Millisecond) True)))"
  using mock_crm_call_succeeds_iff_first_roll [of "''{}''" "250 * Millisecond"
      "NewResilientClient (250 * Millisecond) 3 (5 * Second) 2 (20 * Millisecond) True" 0 mock_env
      "\<lambda>k. if k = 0 then 7 else 50"]
  by (simp add: NewResilientClient_def mock_env_def Allow_def NewCircuitBreaker_def Second_def Millisecond_def)

end
