(* ===== verification/MarketingRepo.thy ===== *)
theory MarketingRepo
  imports Prelude
begin

text \<open>
  \<^verbatim>\<open>pkg/domain/marketing/models.go\<close>, \<^verbatim>\<open>memory.go\<close> and the contract of \<^verbatim>\<open>repository.go\<close>: the CRM
  contacts and the privacy log. Contacts and logs have a lock each, and every method holds one
  for its whole body. The stored pointers are to values nobody changes after saving.
\<close>

section \<open>The models\<close>

record crm_contact =
  cc_UserID :: string
  cc_Email :: string
  cc_WorkflowTriggered :: string
  cc_SyncStatus :: string
  cc_SyncedAt :: time
  cc_RetryCount :: int

record privacy_log =
  pl_LogID :: string
  pl_UserID :: string
  pl_Action :: string
  pl_Timestamp :: time

section \<open>The memory repository\<close>

record memory_marketing_repo =
  mr_crm :: "string \<rightharpoonup> crm_contact"
  mr_privacy :: "string \<rightharpoonup> privacy_log list"

definition NewMemoryMarketingRepository :: memory_marketing_repo where
  "NewMemoryMarketingRepository = \<lparr>mr_crm = Map.empty, mr_privacy = Map.empty\<rparr>"

definition SaveCRMContact :: "crm_contact \<Rightarrow> memory_marketing_repo \<Rightarrow> go_error option \<times> memory_marketing_repo" where
  "SaveCRMContact contact m = (None, m\<lparr>mr_crm := (mr_crm m)(cc_UserID contact \<mapsto> contact)\<rparr>)"

definition GetCRMContact :: "string \<Rightarrow> memory_marketing_repo \<Rightarrow> go_error + crm_contact" where
  "GetCRMContact userID m =
     (case mr_crm m userID of None \<Rightarrow> Inl (NewError ''crm contact not found'') | Some c \<Rightarrow> Inr c)"

definition DeleteCRMContact :: "string \<Rightarrow> memory_marketing_repo \<Rightarrow> go_error option \<times> memory_marketing_repo" where
  "DeleteCRMContact userID m = (None, m\<lparr>mr_crm := (mr_crm m)(userID := None)\<rparr>)"

definition SavePrivacyLog :: "privacy_log \<Rightarrow> memory_marketing_repo \<Rightarrow> go_error option \<times> memory_marketing_repo" where
  "SavePrivacyLog l m =
     (None, m\<lparr>mr_privacy := (mr_privacy m)(pl_UserID l \<mapsto> slice_at (mr_privacy m) (pl_UserID l) @ [l])\<rparr>)"

definition GetPrivacyLogsByUserID :: "string \<Rightarrow> memory_marketing_repo \<Rightarrow> go_error + privacy_log list" where
  "GetPrivacyLogsByUserID userID m =
     (case mr_privacy m userID of None \<Rightarrow> Inr [] | Some logs \<Rightarrow> Inr logs)"

section \<open>The contract of a repository\<close>

text \<open>
  What the service relies on: one contact per user, the last one saved; a deletion removes the
  user's contact only; the log only grows, and contacts and log do not touch each other.
\<close>

locale marketing_store =
  fixes save :: "crm_contact \<Rightarrow> 's \<Rightarrow> go_error option \<times> 's"
    and contact :: "string \<Rightarrow> 's \<Rightarrow> crm_contact option"
    and delete :: "string \<Rightarrow> 's \<Rightarrow> go_error option \<times> 's"
    and log :: "privacy_log \<Rightarrow> 's \<Rightarrow> go_error option \<times> 's"
    and logs :: "string \<Rightarrow> 's \<Rightarrow> privacy_log list"
  assumes save_contact: "save c s = (None, s') \<Longrightarrow> contact u s' = (if u = cc_UserID c then Some c else contact u s)"
    and delete_contact: "delete u s = (None, s') \<Longrightarrow> contact u' s' = (if u' = u then None else contact u' s)"
    and log_contact: "contact u (snd (log l s)) = contact u s"
    and log_logs: "log l s = (None, s') \<Longrightarrow> logs u s' = (if u = pl_UserID l then logs u s @ [l] else logs u s)"
    and save_logs: "logs u (snd (save c s)) = logs u s"
    and delete_logs: "logs u (snd (delete v s)) = logs u s"
begin

text \<open>A purge with its audit entry: the contact is gone, the entry is there, no other user is touched.\<close>

lemma purge_and_log:
  assumes "delete u s = (None, s1)" "log l s1 = (None, s2)"
  shows "contact u s2 = None \<and> (\<forall>u'. u' \<noteq> u \<longrightarrow> contact u' s2 = contact u' s) \<and>
    logs (pl_UserID l) s2 = logs (pl_UserID l) s @ [l] \<and> (\<forall>v. v \<noteq> pl_UserID l \<longrightarrow> logs v s2 = logs v s)"
  using delete_contact [OF assms(1)] log_contact [of _ l s1] log_logs [OF assms(2)] delete_logs [of _ u s] assms
  by simp

end

definition repo_contact :: "string \<Rightarrow> memory_marketing_repo \<Rightarrow> crm_contact option" where
  "repo_contact u m = (case GetCRMContact u m of Inl e \<Rightarrow> None | Inr c \<Rightarrow> Some c)"

definition repo_logs :: "string \<Rightarrow> memory_marketing_repo \<Rightarrow> privacy_log list" where
  "repo_logs u m = (case GetPrivacyLogsByUserID u m of Inl e \<Rightarrow> [] | Inr ls \<Rightarrow> ls)"

lemma repo_contact_eq [simp]: "repo_contact u m = mr_crm m u"
  by (simp add: repo_contact_def GetCRMContact_def split: option.splits)

lemma repo_logs_eq [simp]: "repo_logs u m = slice_at (mr_privacy m) u"
  by (simp add: repo_logs_def GetPrivacyLogsByUserID_def slice_at_def split: option.splits)

lemma slice_at_map_upd: "slice_at (m(k \<mapsto> vs)) k' = (if k' = k then vs else slice_at m k')"
  by (simp add: slice_at_def)

interpretation memory_marketing: marketing_store SaveCRMContact repo_contact DeleteCRMContact SavePrivacyLog repo_logs
  by unfold_locales
    (auto simp: SaveCRMContact_def DeleteCRMContact_def SavePrivacyLog_def slice_at_map_upd)

end
