(* ===== verification/HttpCrm.thy ===== *)
theory HttpCrm
  imports ResilientClient MarketingRepo Events
begin

text \<open>
  \<^verbatim>\<open>pkg/domain/marketing/http_crm.go\<close>: the adapter that sends a contact to the CRM. Two
  things of the surroundings are arguments: \<open>show_time\<close>, the RFC 3339 text of an instant in the
  zone of the process, and \<open>marshal\<close>, the bytes \<^verbatim>\<open>encoding/json\<close> writes for a document. A URL
  that does not parse is an error of the request (\<open>url_error\<close>).
\<close>

definition contact_document :: "(time \<Rightarrow> string) \<Rightarrow> crm_contact \<Rightarrow> json" where
  "contact_document show_time c = JObj
     [(''user_id'', JStr (cc_UserID c)), (''email'', JStr (cc_Email c)),
      (''workflow_triggered'', JStr (cc_WorkflowTriggered c)), (''sync_status'', JStr (cc_SyncStatus c)),
      (''synced_at'', JStr (show_time (cc_SyncedAt c))), (''retry_count'', JNum (of_int (cc_RetryCount c)))]"

record http_crm_adapter =
  ha_crmURL :: string
  ha_crmClient :: resilient_client

definition NewHTTPCRMAdapter :: "string \<Rightarrow> resilient_client \<Rightarrow> http_crm_adapter" where
  "NewHTTPCRMAdapter crmURL client = \<lparr>ha_crmURL = crmURL, ha_crmClient = client\<rparr>"

record crm_env =
  ce_show_time :: "time \<Rightarrow> string"
  ce_marshal :: "json \<Rightarrow> string"
  ce_url_error :: "string \<Rightarrow> go_error option"

definition SyncContact ::
  "crm_env \<Rightarrow> time \<Rightarrow> (nat \<Rightarrow> attempt_env) \<Rightarrow> crm_contact \<Rightarrow> http_crm_adapter \<Rightarrow>
   (go_error option \<times> http_crm_adapter) outcome" where
  "SyncContact ce now env contact h =
     (let payload = ce_marshal ce (contact_document (ce_show_time ce) contact) in
      case ce_url_error ce (ha_crmURL h) of
        Some err \<Rightarrow> Ret (Some err, h)
      | None \<Rightarrow>
          let req = (NewRequest ''POST'' (ha_crmURL h) payload)\<lparr>rq_contentType := ''application/json''\<rparr>;
              (res, st) = Do now env req (ha_crmClient h);
              h' = h\<lparr>ha_crmClient := ds_client st\<rparr> in
          case res of
            Panic m \<Rightarrow> Panic m
          | Ret (DoErr resp err) \<Rightarrow> Ret (Some err, h')
          | Ret (DoOk resp) \<Rightarrow>
              if rs_statusCode resp \<noteq> 200 then
                Ret (Some (NewError (''unexpected status code '' @ show_int (rs_statusCode resp) @ '': '' @ rs_body resp)), h')
              else Ret (None, h'))"

section \<open>What a success means\<close>

text \<open>
  A call of a request with a body succeeds on attempt \<open>k\<close> only if the server answered that
  attempt and nothing of the request had been written before.
\<close>

lemma client_Do_fresh:
  assumes "client_Do n req = (r, req')" "length (rq_body req) = rq_contentLength req" "rq_body req \<noteq> []"
  shows "(\<exists>e. n = NetRefused e \<and> r = Inl e \<and> req' = req) \<or>
    (\<exists>resp. n = NetResponse resp \<and> r = Inr resp \<and> length (rq_body req') < rq_contentLength req') \<or>
    (\<exists>e. n = NetLost e \<and> r = Inl e \<and> length (rq_body req') < rq_contentLength req')"
proof -
  have "0 < rq_contentLength req" using assms(2,3) by (cases "rq_body req") auto
  with assms(1,2) show ?thesis by (auto simp: client_Do_def split: net.splits)
qed

lemma do_loop_success_cause:
  "fst (do_loop env a prev st) = Ret (DoOk resp) \<Longrightarrow> 0 \<le> a \<Longrightarrow>
   length (rq_body (ds_req st)) = rq_contentLength (ds_req st) \<Longrightarrow> rq_body (ds_req st) \<noteq> [] \<Longrightarrow>
   \<exists>k \<ge> nat a. ae_net (env k) = NetResponse resp \<and> (\<forall>j. nat a \<le> j \<and> j < k \<longrightarrow> (\<exists>e. ae_net (env j) = NetRefused e))"
proof (induction a prev st rule: do_loop_induct [where env = env])
  case (ok a prev st r st1)
  note s = one_attempt_state(3) [OF ok(3), symmetric]
  have "ae_net (env (nat a)) = NetResponse r"
    using client_Do_fresh [OF s ok(7,8)] by auto
  moreover have "resp = r" using ok(5) do_loop_ok [of a st env r st1 prev] ok(1-4) by simp
  ultimately show ?case by (intro exI [of _ "nat a"]) auto
next
  case (retry a prev st r st1)
  let ?st = "on_cb (RecordFailure (ae_now (env (nat a)))) st1"
  note s = one_attempt_state(3) [OF retry(3), symmetric]
  have run: "fst (do_loop env (a + 1) (Some r) ?st) = Ret (DoOk resp)"
    using retry(6) do_loop_retry [of a st env r st1 prev] retry(1-4) by simp
  then have "\<not> length (rq_body (ds_req ?st)) < rq_contentLength (ds_req ?st)"
    using do_loop_drained [of ?st env "a + 1" "Some r"] by (auto simp: is_ok_def)
  then obtain e where e: "ae_net (env (nat a)) = NetRefused e" "ds_req st1 = ds_req st"
    using client_Do_fresh [OF s retry(8,9)] by auto
  then obtain k where k: "nat (a + 1) \<le> k" "ae_net (env k) = NetResponse resp"
    "\<forall>j. nat (a + 1) \<le> j \<and> j < k \<longrightarrow> (\<exists>e. ae_net (env j) = NetRefused e)"
    using retry(5) [OF run] retry(7-9) by auto
  have "\<exists>e. ae_net (env j) = NetRefused e" if "nat a \<le> j" "j < k" for j
    using that e(1) k(3) retry(7) by (cases "j = nat a") (auto simp: nat_add_distrib)
  with k retry(7) show ?case by (intro exI [of _ k]) (auto simp: nat_add_distrib)
qed (auto simp: do_loop_stop do_loop_done after_loop_def split: option.splits sum.splits)

lemma Do_success_cause:
  assumes "fst (Do now env req rc) = Ret (DoOk resp)" "length (rq_body req) = rq_contentLength req" "rq_body req \<noteq> []"
  shows "\<exists>k. ae_net (env k) = NetResponse resp \<and> (\<forall>j < k. \<exists>e. ae_net (env j) = NetRefused e)"
proof (cases rule: Do_cases [of now rc env req])
  case blocked
  with assms show ?thesis by simp
next
  case (allowed st)
  with assms do_loop_success_cause [of env 0 None st resp] show ?thesis by auto
qed

lemma Do_no_panic: "0 \<le> rc_maxRetries rc \<Longrightarrow> no_panic (fst (Do now env req rc))"
  by (cases rule: Do_cases [of now rc env req]) (auto intro!: do_loop_no_panic)

lemma SyncContact_no_panic:
  "0 \<le> rc_maxRetries (ha_crmClient h) \<Longrightarrow> no_panic (SyncContact ce now env contact h)"
proof (cases "ce_url_error ce (ha_crmURL h)")
  case None
  let ?req = "(NewRequest ''POST'' (ha_crmURL h)
    (ce_marshal ce (contact_document (ce_show_time ce) contact)))\<lparr>rq_contentType := ''application/json''\<rparr>"
  assume "0 \<le> rc_maxRetries (ha_crmClient h)"
  then have "no_panic (fst (Do now env ?req (ha_crmClient h)))" by (rule Do_no_panic)
  moreover obtain res st where "Do now env ?req (ha_crmClient h) = (res, st)" by fastforce
  ultimately show ?thesis
    using None by (auto simp: SyncContact_def Let_def split: outcome.splits do_result.splits)
qed (simp add: SyncContact_def Let_def)

section \<open>Properties\<close>


definition sample_crm_env :: crm_env where
  "sample_crm_env = \<lparr>ce_show_time = (\<lambda>t. ''1970-01-01T00:00:00Z''), ce_marshal = (\<lambda>j. ''{}''), ce_url_error = (\<lambda>u. None)\<rparr>"

definition sample_contact :: crm_contact where
  "sample_contact = \<lparr>cc_UserID = ''u'', cc_Email = ''u@example.com'', cc_WorkflowTriggered = ''w'',
     cc_SyncStatus = ''pending'', cc_SyncedAt = 5, cc_RetryCount = 0\<rparr>"

text \<open>A network that refuses the first connection and then answers 200.\<close>

definition late_env :: "nat \<Rightarrow> attempt_env" where
  "late_env k = \<lparr>ae_jitter = 0, ae_done = None,
     ae_net = (if k = 0 then NetRefused (NewError ''connection refused'')
               else NetResponse \<lparr>rs_statusCode = 200, rs_status = ''200 OK'', rs_body = []\<rparr>), ae_now = 1\<rparr>"


end
