(* ===== verification/MarketingService.thy ===== *)
theory MarketingService
  imports HttpCrm Worker Tracker
begin

text \<open>
  \<^verbatim>\<open>pkg/domain/marketing/service.go\<close>: which workflow an event triggers, the contact that is
  sent to the CRM, and the worker that consumes the screened events. The service holds its
  broker, repository, tracker and adapter by interface, so their operations on the state \<open>'w\<close> of
  the program are arguments.
\<close>

section \<open>The workflow of an event\<close>

text \<open>The \<^verbatim>\<open>switch\<close> on the event type; \<^const>\<open>None\<close> is its early return.\<close>

definition workflow_of :: "string \<Rightarrow> string option" where
  "workflow_of eventType =
     (if eventType = ''signup'' then Some ''Welcome & Onboarding Campaign''
      else if eventType = ''checkout_completed'' then Some ''Loyalty Rewards Activation''
      else if eventType = ''cart_abandoned'' then Some ''Recovery Email Sequence''
      else None)"

definition email_of :: "tracking_event \<Rightarrow> string" where
  "email_of event =
     (let email = UserID event @ ''@example.com'' in
      case map_get (Payload event) ''email'' of
        Some (JStr emailStr) \<Rightarrow> if emailStr \<noteq> [] then emailStr else email
      | _ \<Rightarrow> email)"

definition new_contact :: "time \<Rightarrow> string \<Rightarrow> tracking_event \<Rightarrow> crm_contact" where
  "new_contact now workflow event =
     \<lparr>cc_UserID = UserID event, cc_Email = email_of event, cc_WorkflowTriggered = workflow,
      cc_SyncStatus = ''pending'', cc_SyncedAt = now, cc_RetryCount = 0\<rparr>"

type_synonym 'w sync_contact = "crm_contact \<Rightarrow> 'w \<Rightarrow> (go_error option \<times> 'w) outcome"
type_synonym 'w save_contact = "crm_contact \<Rightarrow> 'w \<Rightarrow> go_error option \<times> 'w"

definition ProcessMarketingWorkflow ::
  "(string \<Rightarrow> int \<Rightarrow> 'w \<Rightarrow> 'w) \<Rightarrow> 'w sync_contact \<Rightarrow> 'w save_contact \<Rightarrow> time \<Rightarrow> screened_event \<Rightarrow> 'w \<Rightarrow> 'w outcome" where
  "ProcessMarketingWorkflow increment sync save now event w =
     (case workflow_of (EventType (Tracking event)) of
        None \<Rightarrow> Ret w
      | Some workflow \<Rightarrow>
          let contact = new_contact now workflow (Tracking event);
              w1 = increment ''crm_attempts'' 1 w in
          (case sync contact w1 of
             Panic m \<Rightarrow> Panic m
           | Ret (Some err, w2) \<Rightarrow>
               Ret (snd (save (contact\<lparr>cc_SyncStatus := ''failed''\<rparr>) (increment ''crm_failures'' 1 w2)))
           | Ret (None, w2) \<Rightarrow>
               Ret (snd (save (contact\<lparr>cc_SyncStatus := ''synced''\<rparr>) (increment ''crm_successes'' 1 w2)))))"

section \<open>The worker\<close>

definition StartConsumer ::
  "('w \<Rightarrow> (go_error + nat) \<times> 'w) \<Rightarrow> (nat \<Rightarrow> 'w \<Rightarrow> screened_event received \<times> 'w) \<Rightarrow>
   (string \<Rightarrow> int \<Rightarrow> 'w \<Rightarrow> 'w) \<Rightarrow> (turn \<Rightarrow> 'w sync_contact) \<Rightarrow> 'w save_contact \<Rightarrow> turn list \<Rightarrow> 'w \<Rightarrow> 'w worker_result" where
  "StartConsumer subscribe recv increment sync save turns w =
     (case subscribe w of
        (Inl err, w1) \<Rightarrow> Returned (Some err) w1
      | (Inr ch, w1) \<Rightarrow>
          consume (recv ch)
            (\<lambda>t event w. if IsFraudulent event then Ret w
               else ProcessMarketingWorkflow increment (sync t) save (tn_clock t 0) event w) turns w1)"

section \<open>The counters of a workflow\<close>

text \<open>
  The contract of the service's surroundings: a tracker, and an adapter and a repository that
  do not touch its counters.
\<close>

locale workflow_ports = telemetry increment read
  for increment :: "string \<Rightarrow> int \<Rightarrow> 'w \<Rightarrow> 'w" and read :: "string \<Rightarrow> 'w \<Rightarrow> int" +
  fixes sync :: "'w sync_contact" and save :: "'w save_contact"
  assumes sync_counters: "sync c w = Ret (r, w') \<Longrightarrow> read name w' = read name w"
    and save_counters: "read name (snd (save c w)) = read name w"
begin

lemma counts:
  assumes "ProcessMarketingWorkflow increment sync save now event w = Ret w'" "workflow_of (EventType (Tracking event)) \<noteq> None"
  shows "read ''crm_attempts'' w' = wrap64 (read ''crm_attempts'' w + 1) \<and>
    (read ''crm_successes'' w' = wrap64 (read ''crm_successes'' w + 1) \<and> read ''crm_failures'' w' = read ''crm_failures'' w \<or>
     read ''crm_failures'' w' = wrap64 (read ''crm_failures'' w + 1) \<and> read ''crm_successes'' w' = read ''crm_successes'' w)"
proof -
  have names: "''crm_attempts'' \<in> set metric_names" "''crm_successes'' \<in> set metric_names" "''crm_failures'' \<in> set metric_names"
    by (simp_all add: metric_names_def)
  obtain workflow where wf: "workflow_of (EventType (Tracking event)) = Some workflow" using assms(2) by blast
  let ?c = "new_contact now workflow (Tracking event)"
  obtain r w2 where s: "sync ?c (increment ''crm_attempts'' 1 w) = Ret (r, w2)"
    using assms(1) wf by (auto simp: ProcessMarketingWorkflow_def Let_def split: outcome.splits)
  with assms(1) wf show ?thesis
    by (cases r) (auto simp: ProcessMarketingWorkflow_def Let_def save_counters counted names others
        sync_counters [OF s])
qed

end

end
