(* ===== verification/EventsJson.thy ===== *)
theory EventsJson
  imports Events "HOL-Library.Char_ord" "HOL-Library.List_Lexorder" "HOL-Library.Multiset"
begin

text \<open>
  The JSON documents of the integration events of \<^verbatim>\<open>pkg/broker/events.go\<close>: what
  \<^verbatim>\<open>json.Marshal\<close> makes of them, what decoding makes of a screened event, and that an event
  which is written and read back is the same but for the order of the keys of its payload.
  \<open>show_time\<close> is the text of an instant in the location it carries, which is not part of \<^typ>\<open>time\<close>.
\<close>

section \<open>Writing\<close>

text \<open>Values as \<^verbatim>\<open>encoding/json\<close> writes them: the keys of a map in increasing order.\<close>

fun encode_any :: "json \<Rightarrow> json" and encode_all :: "json list \<Rightarrow> json list"
  and encode_members :: "(string \<times> json) list \<Rightarrow> (string \<times> json) list" where
  "encode_any (JArr xs) = JArr (encode_all xs)"
| "encode_any (JObj kvs) = JObj (sort_key fst (encode_members kvs))"
| "encode_any v = v"
| "encode_all [] = []"
| "encode_all (x # xs) = encode_any x # encode_all xs"
| "encode_members [] = []"
| "encode_members ((k, v) # kvs) = (k, encode_any v) # encode_members kvs"

definition encode_payload :: "(string, json) go_map \<Rightarrow> json" where
  "encode_payload m = (case m of None \<Rightarrow> JNull | Some al \<Rightarrow> encode_any (JObj al))"

definition tracking_members :: "(time \<Rightarrow> string) \<Rightarrow> tracking_event \<Rightarrow> (string \<times> json) list" where
  "tracking_members show_time e =
     [(''event_id'', JStr (EventID e)), (''user_id'', JStr (UserID e)), (''event_type'', JStr (EventType e)),
      (''ip_address'', JStr (IPAddress e)), (''user_agent'', JStr (UserAgent e)),
      (''payload'', encode_payload (Payload e)), (''timestamp'', JStr (show_time (Timestamp e))),
      (''gdpr_consent'', JBool (GDPRConsent e))]"

definition encode_screened_event :: "(time \<Rightarrow> string) \<Rightarrow> screened_event \<Rightarrow> json" where
  "encode_screened_event show_time e = JObj (tracking_members show_time (Tracking e) @
     [(''is_fraudulent'', JBool (IsFraudulent e)), (''fraud_score'', JNum (FraudScore e)),
      (''fraud_reason'', JStr (FraudReason e)), (''screened_at'', JStr (show_time (ScreenedAt e)))])"

definition encode_tracking_event :: "(time \<Rightarrow> string) \<Rightarrow> tracking_event \<Rightarrow> json" where
  "encode_tracking_event show_time e = JObj (tracking_members show_time e)"

section \<open>Reading a screened event\<close>

text \<open>The fields of the embedded struct are promoted: their members are the outer struct's.\<close>

definition screened_fields :: "screened_event field list" where
  "screened_fields =
     map (\<lambda>(n, f). (n, \<lambda>v s. map_option (\<lambda>t. s\<lparr>Tracking := t\<rparr>) (f v (Tracking s)))) tracking_fields @
     [(''is_fraudulent'', decode_bool (\<lambda>x. IsFraudulent_update (\<lambda>_. x))),
      (''fraud_score'', decode_float (\<lambda>x. FraudScore_update (\<lambda>_. x))),
      (''fraud_reason'', decode_string (\<lambda>x. FraudReason_update (\<lambda>_. x))),
      (''screened_at'', decode_time (\<lambda>x. ScreenedAt_update (\<lambda>_. x)))]"

definition zero_screened_event :: screened_event where
  "zero_screened_event =
     \<lparr>Tracking = zero_tracking_event, IsFraudulent = False, FraudScore = 0, FraudReason = [], ScreenedAt = 0\<rparr>"

definition decode_screened_event :: "json \<Rightarrow> screened_event option" where
  "decode_screened_event doc = decode_struct screened_fields doc zero_screened_event"

section \<open>Values of type interface\<close>

text \<open>What an \<^verbatim>\<open>interface{}\<close> that was decoded from JSON can hold.\<close>

fun go_value :: "json \<Rightarrow> bool" where
  "go_value (JNum x) \<longleftrightarrow> f64 x = x \<and> \<not> f64_overflow x"
| "go_value (JArr xs) \<longleftrightarrow> (\<forall>x \<in> set xs. go_value x)"
| "go_value (JObj kvs) \<longleftrightarrow> distinct (map fst kvs) \<and> (\<forall>kv \<in> set kvs. go_value (snd kv))"
| "go_value _ \<longleftrightarrow> True"

definition go_payload :: "(string, json) go_map \<Rightarrow> bool" where
  "go_payload m \<longleftrightarrow> (case m of None \<Rightarrow> True | Some al \<Rightarrow> go_value (JObj al))"

lemma set_assign_all: "set (assign_all kvs m) \<subseteq> set kvs \<union> set m"
proof (induction kvs arbitrary: m)
  case (Cons kv kvs)
  obtain k v where kv: "kv = (k, v)" by (cases kv)
  have "set (AList.update k v m) \<subseteq> insert (k, v) (set m)"
    by (induction m) auto
  with Cons [of "AList.update k v m"] show ?case by (auto simp: assign_all_def kv)
qed (simp add: assign_all_def)

lemma decode_go_value:
  "decode_any d = Some v \<Longrightarrow> go_value v"
  "decode_all ds = Some vs \<Longrightarrow> \<forall>v \<in> set vs. go_value v"
  "decode_members kds = Some kvs \<Longrightarrow> \<forall>kv \<in> set kvs. go_value (snd kv)"
proof (induction d and ds and kds arbitrary: v and vs and kvs rule: decode_any_decode_all_decode_members.induct)
  case (3 kvs)
  then obtain l where l: "decode_members kvs = Some l" "v = JObj (assign_all l [])" by auto
  with 3 show ?case using set_assign_all [of l "[]"] by (auto simp: distinct_assign_all)
qed (fastforce simp: f64_overflow_f64 split: if_splits option.splits)+

text \<open>So an event that was decoded has a payload of such values.\<close>

definition keeps_go_payload :: "(json \<Rightarrow> tracking_event \<Rightarrow> tracking_event option) \<Rightarrow> bool" where
  "keeps_go_payload f \<longleftrightarrow> (\<forall>v e e'. f v e = Some e' \<longrightarrow> go_payload (Payload e) \<longrightarrow> go_payload (Payload e'))"

lemma decode_map_go_payload:
  assumes "decode_map Payload_update v e = Some e'" "go_payload (Payload e)"
  shows "go_payload (Payload e')"
proof (cases v)
  case (JObj kvs)
  with assms(1) obtain l where l: "decode_members kvs = Some l"
      "Payload e' = Some (assign_all l (case Payload e of None \<Rightarrow> [] | Some al \<Rightarrow> al))"
    by (auto split: option.splits)
  let ?old = "case Payload e of None \<Rightarrow> [] | Some al \<Rightarrow> al"
  have old: "distinct (map fst ?old)" "\<forall>kv \<in> set ?old. go_value (snd kv)"
    using assms(2) by (cases "Payload e"; simp add: go_payload_def)+
  have "distinct (map fst (assign_all l ?old))" using old(1) by (rule distinct_assign_all)
  moreover have "\<forall>kv \<in> set (assign_all l ?old). go_value (snd kv)"
    using set_assign_all [of l ?old] decode_go_value(3) [OF l(1)] old(2) by blast
  ultimately have "distinct (map fst (assign_all l ?old))" "\<forall>kv \<in> set (assign_all l ?old). go_value (snd kv)" .
  then show ?thesis by (simp add: go_payload_def l(2))
qed (use assms in \<open>auto simp: go_payload_def\<close>)

lemma keeps_go_payload_basic:
  "(\<And>x e. Payload (upd x e) = Payload e) \<Longrightarrow> keeps_go_payload (decode_string upd)"
  "(\<And>x e. Payload (upd' x e) = Payload e) \<Longrightarrow> keeps_go_payload (decode_bool upd')"
  "(\<And>x e. Payload (upd'' x e) = Payload e) \<Longrightarrow> keeps_go_payload (decode_time upd'')"
  unfolding keeps_go_payload_def
  by (intro allI impI, case_tac v; force)+

lemma keeps_go_payload_fields: "\<forall>(n, f) \<in> set tracking_fields. keeps_go_payload f"
proof -
  have "keeps_go_payload (decode_map Payload_update)"
    using decode_map_go_payload unfolding keeps_go_payload_def by blast
  then show ?thesis by (simp add: tracking_fields_def keeps_go_payload_basic)
qed

lemma decode_tracking_go_payload:
  assumes "decode_tracking_event doc = Some e"
  shows "go_payload (Payload e)"
proof -
  have z: "go_payload (Payload zero_tracking_event)" by (simp add: go_payload_def zero_tracking_event_def)
  have member: "go_payload (Payload s')"
    if "(n, f) \<in> set tracking_fields" "f v s = Some s'" "go_payload (Payload s)" for n f v s s'
    using that keeps_go_payload_fields unfolding keeps_go_payload_def by blast
  show ?thesis
  proof (cases doc)
    case (JObj kvs)
    with assms have "decode_fields tracking_fields kvs zero_tracking_event = Some e" by (simp add: decode_tracking_event_def)
    then show ?thesis
      by (rule decode_fields_invariant [where P = "\<lambda>s. go_payload (Payload s)", rotated]) (use z member in blast)+
  qed (use assms z in \<open>auto simp: decode_tracking_event_def\<close>)
qed

section \<open>Writing and reading a value\<close>

lemma encode_members_map: "encode_members kvs = map (\<lambda>(k, v). (k, encode_any v)) kvs"
  by (induction kvs) auto

lemma encode_all_map: "encode_all xs = map encode_any xs"
  by (induction xs) auto

lemma fst_encode_members [simp]: "map fst (encode_members kvs) = map fst kvs"
  by (simp add: encode_members_map split_def comp_def)

lemma distinct_sort_members [simp]: "distinct (map fst (sort_key fst l)) = distinct (map fst l)"
proof -
  have "mset (map fst (sort_key fst l)) = mset (map fst l)" by simp
  then show ?thesis by (rule mset_eq_imp_distinct_iff)
qed

lemma assign_all_fresh:
  "distinct (map fst (m @ kvs)) \<Longrightarrow> assign_all kvs m = m @ kvs"
proof (induction kvs arbitrary: m)
  case (Cons kv kvs)
  obtain k v where kv: "kv = (k, v)" by (cases kv)
  have "k \<notin> fst ` set m \<Longrightarrow> AList.update k v m = m @ [(k, v)]" by (induction m) auto
  then have "AList.update k v m = m @ [(k, v)]" using Cons.prems by (auto simp: kv)
  with Cons.IH [of "m @ [(k, v)]"] Cons.prems show ?case by (simp add: assign_all_def kv)
qed (simp add: assign_all_def)

lemma decode_members_id: "\<forall>kv \<in> set kvs. decode_any (snd kv) = Some (snd kv) \<Longrightarrow> decode_members kvs = Some kvs"
  by (induction kvs) auto

lemma decode_all_id: "\<forall>x \<in> set xs. decode_any x = Some x \<Longrightarrow> decode_all xs = Some xs"
  by (induction xs) auto

lemma decode_object:
  "distinct (map fst kvs) \<Longrightarrow> \<forall>kv \<in> set kvs. decode_any (snd kv) = Some (snd kv) \<Longrightarrow>
   decode_any (JObj kvs) = Some (JObj kvs)"
  using assign_all_fresh [of "[]" kvs] by (simp add: decode_members_id)

lemma decode_encode_any:
  "go_value v \<Longrightarrow> decode_any (encode_any v) = Some (encode_any v)"
proof (induction v)
  case (JArr xs)
  then show ?case by (auto simp: encode_all_map intro!: decode_all_id)
next
  case (JObj kvs)
  then have "\<forall>kv \<in> set (sort_key fst (encode_members kvs)). decode_any (snd kv) = Some (snd kv)"
    by (fastforce simp: encode_members_map snds.simps)
  with JObj.prems show ?case
    by (simp only: encode_any.simps) (rule decode_object, simp_all)
qed simp_all

section \<open>Writing and reading an event\<close>

definition canonical :: "(string, json) go_map \<Rightarrow> (string, json) go_map" where
  "canonical m = map_option (\<lambda>al. sort_key fst (encode_members al)) m"

lemma decode_encode_payload:
  assumes "go_payload m" "Payload s = None"
  shows "decode_map Payload_update (encode_payload m) s = Some (s\<lparr>Payload := canonical m\<rparr>)"
proof (cases m)
  case (Some al)
  then have "decode_any (encode_any (JObj al)) = Some (encode_any (JObj al))"
    using assms(1) by (intro decode_encode_any) (simp add: go_payload_def)
  moreover have "distinct (map fst (sort_key fst (encode_members al)))"
    using assms(1) Some by (simp add: go_payload_def)
  ultimately show ?thesis
    using assms(2) by (auto simp: Some encode_payload_def canonical_def)
qed (use assms in \<open>simp add: encode_payload_def canonical_def\<close>)

lemma find_tracking_fields:
  "find_field tracking_fields ''event_id'' = Some (decode_string (\<lambda>x. EventID_update (\<lambda>_. x)))"
  "find_field tracking_fields ''user_id'' = Some (decode_string (\<lambda>x. UserID_update (\<lambda>_. x)))"
  "find_field tracking_fields ''event_type'' = Some (decode_string (\<lambda>x. EventType_update (\<lambda>_. x)))"
  "find_field tracking_fields ''ip_address'' = Some (decode_string (\<lambda>x. IPAddress_update (\<lambda>_. x)))"
  "find_field tracking_fields ''user_agent'' = Some (decode_string (\<lambda>x. UserAgent_update (\<lambda>_. x)))"
  "find_field tracking_fields ''payload'' = Some (decode_map Payload_update)"
  "find_field tracking_fields ''timestamp'' = Some (decode_time (\<lambda>x. Timestamp_update (\<lambda>_. x)))"
  "find_field tracking_fields ''gdpr_consent'' = Some (decode_bool (\<lambda>x. GDPRConsent_update (\<lambda>_. x)))"
  by (simp_all add: find_field_def tracking_fields_def)

definition canonical_event :: "tracking_event \<Rightarrow> tracking_event" where
  "canonical_event e = e\<lparr>Payload := canonical (Payload e)\<rparr>"

text \<open>The condition on the text of a timestamp: it is read back as the instant it was written from.\<close>

definition time_text_ok :: "(time \<Rightarrow> string) \<Rightarrow> time \<Rightarrow> bool" where
  "time_text_ok show_time t \<longleftrightarrow> parse_rfc3339 (show_time t) = Some t"

lemma decode_tracking_members:
  assumes "time_text_ok show_time (Timestamp e)" "go_payload (Payload e)"
  shows "decode_fields tracking_fields (tracking_members show_time e) zero_tracking_event = Some (canonical_event e)"
proof -
  have "Payload (zero_tracking_event\<lparr>EventID := EventID e, UserID := UserID e, EventType := EventType e,
      IPAddress := IPAddress e, UserAgent := UserAgent e\<rparr>) = None"
    by (simp add: zero_tracking_event_def)
  note payload = decode_encode_payload [OF assms(2) this]
  show ?thesis
    using assms(1) payload
    by (simp add: tracking_members_def find_tracking_fields time_text_ok_def canonical_event_def
        zero_tracking_event_def)
qed

lemma decode_encode_tracking:
  "time_text_ok show_time (Timestamp e) \<Longrightarrow> go_payload (Payload e) \<Longrightarrow>
   decode_tracking_event (encode_tracking_event show_time e) = Some (canonical_event e)"
  by (simp add: decode_tracking_event_def encode_tracking_event_def decode_tracking_members)

text \<open>The members of the embedded struct are decoded into it.\<close>

lemma find_screened_fields:
  assumes "map_of tracking_fields k = Some f"
  shows "find_field screened_fields k = Some (\<lambda>v s. map_option (\<lambda>t. s\<lparr>Tracking := t\<rparr>) (f v (Tracking s)))"
proof -
  have "map_of screened_fields k = Some (\<lambda>v s. map_option (\<lambda>t. s\<lparr>Tracking := t\<rparr>) (f v (Tracking s)))"
    unfolding screened_fields_def map_of_append by (rule map_add_find_right) (simp add: map_of_map assms)
  then show ?thesis by (simp add: find_field_def)
qed

lemma find_own_fields:
  "find_field screened_fields ''is_fraudulent'' = Some (decode_bool (\<lambda>x. IsFraudulent_update (\<lambda>_. x)))"
  "find_field screened_fields ''fraud_score'' = Some (decode_float (\<lambda>x. FraudScore_update (\<lambda>_. x)))"
  "find_field screened_fields ''fraud_reason'' = Some (decode_string (\<lambda>x. FraudReason_update (\<lambda>_. x)))"
  "find_field screened_fields ''screened_at'' = Some (decode_time (\<lambda>x. ScreenedAt_update (\<lambda>_. x)))"
  by (simp_all add: find_field_def screened_fields_def tracking_fields_def)

lemma decode_embedded:
  assumes "\<forall>kv \<in> set kvs. \<exists>f. map_of tracking_fields (fst kv) = Some f"
  shows "decode_fields screened_fields (kvs @ rest) s =
    (case decode_fields tracking_fields kvs (Tracking s) of
       None \<Rightarrow> None | Some t \<Rightarrow> decode_fields screened_fields rest (s\<lparr>Tracking := t\<rparr>))"
  using assms
proof (induction kvs arbitrary: s)
  case (Cons kv kvs)
  obtain k v where kv: "kv = (k, v)" by (cases kv)
  then obtain f where f: "map_of tracking_fields k = Some f" using Cons.prems by auto
  then have "find_field tracking_fields k = Some f" by (simp add: find_field_def)
  from this find_screened_fields [OF f] Cons show ?case
    by (auto simp: kv split: option.splits)
qed simp

lemma tracking_members_known: "\<forall>kv \<in> set (tracking_members show_time e). \<exists>f. map_of tracking_fields (fst kv) = Some f"
  by (simp add: tracking_members_def tracking_fields_def)

definition screened_ok :: "(time \<Rightarrow> string) \<Rightarrow> screened_event \<Rightarrow> bool" where
  "screened_ok show_time se \<longleftrightarrow> time_text_ok show_time (Timestamp (Tracking se)) \<and> time_text_ok show_time (ScreenedAt se) \<and>
     go_payload (Payload (Tracking se)) \<and> f64 (FraudScore se) = FraudScore se \<and> \<not> f64_overflow (FraudScore se)"

lemma decode_encode_screened:
  assumes "screened_ok show_time se"
  shows "decode_screened_event (encode_screened_event show_time se) =
    Some (se\<lparr>Tracking := canonical_event (Tracking se)\<rparr>)"
proof -
  have z: "Tracking zero_screened_event = zero_tracking_event" by (simp add: zero_screened_event_def)
  show ?thesis
    using assms
    by (simp add: decode_screened_event_def encode_screened_event_def decode_embedded [OF tracking_members_known]
        z decode_tracking_members screened_ok_def find_own_fields time_text_ok_def
        zero_screened_event_def)
qed

section \<open>What a canonical event looks like\<close>

lemma map_of_sort_members:
  assumes "distinct (map fst l)"
  shows "map_of (sort_key fst l) k = map_of l k"
proof -
  have "map_of (sort_key fst l) = map_of l"
    by (subst map_of_inject_set) (use assms in simp_all)
  then show ?thesis by simp
qed

lemma map_get_canonical:
  assumes "go_payload m"
  shows "map_get (canonical m) k = map_option encode_any (map_get m k)"
proof (cases m)
  case (Some al)
  then have "distinct (map fst (encode_members al))" using assms by (simp add: go_payload_def)
  from map_of_sort_members [OF this, of k] show ?thesis
    by (simp add: Some canonical_def map_get_def encode_members_map map_of_map)
qed (simp add: canonical_def map_get_def)

lemma encode_any_string: "encode_any v = JStr s \<longleftrightarrow> v = JStr s"
  by (cases v) auto

lemma canonical_event_simps [simp]:
  "EventID (canonical_event e) = EventID e" "UserID (canonical_event e) = UserID e"
  "EventType (canonical_event e) = EventType e" "IPAddress (canonical_event e) = IPAddress e"
  "UserAgent (canonical_event e) = UserAgent e" "Timestamp (canonical_event e) = Timestamp e"
  "GDPRConsent (canonical_event e) = GDPRConsent e" "Payload (canonical_event e) = canonical (Payload e)"
  by (simp_all add: canonical_event_def)

section \<open>Properties\<close>

text \<open>
  C34: Writing an event as JSON and reading it back loses nothing: both kinds of event come back
  with every field as it was, the payload with its keys in order, and under every key of the
  payload lies the same text as before. It needs instants whose text is read back, a payload that was
  itself decoded from JSON and, for the score, a finite \<^verbatim>\<open>float64\<close>.
\<close>
theorem event_json_roundtrip:
  assumes "screened_ok show_time se"
  shows "decode_tracking_event (encode_tracking_event show_time (Tracking se)) = Some (canonical_event (Tracking se)) \<and>
    decode_screened_event (encode_screened_event show_time se) = Some (se\<lparr>Tracking := canonical_event (Tracking se)\<rparr>) \<and>
    (\<forall>k t. map_get (Payload (canonical_event (Tracking se))) k = Some (JStr t) \<longleftrightarrow>
       map_get (Payload (Tracking se)) k = Some (JStr t))"
  using assms decode_encode_screened [OF assms]
  by (simp add: screened_ok_def decode_encode_tracking map_get_canonical encode_any_string)

definition json_sample :: screened_event where
  "json_sample = zero_screened_event\<lparr>Tracking := zero_tracking_event\<lparr>UserID := ''u'',
     Payload := Some [(''b'', JStr ''x''), (''a'', JArr [JNum (1 / 2), JNull])]\<rparr>, IsFraudulent := True, FraudScore := 3 / 4\<rparr>"

theorem event_json_roundtrip_witness:
  "decode_screened_event (encode_screened_event (\<lambda>t. ''0001-01-01T00:00:00Z'') json_sample) =
     Some (json_sample\<lparr>Tracking := canonical_event (Tracking json_sample)\<rparr>) \<and>
   Payload (canonical_event (Tracking json_sample)) =
     Some [(''a'', JArr [JNum (1 / 2), JNull]), (''b'', JStr ''x'')]"
proof -
  have "f64 (3 / 4) = 3 / 4" "f64 (1 / 2) = 1 / 2" by code_simp+
  moreover have "\<not> f64_overflow (3 / 4)" "\<not> f64_overflow (1 / 2)" by (simp_all add: f64_overflow_def)
  moreover have "time_text_ok (\<lambda>t. ''0001-01-01T00:00:00Z'') 0" by code_simp
  ultimately have ok: "screened_ok (\<lambda>t. ''0001-01-01T00:00:00Z'') json_sample"
    by (simp add: screened_ok_def json_sample_def zero_screened_event_def zero_tracking_event_def go_payload_def time_text_ok_def)
  have "Payload (canonical_event (Tracking json_sample)) =
     Some [(''a'', JArr [JNum (1 / 2), JNull]), (''b'', JStr ''x'')]" by code_simp
  then show ?thesis using event_json_roundtrip [OF ok] by (elim conjE) (intro conjI)
qed

end
