(* ===== verification/Privacy.thy ===== *)
theory Privacy
  imports MarketingService GoHttp FraudRepo EventsJson
begin

text \<open>
  \<^verbatim>\<open>pkg/domain/marketing/handlers.go\<close>: the GDPR purge and the CCPA export. The other services
  are held by interface, so their operations on the state \<open>'w\<close> of the program are arguments;
  so is \<open>sha256\<close>, the digest of \<^verbatim>\<open>crypto/sha256\<close>.
\<close>

section \<open>Pseudonyms\<close>

definition hex_digit :: "nat \<Rightarrow> char" where
  "hex_digit n = (if n < 10 then char_of (48 + n) else char_of (87 + n))"

definition EncodeToString :: "string \<Rightarrow> string" where
  "EncodeToString bs = concat (map (\<lambda>c. [hex_digit (of_char c div 16), hex_digit (of_char c mod 16)]) bs)"

definition hashIdentifier :: "(string \<Rightarrow> string) \<Rightarrow> string \<Rightarrow> string \<Rightarrow> string" where
  "hashIdentifier sha256 identifier salt = EncodeToString (sha256 (identifier @ salt))"

definition service_salt :: string where
  "service_salt = ''SentinelFlowSuperSecretSaltForGDPRCompliance''"

section \<open>The purge\<close>

text \<open>The nanoseconds of an instant since 1 January 1970, as an int64.\<close>

definition unix_epoch :: time where
  "unix_epoch = 719162 * 86400 * Second"

definition UnixNano :: "time \<Rightarrow> int" where
  "UnixNano t = wrap64 (t - unix_epoch)"

text \<open>The anonymous struct of the body: its only field.\<close>

definition decode_user_id :: "json \<Rightarrow> string option" where
  "decode_user_id doc = decode_struct [(''user_id'', decode_string (\<lambda>x _. x))] doc []"

type_synonym 'w delete_events = "string \<Rightarrow> 'w \<Rightarrow> (go_error + int) \<times> 'w"
type_synonym 'w delete_contact = "string \<Rightarrow> 'w \<Rightarrow> go_error option \<times> 'w"
type_synonym 'w save_log = "privacy_log \<Rightarrow> 'w \<Rightarrow> go_error option \<times> 'w"

text \<open>\<open>now1\<close> and \<open>now2\<close> are the two readings of the clock, for the id and for the timestamp.\<close>

definition HandleGDPRDelete ::
  "(string \<Rightarrow> string) \<Rightarrow> 'w delete_events \<Rightarrow> 'w delete_contact \<Rightarrow> 'w save_log \<Rightarrow> time \<Rightarrow> time \<Rightarrow> api_request \<Rightarrow> 'w \<Rightarrow> reply \<times> 'w" where
  "HandleGDPRDelete sha256 deleteEvents deleteContact saveLog now1 now2 r w =
     (if ar_method r \<noteq> ''POST'' then (http_Error ''Method not allowed'' StatusMethodNotAllowed, w)
      else
        let userID = (case decode_body decode_user_id r of None \<Rightarrow> [] | Some u \<Rightarrow> u) in
        if userID = [] then
          (http_Error ''{\"error\": \"invalid json or user_id missing\"}'' StatusBadRequest, w)
        else case deleteEvents userID w of
          (Inl err, w1) \<Rightarrow> (http_Error ''{\"error\": \"failed to scrub records\"}'' StatusInternalServerError, w1)
        | (Inr scrubbedCount, w1) \<Rightarrow>
            let w2 = snd (deleteContact userID w1);
                hashedUserID = hashIdentifier sha256 userID service_salt;
                auditLog = \<lparr>pl_LogID = ''purge-'' @ show_int (UnixNano now1), pl_UserID = hashedUserID,
                            pl_Action = ''GDPR_PURGE'', pl_Timestamp = now2\<rparr>;
                w3 = snd (saveLog auditLog w2) in
            (json_reply StatusOK
               (BText (''{\"status\": \"purged\", \"user_id_hashed\": \"'' @ hashedUserID @
                       ''\", \"records_scrubbed\": '' @ show_int scrubbedCount @ ''}'')), w3))"

section \<open>The export\<close>

definition export_document ::
  "(time \<Rightarrow> string) \<Rightarrow> string \<Rightarrow> screened_event list \<Rightarrow> go_error + crm_contact \<Rightarrow> time \<Rightarrow> json" where
  "export_document show_time userID events contact now = JObj
     [(''crm_contact'', case contact of Inr c \<Rightarrow> contact_document show_time c | Inl err \<Rightarrow> JStr ''no crm contact synced''),
      (''events'', JArr (map (encode_screened_event show_time) events)),
      (''exported_at'', JStr (show_time now)),
      (''user_id'', JStr userID)]"

text \<open>The readers \<open>getEvents\<close> and \<open>getContact\<close> leave the state as it is.\<close>

definition HandleCCPAExport ::
  "(time \<Rightarrow> string) \<Rightarrow> (string \<Rightarrow> 'w \<Rightarrow> go_error + screened_event list) \<Rightarrow> (string \<Rightarrow> 'w \<Rightarrow> go_error + crm_contact) \<Rightarrow>
   time \<Rightarrow> api_request \<Rightarrow> 'w \<Rightarrow> reply" where
  "HandleCCPAExport show_time getEvents getContact now r w =
     (if ar_method r \<noteq> ''GET'' then http_Error ''Method not allowed'' StatusMethodNotAllowed
      else
        let userID = query_Get r ''user_id'' in
        if userID = [] then
          http_Error ''{\"error\": \"user_id query parameter is required\"}'' StatusBadRequest
        else case getEvents userID w of
          Inl err \<Rightarrow> http_Error ''{\"error\": \"failed to export data\"}'' StatusInternalServerError
        | Inr events \<Rightarrow>
            json_reply StatusOK (BJson (export_document show_time userID events (getContact userID w) now)))"

section \<open>A purge that succeeds\<close>

text \<open>A request that names a user.\<close>

definition purge_request :: "string \<Rightarrow> api_request \<Rightarrow> bool" where
  "purge_request u r \<longleftrightarrow> ar_method r = ''POST'' \<and> decode_body decode_user_id r = Some u \<and> u \<noteq> []"

lemma HandleGDPRDelete_refused:
  assumes "\<nexists>u. purge_request u r"
  shows "\<exists>rep. re_status rep \<noteq> StatusOK \<and> HandleGDPRDelete sha256 deleteEvents deleteContact saveLog now1 now2 r w = (rep, w)"
proof (cases "ar_method r = ''POST''")
  case True
  with assms have "(case decode_body decode_user_id r of None \<Rightarrow> [] | Some u \<Rightarrow> u) = []"
    by (auto simp: purge_request_def split: option.splits)
  with True show ?thesis by (simp add: HandleGDPRDelete_def Let_def status_defs http_Error_def)
qed (simp add: HandleGDPRDelete_def status_defs http_Error_def)

lemma HandleGDPRDelete_ok:
  assumes "HandleGDPRDelete sha256 deleteEvents deleteContact saveLog now1 now2 r w = (rep, w')" "re_status rep = StatusOK"
  shows "\<exists>u n w1. purge_request u r \<and> deleteEvents u w = (Inr n, w1) \<and>
    w' = snd (saveLog \<lparr>pl_LogID = ''purge-'' @ show_int (UnixNano now1),
        pl_UserID = hashIdentifier sha256 u service_salt, pl_Action = ''GDPR_PURGE'', pl_Timestamp = now2\<rparr>
      (snd (deleteContact u w1)))"
proof -
  let ?u = "case decode_body decode_user_id r of None \<Rightarrow> [] | Some u \<Rightarrow> u"
  have post: "ar_method r = ''POST''" and u: "?u \<noteq> []"
    using assms by (auto simp: HandleGDPRDelete_def Let_def status_defs split: if_splits)
  obtain n w1 where d: "deleteEvents ?u w = (Inr n, w1)"
    using assms post u
    by (cases "deleteEvents ?u w"; cases "fst (deleteEvents ?u w)")
      (simp_all add: HandleGDPRDelete_def Let_def status_defs http_Error_def, auto)
  have "purge_request ?u r"
    using post u by (auto simp: purge_request_def split: option.splits)
  moreover have "w' = snd (saveLog \<lparr>pl_LogID = ''purge-'' @ show_int (UnixNano now1),
        pl_UserID = hashIdentifier sha256 ?u service_salt, pl_Action = ''GDPR_PURGE'', pl_Timestamp = now2\<rparr>
      (snd (deleteContact ?u w1)))"
    using assms(1) post u d by (simp add: HandleGDPRDelete_def Let_def)
  ultimately show ?thesis using d by blast
qed

end
