(* ===== verification/AnalyticsService.thy ===== *)
theory AnalyticsService
  imports GoHttp Tracker
begin

text \<open>
  \<^verbatim>\<open>pkg/domain/analytics/service.go\<close>: the metrics API and the dashboard. The service holds its
  tracker by interface: \<open>metrics\<close> is the value of \<^verbatim>\<open>s.tracker.GetMetrics()\<close>.
\<close>

section \<open>The handlers\<close>

text \<open>The document \<^verbatim>\<open>json.NewEncoder(w).Encode(metrics)\<close> writes, in the order of the fields.\<close>

definition encode_metrics :: "system_metrics \<Rightarrow> json" where
  "encode_metrics m = JObj
     [(''total_events_received'', JNum (of_int (TotalEventsReceived m))),
      (''legitimate_events'', JNum (of_int (LegitimateEvents m))),
      (''fraudulent_events'', JNum (of_int (FraudulentEvents m))),
      (''crm_attempts'', JNum (of_int (CRMAttempts m))),
      (''crm_successes'', JNum (of_int (CRMSuccesses m))),
      (''crm_failures'', JNum (of_int (CRMFailures m))),
      (''events_per_second'', JNum (EventsPerSecond m))]"

definition HandleMetrics :: "system_metrics \<Rightarrow> api_request \<Rightarrow> reply" where
  "HandleMetrics metrics r =
     (if ar_method r \<noteq> ''GET'' then http_Error ''Method not allowed'' StatusMethodNotAllowed
      else json_reply StatusOK (BJson (encode_metrics metrics)))"

definition fraudPct :: "system_metrics \<Rightarrow> rat" where
  "fraudPct m =
     (let totalProcessed = wrap64 (LegitimateEvents m + FraudulentEvents m) in
      if 0 < totalProcessed then fmul (fdiv (f64 (of_int (FraudulentEvents m))) (f64 (of_int totalProcessed))) 100 else 0)"

definition crmSuccessRate :: "system_metrics \<Rightarrow> rat" where
  "crmSuccessRate m =
     (if 0 < CRMAttempts m then fmul (fdiv (f64 (of_int (CRMSuccesses m))) (f64 (of_int (CRMAttempts m)))) 100 else 0)"

definition nl :: string where "nl = [CHR 0x0A]"

definition rule_line :: string where
  "rule_line = ''==================================================='' @ nl"

definition dashboard_text :: "system_metrics \<Rightarrow> string" where
  "dashboard_text m =
     rule_line @
     ''          SENTINEL-FLOW DASHBOARD TELEMETRY        '' @ nl @
     rule_line @
     ''SYSTEM THROUGHPUT'' @ nl @
     ''  Total Events Ingested:      '' @ show_int (TotalEventsReceived m) @ '' events'' @ nl @
     ''  Current Ingest Velocity:    '' @ format_2f (EventsPerSecond m) @ '' events/sec'' @ nl @ nl @
     ''FRAUD OPERATIONS DETECTION'' @ nl @
     ''  Legitimate Events (Clean):  '' @ show_int (LegitimateEvents m) @ nl @
     ''  Fraudulent Events (Blocked):'' @ show_int (FraudulentEvents m) @ nl @
     ''  Fraud Incidence Rate:       '' @ format_2f (fraudPct m) @ ''%'' @ nl @ nl @
     ''MARKETING CRM AUTOMATION SYNC (HubSpot/Mailchimp)'' @ nl @
     ''  Total Sync Actions Logged:  '' @ show_int (CRMAttempts m) @ nl @
     ''  Successful Synced Contacts: '' @ show_int (CRMSuccesses m) @ nl @
     ''  Failed Sync Contacts:       '' @ show_int (CRMFailures m) @ nl @
     ''  CRM Sync Resilience Rate:   '' @ format_2f (crmSuccessRate m) @ ''%'' @ nl @
     rule_line"

definition HandleDashboard :: "system_metrics \<Rightarrow> api_request \<Rightarrow> reply" where
  "HandleDashboard metrics r =
     (if ar_method r \<noteq> ''GET'' then http_Error ''Method not allowed'' StatusMethodNotAllowed
      else \<lparr>re_status = StatusOK, re_contentType = ''text/plain; charset=utf-8'', re_body = BText (dashboard_text metrics)\<rparr>)"

section \<open>The rates\<close>

text \<open>A part of a whole, as a percentage in \<^verbatim>\<open>float64\<close>.\<close>

definition percentage :: "int \<Rightarrow> int \<Rightarrow> rat" where
  "percentage a b = fmul (fdiv (f64 (of_int a)) (f64 (of_int b))) 100"

lemma percentage_bounds:
  assumes "0 \<le> a" "a \<le> b" "0 < b"
  shows "0 \<le> percentage a b \<and> percentage a b \<le> 100"
proof -
  have "(of_int 1 :: rat) \<le> of_int b" using assms(3) by (simp only: of_int_le_iff)
  then have b: "1 \<le> f64 (of_int b)" using f64_mono [of 1 "of_int b"] by simp
  have "0 \<le> f64 (of_int a)" "f64 (of_int a) \<le> f64 (of_int b)"
    using assms by (auto intro: f64_nonneg f64_mono)
  with b have "0 \<le> f64 (of_int a) / f64 (of_int b)" "f64 (of_int a) / f64 (of_int b) \<le> 1"
    by (auto simp: divide_le_eq)
  then have q: "0 \<le> fdiv (f64 (of_int a)) (f64 (of_int b))" "fdiv (f64 (of_int a)) (f64 (of_int b)) \<le> 1"
    using f64_unit by (simp_all add: fdiv_def)
  then have "0 \<le> fdiv (f64 (of_int a)) (f64 (of_int b)) * 100" "fdiv (f64 (of_int a)) (f64 (of_int b)) * 100 \<le> 100"
    by simp_all
  then show ?thesis
    using f64_mono [of _ 100] f64_100 f64_nonneg by (auto simp: percentage_def fmul_def)
qed

lemma percentage_whole:
  assumes "0 < b"
  shows "percentage b b = 100"
proof -
  have "(of_int 1 :: rat) \<le> of_int b" using assms by (simp only: of_int_le_iff)
  then have "1 \<le> f64 (of_int b)" using f64_mono [of 1 "of_int b"] by simp
  then show ?thesis by (simp add: percentage_def fdiv_def fmul_def f64_100)
qed

lemma fraudPct_percentage:
  "0 \<le> LegitimateEvents m \<Longrightarrow> 0 \<le> FraudulentEvents m \<Longrightarrow> LegitimateEvents m + FraudulentEvents m < 2 ^ 63 \<Longrightarrow>
   fraudPct m = (if LegitimateEvents m + FraudulentEvents m = 0 then 0
     else percentage (FraudulentEvents m) (LegitimateEvents m + FraudulentEvents m))"
  by (auto simp: fraudPct_def percentage_def wrap64_small Let_def)

section \<open>Properties\<close>

text \<open>
  The rates of the dashboard are percentages for all the rounding of \<^verbatim>\<open>float64\<close>: with
  counters that have not overflowed, the fraud rate lies between 0 and 100 and is 100 when every
  processed event was fraudulent; so does the CRM rate whenever no more syncs succeeded than
  were attempted. No count divides by zero.
\<close>
theorem dashboard_rates_are_percentages:
  assumes "0 \<le> LegitimateEvents m" "0 \<le> FraudulentEvents m" "LegitimateEvents m + FraudulentEvents m < 2 ^ 63"
    and "0 \<le> CRMSuccesses m" "CRMSuccesses m \<le> CRMAttempts m"
  shows "0 \<le> fraudPct m \<and> fraudPct m \<le> 100 \<and> 0 \<le> crmSuccessRate m \<and> crmSuccessRate m \<le> 100 \<and>
    (LegitimateEvents m = 0 \<and> 0 < FraudulentEvents m \<longrightarrow> fraudPct m = 100)"
proof -
  have "0 \<le> fraudPct m \<and> fraudPct m \<le> 100"
    using percentage_bounds [of "FraudulentEvents m" "LegitimateEvents m + FraudulentEvents m"] assms(1,2)
    by (auto simp: fraudPct_percentage [OF assms(1-3)])
  moreover have "0 \<le> crmSuccessRate m \<and> crmSuccessRate m \<le> 100"
    using percentage_bounds [OF assms(4,5)] by (auto simp: crmSuccessRate_def percentage_def)
  ultimately show ?thesis
    using percentage_whole [of "FraudulentEvents m"] by (auto simp: fraudPct_percentage [OF assms(1-3)])
qed

definition sample_metrics :: system_metrics where
  "sample_metrics = \<lparr>TotalEventsReceived = 3, LegitimateEvents = 2, FraudulentEvents = 1, CRMAttempts = 2,
     CRMSuccesses = 2, CRMFailures = 0, EventsPerSecond = 1\<rparr>"

theorem dashboard_rates_are_percentages_witness:
  "0 \<le> fraudPct sample_metrics \<and> fraudPct sample_metrics \<le> 100 \<and> format_2f (fraudPct sample_metrics) = ''33.33''"
proof -
  have "format_2f (fraudPct sample_metrics) = ''33.33''" by code_simp
  with dashboard_rates_are_percentages [of sample_metrics] show ?thesis by (simp add: sample_metrics_def)
qed

end
