(* ===== verification/Monolith.thy ===== *)
theory Monolith
  imports IngestHandler FraudService MarketingService Privacy AnalyticsService Config
begin

text \<open>
  \<^verbatim>\<open>cmd/monolith/main.go\<close> in its memory configuration: the state of the whole program, its
  wiring (which component's operation each port is bound to), and its steps. A step is one
  HTTP request, one event handled by a worker, a subscription or the closing of the broker.
  The components only meet in the broker's channels, the repositories and the counters, each
  of which is locked; the steps below take a whole handler as one, and \<^verbatim>\<open>Threads\<close> cuts them finer.
\<close>

section \<open>The state and the wiring\<close>

record world =
  wd_broker :: in_memory_broker
  wd_tracker :: memory_tracker
  wd_fraudRepo :: "memory_marketing_repo memory_fraud_repo"
  wd_mktRepo :: memory_marketing_repo
  wd_adapter :: http_crm_adapter

text \<open>
  The program's state: the world its components share, and the rule state of the fraud service.
\<close>

type_synonym system = "rule_state \<times> world"

text \<open>The wiring of \<^verbatim>\<open>main\<close>: purging a user's events deletes the CRM contact too.\<close>

definition crm_deleter :: "string \<Rightarrow> memory_marketing_repo \<Rightarrow> memory_marketing_repo" where
  "crm_deleter userID m = snd (DeleteCRMContact userID m)"

definition NewMonolith :: "config \<Rightarrow> time \<Rightarrow> system" where
  "NewMonolith cfg now =
     (NewRuleState,
      \<lparr>wd_broker = NewInMemoryBroker broker_buffer,
       wd_tracker = NewMemoryTelemetryTracker now,
       wd_fraudRepo = NewMemoryFraudRepository (Some crm_deleter),
       wd_mktRepo = NewMemoryMarketingRepository,
       wd_adapter = NewHTTPCRMAdapter (CRMURL cfg)
         (NewResilientClient (250 * Millisecond) 3 (5 * Second) 2 (20 * Millisecond) True)\<rparr>)"

definition w_increment :: "string \<Rightarrow> int \<Rightarrow> world \<Rightarrow> world" where
  "w_increment name d w = w\<lparr>wd_tracker := IncrementMetric name d (wd_tracker w)\<rparr>"

definition w_publish_raw :: "(nat \<Rightarrow> select_env) \<Rightarrow> tracking_event \<Rightarrow> world \<Rightarrow> (go_error option \<times> world) outcome" where
  "w_publish_raw env e w =
     (case PublishRaw env e (wd_broker w) of
        Ret (r, b) \<Rightarrow> Ret (r, w\<lparr>wd_broker := b\<rparr>)
      | Panic m \<Rightarrow> Panic m)"

definition w_publish_screened :: "(nat \<Rightarrow> select_env) \<Rightarrow> screened_event \<Rightarrow> world \<Rightarrow> (go_error option \<times> world) outcome" where
  "w_publish_screened env e w =
     (case PublishScreened env e (wd_broker w) of
        Ret (r, b) \<Rightarrow> Ret (r, w\<lparr>wd_broker := b\<rparr>)
      | Panic m \<Rightarrow> Panic m)"

definition w_subscribe_raw :: "world \<Rightarrow> (go_error + nat) \<times> world" where
  "w_subscribe_raw w = (case SubscribeRaw (wd_broker w) of (r, b) \<Rightarrow> (r, w\<lparr>wd_broker := b\<rparr>))"

definition w_subscribe_screened :: "world \<Rightarrow> (go_error + nat) \<times> world" where
  "w_subscribe_screened w = (case SubscribeScreened (wd_broker w) of (r, b) \<Rightarrow> (r, w\<lparr>wd_broker := b\<rparr>))"

definition w_recv_raw :: "nat \<Rightarrow> world \<Rightarrow> tracking_event received \<times> world" where
  "w_recv_raw ch w = (case RecvRaw ch (wd_broker w) of (r, b) \<Rightarrow> (r, w\<lparr>wd_broker := b\<rparr>))"

definition w_recv_screened :: "nat \<Rightarrow> world \<Rightarrow> screened_event received \<times> world" where
  "w_recv_screened ch w = (case RecvScreened ch (wd_broker w) of (r, b) \<Rightarrow> (r, w\<lparr>wd_broker := b\<rparr>))"

definition w_save_event :: "screened_event \<Rightarrow> world \<Rightarrow> go_error option \<times> world" where
  "w_save_event e w = (case SaveEvent e (wd_fraudRepo w) of (r, m) \<Rightarrow> (r, w\<lparr>wd_fraudRepo := m\<rparr>))"

definition w_get_events :: "string \<Rightarrow> world \<Rightarrow> go_error + screened_event list" where
  "w_get_events u w = GetEventsByUserID u (wd_fraudRepo w)"

definition w_delete_events :: "string \<Rightarrow> world \<Rightarrow> (go_error + int) \<times> world" where
  "w_delete_events u w =
     (case DeleteUserEvents u (wd_fraudRepo w, wd_mktRepo w) of
        (r, m, c) \<Rightarrow> (r, w\<lparr>wd_fraudRepo := m, wd_mktRepo := c\<rparr>))"

definition w_save_contact :: "crm_contact \<Rightarrow> world \<Rightarrow> go_error option \<times> world" where
  "w_save_contact c w = (case SaveCRMContact c (wd_mktRepo w) of (r, m) \<Rightarrow> (r, w\<lparr>wd_mktRepo := m\<rparr>))"

definition w_get_contact :: "string \<Rightarrow> world \<Rightarrow> go_error + crm_contact" where
  "w_get_contact u w = GetCRMContact u (wd_mktRepo w)"

definition w_delete_contact :: "string \<Rightarrow> world \<Rightarrow> go_error option \<times> world" where
  "w_delete_contact u w = (case DeleteCRMContact u (wd_mktRepo w) of (r, m) \<Rightarrow> (r, w\<lparr>wd_mktRepo := m\<rparr>))"

definition w_save_log :: "privacy_log \<Rightarrow> world \<Rightarrow> go_error option \<times> world" where
  "w_save_log l w = (case SavePrivacyLog l (wd_mktRepo w) of (r, m) \<Rightarrow> (r, w\<lparr>wd_mktRepo := m\<rparr>))"

definition w_sync :: "crm_env \<Rightarrow> time \<Rightarrow> (nat \<Rightarrow> attempt_env) \<Rightarrow> crm_contact \<Rightarrow> world \<Rightarrow> (go_error option \<times> world) outcome" where
  "w_sync ce now env c w =
     (case SyncContact ce now env c (wd_adapter w) of
        Ret (r, h) \<Rightarrow> Ret (r, w\<lparr>wd_adapter := h\<rparr>)
      | Panic m \<Rightarrow> Panic m)"

definition w_metrics :: "time \<Rightarrow> world \<Rightarrow> system_metrics" where
  "w_metrics now w = GetMetrics now (wd_tracker w)"

lemmas wiring = w_increment_def w_publish_raw_def w_publish_screened_def w_subscribe_raw_def w_subscribe_screened_def
  w_recv_raw_def w_recv_screened_def w_save_event_def w_get_events_def w_delete_events_def w_save_contact_def
  w_get_contact_def w_delete_contact_def w_save_log_def w_sync_def w_metrics_def

section \<open>The handlers and the workers, wired\<close>

definition sys_ingest :: "(nat \<Rightarrow> select_env) \<Rightarrow> time \<Rightarrow> api_request \<Rightarrow> world \<Rightarrow> (reply \<times> world) outcome" where
  "sys_ingest env now = HandleIngest (w_publish_raw env) w_increment now"

definition sys_screen :: "(nat \<Rightarrow> select_env) \<Rightarrow> (nat \<Rightarrow> time) \<Rightarrow> tracking_event \<Rightarrow> system \<Rightarrow> system outcome" where
  "sys_screen env clock = ScreenEvent w_save_event w_increment (w_publish_screened env) DefaultRules clock"

definition sys_workflow :: "crm_env \<Rightarrow> time \<Rightarrow> (nat \<Rightarrow> attempt_env) \<Rightarrow> time \<Rightarrow> screened_event \<Rightarrow> world \<Rightarrow> world outcome" where
  "sys_workflow ce now env = ProcessMarketingWorkflow w_increment (w_sync ce now env) w_save_contact"

definition sys_purge :: "(string \<Rightarrow> string) \<Rightarrow> time \<Rightarrow> time \<Rightarrow> api_request \<Rightarrow> world \<Rightarrow> reply \<times> world" where
  "sys_purge sha256 = HandleGDPRDelete sha256 w_delete_events w_delete_contact w_save_log"

definition sys_export :: "(time \<Rightarrow> string) \<Rightarrow> time \<Rightarrow> api_request \<Rightarrow> world \<Rightarrow> reply" where
  "sys_export show_time = HandleCCPAExport show_time w_get_events w_get_contact"

section \<open>The steps of the program\<close>

datatype system_op =
    SysIngest api_request reply
  | SysFraudSubscribe "go_error + nat"
  | SysMarketingSubscribe "go_error + nat"
  | SysScreen nat tracking_event
  | SysWorkflow nat screened_event
  | SysPurge api_request reply
  | SysExport api_request reply
  | SysMetrics api_request reply
  | SysClose

inductive sys_step :: "system \<Rightarrow> system_op \<Rightarrow> system \<Rightarrow> bool" where
  sys_ingest_step: "sys_ingest env now r w = Ret (rep, w') \<Longrightarrow> sys_step (st, w) (SysIngest r rep) (st, w')"
| sys_fraud_subscribe: "w_subscribe_raw w = (s, w') \<Longrightarrow> sys_step (st, w) (SysFraudSubscribe s) (st, w')"
| sys_marketing_subscribe: "w_subscribe_screened w = (s, w') \<Longrightarrow> sys_step (st, w) (SysMarketingSubscribe s) (st, w')"
| sys_screen_step: "ch < length (rawSubs (wd_broker w)) \<Longrightarrow> w_recv_raw ch w = (Received e, w1) \<Longrightarrow>
    sys_screen env clock e (st, w1) = Ret (st', w') \<Longrightarrow> sys_step (st, w) (SysScreen ch e) (st', w')"
| sys_skip_step: "ch < length (screenedSubs (wd_broker w)) \<Longrightarrow> w_recv_screened ch w = (Received se, w1) \<Longrightarrow>
    IsFraudulent se \<Longrightarrow> sys_step (st, w) (SysWorkflow ch se) (st, w1)"
| sys_workflow_step: "ch < length (screenedSubs (wd_broker w)) \<Longrightarrow> w_recv_screened ch w = (Received se, w1) \<Longrightarrow>
    \<not> IsFraudulent se \<Longrightarrow> sys_workflow ce now aenv now' se w1 = Ret w' \<Longrightarrow>
    sys_step (st, w) (SysWorkflow ch se) (st, w')"
| sys_purge_step: "sys_purge sha256 now1 now2 r w = (rep, w') \<Longrightarrow> sys_step (st, w) (SysPurge r rep) (st, w')"
| sys_export_step: "sys_step (st, w) (SysExport r (sys_export show_time now r w)) (st, w)"
| sys_metrics_step: "sys_step (st, w) (SysMetrics r (HandleMetrics (w_metrics now w) r)) (st, w)"
| sys_close: "Close (wd_broker w) = Ret (None, b) \<Longrightarrow> sys_step (st, w) SysClose (st, w\<lparr>wd_broker := b\<rparr>)"

section \<open>What each step does to the world\<close>

lemma w_publish_raw_cases:
  "w_publish_raw env e w = Ret (r, w') \<Longrightarrow>
   \<exists>b. PublishRaw env e (wd_broker w) = Ret (r, b) \<and> w' = w\<lparr>wd_broker := b\<rparr>"
  by (auto simp: w_publish_raw_def split: outcome.splits)

text \<open>The replies of the gateway that go with a count.\<close>

definition counted_reply :: "reply \<Rightarrow> bool" where
  "counted_reply rep \<longleftrightarrow> re_status rep = StatusAccepted \<or> rep = consent_refusal"

definition count_received :: "reply \<Rightarrow> memory_tracker \<Rightarrow> memory_tracker" where
  "count_received rep t = (if counted_reply rep then IncrementMetric ''total_received'' 1 t else t)"

lemma sys_ingest_cases:
  assumes "sys_ingest env now r w = Ret (rep, w')"
  obtains (refused) "w' = w\<lparr>wd_tracker := count_received rep (wd_tracker w)\<rparr>" "admitted now r = None"
  | (published) e rr b where "admitted now r = Some e" "conforming e"
      "PublishRaw env e (wd_broker w) = Ret (rr, b)" "(rr = None) = (re_status rep = StatusAccepted)"
      "w' = w\<lparr>wd_broker := b, wd_tracker := count_received rep (wd_tracker w)\<rparr>"
proof (cases "admitted now r")
  case None
  show thesis
  proof (rule HandleIngest_refused [OF None, where 'w = world])
    fix rep' assume rep': "re_status rep' \<in> {StatusBadRequest, StatusMethodNotAllowed}" "rep' \<noteq> consent_refusal"
      and "\<And>publish increment (w :: world). HandleIngest publish increment now r w = Ret (rep', w)"
    with assms have "rep = rep'" "w' = w" by (simp_all add: sys_ingest_def)
    with rep' have "w' = w\<lparr>wd_tracker := count_received rep (wd_tracker w)\<rparr>"
      by (auto simp: count_received_def counted_reply_def status_defs)
    then show thesis using None by (rule refused)
  next
    assume "\<And>publish increment (w :: world).
      HandleIngest publish increment now r w = Ret (consent_refusal, increment ''total_received'' 1 w)"
    with assms have "rep = consent_refusal" "w' = w_increment ''total_received'' 1 w" by (simp_all add: sys_ingest_def)
    then have "w' = w\<lparr>wd_tracker := count_received rep (wd_tracker w)\<rparr>"
      by (simp add: w_increment_def count_received_def counted_reply_def)
    then show thesis using None by (rule refused)
  qed
next
  case (Some e)
  let ?bad = "http_Error ''{\"error\": \"internal broker error\"}'' StatusInternalServerError"
  have bad: "\<not> counted_reply ?bad"
    by (simp add: counted_reply_def consent_refusal_def http_Error_def json_reply_def status_defs)
  obtain rr w1 where pub: "w_publish_raw env e w = Ret (rr, w1)"
    and w': "rr = None \<and> re_status rep = StatusAccepted \<and> w' = w_increment ''total_received'' 1 w1 \<or>
      rr \<noteq> None \<and> rep = ?bad \<and> w' = w1"
    using assms Some
    by (auto simp: sys_ingest_def HandleIngest_admitted split: outcome.splits option.splits prod.splits)
  obtain b where b: "PublishRaw env e (wd_broker w) = Ret (rr, b)" "w1 = w\<lparr>wd_broker := b\<rparr>"
    using w_publish_raw_cases [OF pub] by blast
  have "w' = w\<lparr>wd_broker := b, wd_tracker := count_received rep (wd_tracker w)\<rparr>"
    using w' b(2) bad by (auto simp: w_increment_def count_received_def counted_reply_def)
  moreover have "(rr = None) = (re_status rep = StatusAccepted)"
    using w' by (auto simp: status_defs)
  ultimately show thesis using Some admitted_conforming [OF Some] b(1) published by blast
qed

text \<open>The counter a screened event goes to.\<close>

definition verdict_metric :: "screened_event \<Rightarrow> string" where
  "verdict_metric se = (if IsFraudulent se then ''fraudulent'' else ''legitimate'')"

lemma sys_screen_cases:
  assumes "sys_screen env clock e (st, w) = Ret (st', w')"
  obtains se rr b where "screen DefaultRules clock e st = (se, st')" "Tracking se = e"
    "PublishScreened env se (wd_broker w) = Ret (rr, b)"
    "w' = w\<lparr>wd_fraudRepo := snd (SaveEvent se (wd_fraudRepo w)),
            wd_tracker := IncrementMetric (verdict_metric se) 1 (wd_tracker w), wd_broker := b\<rparr>"
proof -
  obtain se st1 where sc: "screen DefaultRules clock e st = (se, st1)" by fastforce
  have "Tracking se = e" using sc by (auto simp: screen_default Let_def)
  moreover obtain rr b where "PublishScreened env se (wd_broker w) = Ret (rr, b)"
    "w' = w\<lparr>wd_fraudRepo := snd (SaveEvent se (wd_fraudRepo w)),
            wd_tracker := IncrementMetric (verdict_metric se) 1 (wd_tracker w), wd_broker := b\<rparr>" "st' = st1"
    using assms sc
    by (auto simp: sys_screen_def ScreenEvent_def wiring SaveEvent_def verdict_metric_def Let_def split: outcome.splits)
  ultimately show thesis using sc that by blast
qed

lemma sys_workflow_cases:
  assumes "sys_workflow ce now env now' se w = Ret w'"
  obtains (no_workflow) "w' = w" "workflow_of (EventType (Tracking se)) = None"
  | (workflow) wf c h r ok where "workflow_of (EventType (Tracking se)) = Some wf"
      "c = (new_contact now' wf (Tracking se))\<lparr>cc_SyncStatus := (if ok then ''synced'' else ''failed'')\<rparr>"
      "SyncContact ce now env (new_contact now' wf (Tracking se)) (wd_adapter w) = Ret (r, h)" "ok = (r = None)"
      "w' = w\<lparr>wd_tracker := IncrementMetric (if ok then ''crm_successes'' else ''crm_failures'') 1
                 (IncrementMetric ''crm_attempts'' 1 (wd_tracker w)),
              wd_adapter := h, wd_mktRepo := snd (SaveCRMContact c (wd_mktRepo w))\<rparr>"
proof (cases "workflow_of (EventType (Tracking se))")
  case None
  with assms show thesis by (intro no_workflow) (auto simp: sys_workflow_def ProcessMarketingWorkflow_def)
next
  case (Some wf)
  let ?c = "new_contact now' wf (Tracking se)"
  obtain r h where s: "SyncContact ce now env ?c (wd_adapter w) = Ret (r, h)"
    using assms Some
    by (auto simp: sys_workflow_def ProcessMarketingWorkflow_def wiring Let_def split: outcome.splits)
  show thesis
    using assms Some s
    by (intro workflow [OF Some refl s refl])
      (cases r; auto simp: sys_workflow_def ProcessMarketingWorkflow_def wiring SaveCRMContact_def Let_def)
qed

text \<open>The purge of a user's data, as the handler performs it.\<close>

definition purged :: "string \<Rightarrow> privacy_log \<Rightarrow> world \<Rightarrow> world" where
  "purged u l w = snd (w_save_log l (snd (w_delete_contact u (snd (w_delete_events u w)))))"

definition audit_log :: "(string \<Rightarrow> string) \<Rightarrow> time \<Rightarrow> time \<Rightarrow> string \<Rightarrow> privacy_log" where
  "audit_log sha256 now1 now2 u =
     \<lparr>pl_LogID = ''purge-'' @ show_int (UnixNano now1), pl_UserID = hashIdentifier sha256 u service_salt,
      pl_Action = ''GDPR_PURGE'', pl_Timestamp = now2\<rparr>"

lemma w_delete_events_Inr: "\<exists>n w1. w_delete_events u w = (Inr n, w1)"
  by (simp add: w_delete_events_def DeleteUserEvents_def Let_def split: option.splits)

lemma sys_purge_cases:
  assumes "sys_purge sha256 now1 now2 r w = (rep, w')"
  obtains (refused) "w' = w" "re_status rep \<noteq> StatusOK"
  | (ok) u where "purge_request u r" "w' = purged u (audit_log sha256 now1 now2 u) w" "re_status rep = StatusOK"
proof (cases "\<exists>u. purge_request u r")
  case True
  then obtain u where u: "purge_request u r" by blast
  obtain n w1 where d: "w_delete_events u w = (Inr n, w1)" using w_delete_events_Inr by blast
  have "w' = purged u (audit_log sha256 now1 now2 u) w \<and> re_status rep = StatusOK"
    using assms u d
    by (auto simp: purge_request_def sys_purge_def HandleGDPRDelete_def Let_def purged_def audit_log_def)
  with u show thesis by (auto intro: ok)
next
  case False
  obtain rep' where "re_status rep' \<noteq> StatusOK" "sys_purge sha256 now1 now2 r w = (rep', w)"
    unfolding sys_purge_def using HandleGDPRDelete_refused [OF False, of sha256 w_delete_events w_delete_contact w_save_log now1 now2 w] by blast
  with assms show thesis by (intro refused) simp_all
qed

section \<open>What holds of every event\<close>

text \<open>
  \<open>P\<close> holds of every event that waits to be screened, \<open>Q\<close> of every screened event that waits or lies in
  the repository.
\<close>

definition broker_holds :: "(tracking_event \<Rightarrow> bool) \<Rightarrow> (screened_event \<Rightarrow> bool) \<Rightarrow> in_memory_broker \<Rightarrow> bool" where
  "broker_holds P Q b \<longleftrightarrow> broker_wf b \<and> (\<forall>i. \<forall>e \<in> set (buffered (rawSubs b) i). P e) \<and>
     (\<forall>i. \<forall>se \<in> set (buffered (screenedSubs b) i). Q se)"

definition store_of :: "world \<Rightarrow> memory_marketing_repo memory_fraud_repo \<times> memory_marketing_repo" where
  "store_of w = (wd_fraudRepo w, wd_mktRepo w)"

definition store_holds :: "(screened_event \<Rightarrow> bool) \<Rightarrow> memory_marketing_repo memory_fraud_repo \<times> memory_marketing_repo \<Rightarrow> bool" where
  "store_holds Q s \<longleftrightarrow> repo_inv s \<and> fr_crmDeleter (fst s) = Some crm_deleter \<and>
     (\<forall>u. \<forall>se \<in> set (repo_events u s). Q se)"

definition world_holds :: "(tracking_event \<Rightarrow> bool) \<Rightarrow> (screened_event \<Rightarrow> bool) \<Rightarrow> world \<Rightarrow> bool" where
  "world_holds P Q w \<longleftrightarrow> broker_holds P Q (wd_broker w) \<and> store_holds Q (store_of w)"

lemma subseq_set: "subseq xs ys \<Longrightarrow> set xs \<subseteq> set ys"
  by (auto dest: list_emb_set)

lemma repo_events_irrelevant: "repo_events u (m, c) = repo_events u (m, c')"
  by (simp add: repo_events_def)

lemma world_holds_events:
  assumes "world_holds P Q w"
  shows "e \<in> set (buffered (rawSubs (wd_broker w)) i) \<Longrightarrow> P e"
    and "se \<in> set (buffered (screenedSubs (wd_broker w)) i) \<Longrightarrow> Q se"
    and "w_get_events u w = Inr ses \<Longrightarrow> se \<in> set ses \<Longrightarrow> Q se \<and> UserID (Tracking se) = u"
proof -
  show "e \<in> set (buffered (rawSubs (wd_broker w)) i) \<Longrightarrow> P e"
    "se \<in> set (buffered (screenedSubs (wd_broker w)) i) \<Longrightarrow> Q se"
    using assms by (auto simp: world_holds_def broker_holds_def)
  assume "w_get_events u w = Inr ses" and se: "se \<in> set ses"
  then have ses: "repo_events u (store_of w) = ses" by (simp add: repo_events_def store_of_def w_get_events_def)
  have "Q se" using assms se ses by (auto simp: world_holds_def store_holds_def)
  moreover have "event_user se = u"
    using assms se ses by (auto simp: world_holds_def store_holds_def repo_inv_def repo_events_slice)
  ultimately show "Q se \<and> UserID (Tracking se) = u" by (simp add: event_user_def)
qed

text \<open>
  It is enough that the gateway admits only events with \<open>P\<close> and that screening makes \<open>Q\<close> of \<open>P\<close>: every step of
  the program keeps it.
\<close>

locale event_invariant =
  fixes P :: "tracking_event \<Rightarrow> bool" and Q :: "screened_event \<Rightarrow> bool"
  assumes admitted_P: "admitted now r = Some e \<Longrightarrow> P e"
    and screened_Q: "P e \<Longrightarrow> screen DefaultRules clock e st = (se, st') \<Longrightarrow> Q se"
begin

lemma broker_holds_step:
  assumes "broker_step b op b'" "broker_holds P Q b"
    and "\<forall>e \<in> set (raw_published op). P e" "\<forall>se \<in> set (screened_published op). Q se"
  shows "broker_holds P Q b' \<and> (\<forall>i. \<forall>e \<in> set (raw_taken i op). P e) \<and>
    (\<forall>i. \<forall>se \<in> set (screened_taken i op). Q se)"
proof -
  have wf: "broker_wf b" using assms(2) by (simp add: broker_holds_def)
  have raw: "P e" if mem: "e \<in> set (raw_taken i op) \<union> set (buffered (rawSubs b') i)" for i e
  proof -
    obtain d where d: "subseq d (raw_published op)" "raw_taken i op @ buffered (rawSubs b') i = buffered (rawSubs b) i @ d"
      using raw_flow [OF assms(1) wf] by blast
    then have "e \<in> set (buffered (rawSubs b) i @ d)"
      using mem by (simp flip: d(2))
    then have "e \<in> set (buffered (rawSubs b) i) \<union> set d" by simp
    with subseq_set [OF d(1)] assms(2,3) show ?thesis by (auto simp: broker_holds_def)
  qed
  have scr: "Q e" if mem: "e \<in> set (screened_taken i op) \<union> set (buffered (screenedSubs b') i)" for i e
  proof -
    obtain d where d: "subseq d (screened_published op)"
        "screened_taken i op @ buffered (screenedSubs b') i = buffered (screenedSubs b) i @ d"
      using screened_flow [OF assms(1) wf] by blast
    then have "e \<in> set (buffered (screenedSubs b) i @ d)"
      using mem by (simp flip: d(2))
    then have "e \<in> set (buffered (screenedSubs b) i) \<union> set d" by simp
    with subseq_set [OF d(1)] assms(2,4) show ?thesis by (auto simp: broker_holds_def)
  qed
  from raw scr broker_wf_step [OF assms(1) wf] show ?thesis by (auto simp: broker_holds_def)
qed

lemma broker_holds_publish_raw:
  assumes "PublishRaw env e b = Ret (r, b')" "broker_holds P Q b" "P e"
  shows "broker_holds P Q b'"
proof -
  have "\<forall>x \<in> set (raw_published (OpPublishRaw env e r)). P x"
    "\<forall>x \<in> set (screened_published (OpPublishRaw env e r)). Q x"
    using assms(3) by simp_all
  then show ?thesis using broker_holds_step [OF st_publish_raw [OF assms(1)] assms(2)] by blast
qed

lemma broker_holds_publish_screened:
  assumes "PublishScreened env se b = Ret (r, b')" "broker_holds P Q b" "Q se"
  shows "broker_holds P Q b'"
proof -
  have "\<forall>x \<in> set (raw_published (OpPublishScreened env se r)). P x"
    "\<forall>x \<in> set (screened_published (OpPublishScreened env se r)). Q x"
    using assms(3) by simp_all
  then show ?thesis using broker_holds_step [OF st_publish_screened [OF assms(1)] assms(2)] by blast
qed

lemma world_holds_recv_raw:
  assumes "ch < length (rawSubs (wd_broker w))" "w_recv_raw ch w = (Received e, w1)" "world_holds P Q w"
  shows "world_holds P Q w1 \<and> P e"
proof -
  obtain b where b: "RecvRaw ch (wd_broker w) = (Received e, b)" "w1 = w\<lparr>wd_broker := b\<rparr>"
    using assms(2) by (auto simp: w_recv_raw_def split: prod.splits)
  have "broker_holds P Q (wd_broker w)" using assms(3) by (simp add: world_holds_def)
  from broker_holds_step [OF st_recv_raw [OF assms(1) b(1)] this] assms(3) b(2) show ?thesis
    by (fastforce simp: world_holds_def store_of_def)
qed

lemma world_holds_recv_screened:
  assumes "ch < length (screenedSubs (wd_broker w))" "w_recv_screened ch w = (Received se, w1)" "world_holds P Q w"
  shows "world_holds P Q w1 \<and> Q se"
proof -
  obtain b where b: "RecvScreened ch (wd_broker w) = (Received se, b)" "w1 = w\<lparr>wd_broker := b\<rparr>"
    using assms(2) by (auto simp: w_recv_screened_def split: prod.splits)
  have "broker_holds P Q (wd_broker w)" using assms(3) by (simp add: world_holds_def)
  from broker_holds_step [OF st_recv_screened [OF assms(1) b(1)] this] assms(3) b(2) show ?thesis
    by (fastforce simp: world_holds_def store_of_def)
qed

lemma store_holds_contacts: "store_holds Q (m, c) \<longleftrightarrow> store_holds Q (m, c')"
  by (simp add: store_holds_def repo_inv_def repo_events_irrelevant [of _ m c c'])

lemma store_holds_save:
  assumes "store_holds Q (m, c)" "Q se"
  shows "store_holds Q (snd (SaveEvent se m), c)"
proof -
  have "snd (repo_save se (m, c)) = (snd (SaveEvent se m), c)"
    by (simp add: repo_save_def split_beta)
  moreover have "fr_crmDeleter (snd (SaveEvent se m)) = fr_crmDeleter m" by (simp add: SaveEvent_def)
  ultimately show ?thesis
    using assms memory_store.inv_save [of "(m, c)" se]
      memory_store.save_keeps_all [of "(m, c)" Q se]
    by (simp add: store_holds_def)
qed

lemma store_holds_purge:
  assumes "store_holds Q s"
  shows "store_holds Q (snd (DeleteUserEvents u s))"
proof -
  obtain n s' where d: "DeleteUserEvents u s = (Inr n, s')"
    by (cases s; cases "fr_crmDeleter (fst s)") (auto simp: DeleteUserEvents_def Let_def)
  have "fr_crmDeleter (fst s') = fr_crmDeleter (fst s)"
    using d by (cases s) (auto simp: DeleteUserEvents_def Let_def split: option.splits)
  with assms d memory_store.inv_purge [of s u]
    memory_store.purge_keeps_all [of s u n s' Q] show ?thesis
    by (simp add: store_holds_def)
qed

lemma world_holds_simps:
  "world_holds P Q (w\<lparr>wd_tracker := t\<rparr>) = world_holds P Q w"
  "world_holds P Q (w\<lparr>wd_adapter := h\<rparr>) = world_holds P Q w"
  "world_holds P Q (w\<lparr>wd_mktRepo := m\<rparr>) = world_holds P Q w"
  by (simp_all add: world_holds_def store_of_def store_holds_contacts [of "wd_fraudRepo w" m "wd_mktRepo w"])

lemma world_holds_purged:
  assumes "world_holds P Q w"
  shows "world_holds P Q (purged u l w)"
proof -
  have "w_delete_events u w = (fst (DeleteUserEvents u (store_of w)),
      w\<lparr>wd_fraudRepo := fst (snd (DeleteUserEvents u (store_of w))), wd_mktRepo := snd (snd (DeleteUserEvents u (store_of w)))\<rparr>)"
    by (simp add: w_delete_events_def store_of_def split_beta)
  then have "world_holds P Q (snd (w_delete_events u w))"
    using assms store_holds_purge [of "store_of w" u] by (simp add: world_holds_def store_of_def)
  then show ?thesis
    by (simp add: purged_def w_save_log_def w_delete_contact_def split_beta world_holds_simps)
qed

lemma world_holds_step: "sys_step s op s' \<Longrightarrow> world_holds P Q (snd s) \<Longrightarrow> world_holds P Q (snd s')"
proof (induction rule: sys_step.induct)
  case (sys_ingest_step env now r w rep w' st)
  from sys_ingest_step(1) show ?case
  proof (cases rule: sys_ingest_cases)
    case refused
    with sys_ingest_step(2) show ?thesis by (simp add: world_holds_simps)
  next
    case (published e rr b)
    with sys_ingest_step(2) broker_holds_publish_raw [OF published(3)] admitted_P [OF published(1)] show ?thesis
      by (simp add: world_holds_def store_of_def)
  qed
next
  case (sys_fraud_subscribe w s w' st)
  then obtain b where "SubscribeRaw (wd_broker w) = (s, b)" "w' = w\<lparr>wd_broker := b\<rparr>"
    by (auto simp: w_subscribe_raw_def split: prod.splits)
  with sys_fraud_subscribe(2) broker_holds_step [OF st_subscribe_raw] show ?case
    by (fastforce simp: world_holds_def store_of_def)
next
  case (sys_marketing_subscribe w s w' st)
  then obtain b where "SubscribeScreened (wd_broker w) = (s, b)" "w' = w\<lparr>wd_broker := b\<rparr>"
    by (auto simp: w_subscribe_screened_def split: prod.splits)
  with sys_marketing_subscribe(2) broker_holds_step [OF st_subscribe_screened] show ?case
    by (fastforce simp: world_holds_def store_of_def)
next
  case (sys_screen_step ch w e w1 env clock st st' w')
  then have r: "world_holds P Q w1" "P e" using world_holds_recv_raw by auto
  obtain se rr b where se: "screen DefaultRules clock e st = (se, st')" "PublishScreened env se (wd_broker w1) = Ret (rr, b)"
    "w' = w1\<lparr>wd_fraudRepo := snd (SaveEvent se (wd_fraudRepo w1)),
            wd_tracker := IncrementMetric (verdict_metric se) 1 (wd_tracker w1), wd_broker := b\<rparr>"
    using sys_screen_step(3) by (rule sys_screen_cases) blast
  have "Q se" using screened_Q [OF r(2) se(1)] .
  then have "store_holds Q (snd (SaveEvent se (wd_fraudRepo w1)), wd_mktRepo w1)"
    using r by (intro store_holds_save) (simp_all add: world_holds_def store_of_def)
  with broker_holds_publish_screened [OF se(2)] \<open>Q se\<close> se r show ?case
    by (simp add: world_holds_def store_of_def)
next
  case (sys_skip_step ch w se w1 st)
  with world_holds_recv_screened show ?case by auto
next
  case (sys_workflow_step ch w se w1 ce now aenv now' w' st)
  then have "world_holds P Q w1" using world_holds_recv_screened by auto
  then have "world_holds P Q w'"
    using sys_workflow_cases [OF sys_workflow_step(4)] world_holds_simps by metis
  then show ?case by simp
next
  case (sys_purge_step sha256 now1 now2 r w rep w' st)
  from sys_purge_step(1) show ?case
    by (cases rule: sys_purge_cases) (use sys_purge_step(2) in \<open>auto intro: world_holds_purged\<close>)
next
  case (sys_close w b st)
  with broker_holds_step [OF st_close] show ?case
    by (fastforce simp: world_holds_def store_of_def)
qed auto

lemma world_holds_New: "world_holds P Q (snd (NewMonolith cfg now))"
  by (simp add: world_holds_def broker_holds_def broker_wf_New store_holds_def store_of_def NewMonolith_def buffered_def
      repo_inv_New repo_events_slice) (simp add: NewMemoryFraudRepository_def)

lemma world_holds_run: "run sys_step (NewMonolith cfg now) ops s \<Longrightarrow> world_holds P Q (snd s)"
  using run_invariant [of sys_step "NewMonolith cfg now" ops s "\<lambda>s. world_holds P Q (snd s)"] world_holds_New world_holds_step
  by blast

end

section \<open>Only conforming events\<close>

abbreviation conforming_screened :: "screened_event \<Rightarrow> bool" where
  "conforming_screened se \<equiv> conforming (Tracking se)"

interpretation conf: event_invariant conforming conforming_screened
  by unfold_locales (auto simp: admitted_conforming screen_default Let_def)

abbreviation world_conf :: "world \<Rightarrow> bool" where
  "world_conf \<equiv> world_holds conforming conforming_screened"

lemmas world_conf_def = world_holds_def [of conforming conforming_screened]
  and broker_conf_def = broker_holds_def [of conforming conforming_screened]
  and store_conf_def = store_holds_def [of conforming_screened]
  and world_conf_recv_raw = conf.world_holds_recv_raw
  and world_conf_recv_screened = conf.world_holds_recv_screened
  and world_conf_purged = conf.world_holds_purged
  and world_conf_step = conf.world_holds_step
  and world_conf_New = conf.world_holds_New
  and world_conf_run = conf.world_holds_run

section \<open>The counters\<close>

definition w_counter :: "string \<Rightarrow> world \<Rightarrow> int" where
  "w_counter name w = counter name (wd_tracker w)"

interpretation world_telemetry: telemetry w_increment w_counter
  by unfold_locales
    (auto simp: w_counter_def w_increment_def memory_telemetry.counted memory_telemetry.others memory_telemetry.in_range)

interpretation world_workflow: workflow_ports w_increment w_counter "w_sync ce now env" w_save_contact for ce now env
  by unfold_locales
    (auto simp: w_counter_def w_sync_def w_save_contact_def split: outcome.splits prod.splits)

text \<open>How much a step adds to the received events, to the screened ones and to the CRM attempts.\<close>

fun received_by :: "system_op \<Rightarrow> int" where
  "received_by (SysIngest r rep) = (if counted_reply rep then 1 else 0)"
| "received_by _ = 0"

fun screened_by :: "system_op \<Rightarrow> int" where
  "screened_by (SysScreen ch e) = 1"
| "screened_by _ = 0"

fun attempts_by :: "system_op \<Rightarrow> int" where
  "attempts_by (SysWorkflow ch se) =
     (if \<not> IsFraudulent se \<and> workflow_of (EventType (Tracking se)) \<noteq> None then 1 else 0)"
| "attempts_by _ = 0"

definition sum_ops :: "(system_op \<Rightarrow> int) \<Rightarrow> system_op list \<Rightarrow> int" where
  "sum_ops f ops = sum_list (map f ops)"

text \<open>Equality of 64-bit counters.\<close>

lemma wrap64_cong: "wrap64 x = wrap64 y \<Longrightarrow> wrap64 (x + z) = wrap64 (y + z)"
  by (metis wrap64_add_left)

lemma wrap64_add_right: "wrap64 (x + wrap64 y) = wrap64 (x + y)"
  using wrap64_add_left [of y x] by (simp add: add.commute)

lemma names: "''total_received'' \<in> set metric_names" "''legitimate'' \<in> set metric_names" "''fraudulent'' \<in> set metric_names"
  "''crm_attempts'' \<in> set metric_names" "''crm_successes'' \<in> set metric_names" "''crm_failures'' \<in> set metric_names"
  by (simp_all add: metric_names_def)

lemma w_counter_simps:
  "w_counter name (w\<lparr>wd_broker := b\<rparr>) = w_counter name w"
  "w_counter name (w\<lparr>wd_adapter := h\<rparr>) = w_counter name w"
  "w_counter name (w\<lparr>wd_fraudRepo := m\<rparr>) = w_counter name w"
  "w_counter name (w\<lparr>wd_mktRepo := c\<rparr>) = w_counter name w"
  "w_counter name (w\<lparr>wd_tracker := t\<rparr>) = counter name t"
  by (simp_all add: w_counter_def)

definition counters_step :: "system_op \<Rightarrow> world \<Rightarrow> world \<Rightarrow> bool" where
  "counters_step op w w' \<longleftrightarrow>
     w_counter ''total_received'' w' = wrap64 (w_counter ''total_received'' w + received_by op) \<and>
     wrap64 (w_counter ''legitimate'' w' + w_counter ''fraudulent'' w') =
       wrap64 (w_counter ''legitimate'' w + w_counter ''fraudulent'' w + screened_by op) \<and>
     w_counter ''crm_attempts'' w' = wrap64 (w_counter ''crm_attempts'' w + attempts_by op) \<and>
     wrap64 (w_counter ''crm_successes'' w' + w_counter ''crm_failures'' w') =
       wrap64 (w_counter ''crm_successes'' w + w_counter ''crm_failures'' w + attempts_by op)"

definition counters_ok :: "world \<Rightarrow> bool" where
  "counters_ok w \<longleftrightarrow> (\<forall>name. is_int64 (w_counter name w))"

lemma counters_same:
  "counters_ok w \<Longrightarrow> wd_tracker w' = wd_tracker w \<Longrightarrow>
   received_by op = 0 \<Longrightarrow> screened_by op = 0 \<Longrightarrow> attempts_by op = 0 \<Longrightarrow> counters_step op w w' \<and> counters_ok w'"
  by (simp add: counters_step_def counters_ok_def wrap64_id w_counter_def)

lemma counters_ok_same: "counters_ok w \<Longrightarrow> wd_tracker w' = wd_tracker w \<Longrightarrow> counters_ok w'"
  by (simp add: counters_ok_def w_counter_def)

lemma tracker_frames:
  "w_subscribe_raw w = (s, w') \<Longrightarrow> wd_tracker w' = wd_tracker w"
  "w_subscribe_screened w = (s, w') \<Longrightarrow> wd_tracker w' = wd_tracker w"
  "w_recv_raw ch w = (r, w') \<Longrightarrow> wd_tracker w' = wd_tracker w"
  "w_recv_screened ch w = (rs, w') \<Longrightarrow> wd_tracker w' = wd_tracker w"
  "wd_tracker (purged u l w) = wd_tracker w"
  by (auto simp: wiring purged_def split_beta)

lemma sys_purge_tracker: "sys_purge sha256 now1 now2 r w = (rep, w') \<Longrightarrow> wd_tracker w' = wd_tracker w"
  by (erule sys_purge_cases) (simp_all add: tracker_frames)

lemma counters_sys_step:
  "sys_step s op s' \<Longrightarrow> counters_ok (snd s) \<Longrightarrow> counters_step op (snd s) (snd s') \<and> counters_ok (snd s')"
proof (induction rule: sys_step.induct)
  case (sys_ingest_step env now r w rep w' st)
  have "w_counter name w' = counter name (count_received rep (wd_tracker w))" for name
    using sys_ingest_step(1) by (rule sys_ingest_cases) (simp_all add: w_counter_def)
  then show ?case
    using sys_ingest_step(2) is_int64_wrap64
    by (auto simp: counters_step_def counters_ok_def count_received_def counter_IncrementMetric names wrap64_id
        add64_def w_counter_def)
next
  case (sys_screen_step ch w e w1 env clock st st' w')
  have w1: "w_counter name w1 = w_counter name w" for name
    using sys_screen_step(2) by (auto simp: w_recv_raw_def w_counter_simps split: prod.splits)
  obtain se where "w_counter name w' = counter name (IncrementMetric (verdict_metric se) 1 (wd_tracker w1))" for name
    using sys_screen_step(3) by (rule sys_screen_cases) (simp add: w_counter_def)
  then show ?case
    using sys_screen_step.prems is_int64_wrap64 w1
    by (cases "IsFraudulent se")
      (simp_all add: counters_step_def counters_ok_def counter_IncrementMetric names wrap64_id
        add64_def verdict_metric_def wrap64_add_left wrap64_add_right w_counter_def add.assoc add.commute add.left_commute)
next
  case (sys_workflow_step ch w se w1 ce now aenv now' w' st)
  have w1: "w_counter name w1 = w_counter name w" for name
    using sys_workflow_step(2) by (auto simp: w_recv_screened_def w_counter_simps split: prod.splits)
  from sys_workflow_step(4) show ?case
  proof (cases rule: sys_workflow_cases)
    case no_workflow
    with sys_workflow_step.prems w1 show ?thesis
      by (simp add: counters_step_def counters_ok_def wrap64_id)
  next
    case (workflow wf c h r ok)
    then have "w_counter name w' = counter name (IncrementMetric (if ok then ''crm_successes'' else ''crm_failures'') 1
        (IncrementMetric ''crm_attempts'' 1 (wd_tracker w1)))" for name
      by (simp add: w_counter_simps)
    then show ?thesis
      using sys_workflow_step.prems sys_workflow_step(3) workflow(1) is_int64_wrap64 w1
      by (cases ok)
        (simp_all add: counters_step_def counters_ok_def counter_IncrementMetric names wrap64_id
          add64_def wrap64_add_left wrap64_add_right w_counter_def add.assoc add.commute add.left_commute)
  qed
qed (auto simp: counters_same tracker_frames sys_purge_tracker intro: counters_ok_same)

lemma sum_ops_simps: "sum_ops f [] = 0" "sum_ops f (op # ops) = f op + sum_ops f ops"
  by (simp_all add: sum_ops_def)

lemma counters_run:
  "run sys_step s ops s' \<Longrightarrow> counters_ok (snd s) \<Longrightarrow>
   w_counter ''total_received'' (snd s') = wrap64 (w_counter ''total_received'' (snd s) + sum_ops received_by ops) \<and>
   wrap64 (w_counter ''legitimate'' (snd s') + w_counter ''fraudulent'' (snd s')) =
     wrap64 (w_counter ''legitimate'' (snd s) + w_counter ''fraudulent'' (snd s) + sum_ops screened_by ops) \<and>
   w_counter ''crm_attempts'' (snd s') = wrap64 (w_counter ''crm_attempts'' (snd s) + sum_ops attempts_by ops) \<and>
   wrap64 (w_counter ''crm_successes'' (snd s') + w_counter ''crm_failures'' (snd s')) =
     wrap64 (w_counter ''crm_successes'' (snd s) + w_counter ''crm_failures'' (snd s) + sum_ops attempts_by ops) \<and>
   counters_ok (snd s')"
proof (induction rule: run.induct)
  case (run_nil s)
  then show ?case by (simp add: sum_ops_simps counters_ok_def wrap64_id)
next
  case (run_cons s op s1 ops s')
  have step: "counters_step op (snd s) (snd s1)" "counters_ok (snd s1)"
    using counters_sys_step [OF run_cons.hyps(1) run_cons.prems] by simp_all
  note IH = run_cons.IH [OF step(2)]
  have one: "x1 = wrap64 (x + f op) \<Longrightarrow> x' = wrap64 (x1 + sum_ops f ops) \<Longrightarrow> x' = wrap64 (x + sum_ops f (op # ops))"
    for x x1 x' f
    by (simp add: sum_ops_simps wrap64_add_left add.assoc)
  have two: "wrap64 x1 = wrap64 (x + f op) \<Longrightarrow> wrap64 x' = wrap64 (x1 + sum_ops f ops) \<Longrightarrow>
      wrap64 x' = wrap64 (x + sum_ops f (op # ops))" for x x1 x' f
    using wrap64_cong [of x1 "x + f op" "sum_ops f ops"] by (simp add: sum_ops_simps add.assoc)
  show ?case
    using step(1) IH unfolding counters_step_def by (blast intro: one two)
qed

lemma counters_New: "w_counter name (snd (NewMonolith cfg now)) = 0" "counters_ok (snd (NewMonolith cfg now))"
  by (simp_all add: NewMonolith_def w_counter_def counters_ok_def is_int64_def int64_min_def int64_max_def)

section \<open>No step panics\<close>

lemma do_loop_maxRetries:
  "rc_maxRetries (ds_client (snd (do_loop env a prev st))) = rc_maxRetries (ds_client st)"
  by (induction a prev st rule: do_loop_induct [where env = env])
    (auto simp: do_loop_stop do_loop_done do_loop_ok do_loop_retry dest: one_attempt_state(1))

lemma Do_maxRetries: "rc_maxRetries (ds_client (snd (Do now env req rc))) = rc_maxRetries rc"
  by (cases rule: Do_cases [of now rc env req]) (simp_all add: do_loop_maxRetries)

lemma SyncContact_client:
  assumes "SyncContact ce now env c h = Ret (r, h')"
  shows "h' = h \<or> (\<exists>req. ha_crmClient h' = ds_client (snd (Do now env req (ha_crmClient h))))"
proof -
  let ?req = "(NewRequest ''POST'' (ha_crmURL h)
    (ce_marshal ce (contact_document (ce_show_time ce) c)))\<lparr>rq_contentType := ''application/json''\<rparr>"
  have "h' = h \<or> ha_crmClient h' = ds_client (snd (Do now env ?req (ha_crmClient h)))"
    using assms
    by (auto simp: SyncContact_def Let_def split: option.splits prod.splits outcome.splits do_result.splits if_splits)
  then show ?thesis by blast
qed

lemma SyncContact_maxRetries:
  assumes "SyncContact ce now env c h = Ret (r, h')"
  shows "rc_maxRetries (ha_crmClient h') = rc_maxRetries (ha_crmClient h)"
  using SyncContact_client [OF assms] Do_maxRetries by metis

definition world_ok :: "world \<Rightarrow> bool" where
  "world_ok w \<longleftrightarrow> world_conf w \<and> rc_maxRetries (ha_crmClient (wd_adapter w)) = 2"

lemma adapter_frames:
  "w_subscribe_raw w = (s, w') \<Longrightarrow> wd_adapter w' = wd_adapter w"
  "w_subscribe_screened w = (s, w') \<Longrightarrow> wd_adapter w' = wd_adapter w"
  "w_recv_raw ch w = (r, w') \<Longrightarrow> wd_adapter w' = wd_adapter w"
  "w_recv_screened ch w = (rs, w') \<Longrightarrow> wd_adapter w' = wd_adapter w"
  "wd_adapter (purged u l w) = wd_adapter w"
  by (auto simp: wiring purged_def split_beta)

lemma adapter_step:
  "sys_step s op s' \<Longrightarrow>
   rc_maxRetries (ha_crmClient (wd_adapter (snd s'))) = rc_maxRetries (ha_crmClient (wd_adapter (snd s)))"
proof (induction rule: sys_step.induct)
  case (sys_ingest_step env now r w rep w' st)
  then show ?case by (rule sys_ingest_cases) simp_all
next
  case (sys_screen_step ch w e w1 env clock st st' w')
  from sys_screen_step(3) show ?case
    by (rule sys_screen_cases) (simp add: adapter_frames(3) [OF sys_screen_step(2)])
next
  case (sys_workflow_step ch w se w1 ce now aenv now' w' st)
  from sys_workflow_step(4) show ?case
    by (rule sys_workflow_cases)
      (simp_all add: adapter_frames(4) [OF sys_workflow_step(2)] SyncContact_maxRetries)
next
  case (sys_purge_step sha256 now1 now2 r w rep w' st)
  then show ?case by (rule sys_purge_cases) (simp_all add: adapter_frames)
qed (simp_all add: adapter_frames)

lemma world_ok_run:
  assumes "run sys_step (NewMonolith cfg now) ops s"
  shows "world_ok (snd s)"
proof -
  have "rc_maxRetries (ha_crmClient (wd_adapter (snd s))) = 2"
    using run_invariant [of sys_step "NewMonolith cfg now" ops s
        "\<lambda>s. rc_maxRetries (ha_crmClient (wd_adapter (snd s))) = 2"] adapter_step assms
    by (simp add: NewMonolith_def NewHTTPCRMAdapter_def NewResilientClient_def)
  with world_conf_run [OF assms] show ?thesis by (simp add: world_ok_def)
qed

lemma w_publish_raw_no_panic: "broker_wf (wd_broker w) \<Longrightarrow> \<exists>r w'. w_publish_raw env e w = Ret (r, w')"
  using PublishRaw_spec [of "wd_broker w" env e] by (auto simp: w_publish_raw_def)

lemma sys_ingest_no_panic: "broker_wf (wd_broker w) \<Longrightarrow> no_panic (sys_ingest env now r w)"
proof (cases "admitted now r")
  case None
  then show ?thesis
    by (cases rule: HandleIngest_refused [OF None, where 'w = world]) (simp_all add: sys_ingest_def)
next
  case (Some e)
  assume "broker_wf (wd_broker w)"
  then obtain rr w' where "w_publish_raw env e w = Ret (rr, w')" using w_publish_raw_no_panic by blast
  with Some show ?thesis by (cases rr) (simp_all add: sys_ingest_def HandleIngest_admitted)
qed

lemma sys_screen_no_panic: "broker_wf (wd_broker w) \<Longrightarrow> \<exists>s'. sys_screen env clock e (st, w) = Ret s'"
proof -
  assume wf: "broker_wf (wd_broker w)"
  obtain se st' where sc: "screen DefaultRules clock e st = (se, st')" by fastforce
  obtain r b where "PublishScreened env se (wd_broker w) = Ret (r, b)"
    using PublishScreened_spec [OF wf] by blast
  with sc show ?thesis
    by (simp add: sys_screen_def ScreenEvent_def wiring SaveEvent_def Let_def)
qed

lemma sys_workflow_no_panic:
  assumes "rc_maxRetries (ha_crmClient (wd_adapter w)) = 2"
  shows "\<exists>w'. sys_workflow ce now env now' se w = Ret w'"
proof (cases "workflow_of (EventType (Tracking se))")
  case (Some wf)
  have "no_panic (SyncContact ce now env (new_contact now' wf (Tracking se)) (wd_adapter w))"
    using assms by (intro SyncContact_no_panic) simp
  then obtain r h where "SyncContact ce now env (new_contact now' wf (Tracking se)) (wd_adapter w) = Ret (r, h)"
    by (cases "SyncContact ce now env (new_contact now' wf (Tracking se)) (wd_adapter w)") auto
  with Some show ?thesis
    by (cases r) (simp_all add: sys_workflow_def ProcessMarketingWorkflow_def wiring Let_def)
qed (simp add: sys_workflow_def ProcessMarketingWorkflow_def)

section \<open>The purge\<close>

lemma w_delete_events_world:
  assumes "world_conf w"
  shows "snd (w_delete_events u w) =
    w\<lparr>wd_fraudRepo := (wd_fraudRepo w)\<lparr>fr_events := (fr_events (wd_fraudRepo w))(u := None)\<rparr>,
      wd_mktRepo := crm_deleter u (wd_mktRepo w)\<rparr>"
  using assms
  by (simp add: world_conf_def store_conf_def store_of_def w_delete_events_def DeleteUserEvents_def Let_def)

lemma purged_world:
  assumes "world_conf w"
  shows "purged u l w =
    w\<lparr>wd_fraudRepo := (wd_fraudRepo w)\<lparr>fr_events := (fr_events (wd_fraudRepo w))(u := None)\<rparr>,
      wd_mktRepo := snd (SavePrivacyLog l (snd (DeleteCRMContact u (snd (DeleteCRMContact u (wd_mktRepo w))))))\<rparr>"
  by (simp add: purged_def w_delete_events_world [OF assms] w_save_log_def w_delete_contact_def split_beta crm_deleter_def)

lemma purged_events:
  assumes "world_conf w"
  shows "w_get_events u' (purged u l w) = (if u' = u then Inr [] else w_get_events u' w)"
  by (simp add: purged_world [OF assms] w_get_events_def GetEventsByUserID_def)

lemma purged_contacts:
  assumes "world_conf w"
  shows "repo_contact u' (wd_mktRepo (purged u l w)) = (if u' = u then None else repo_contact u' (wd_mktRepo w))"
    and "repo_logs v (wd_mktRepo (purged u l w)) =
      (if v = pl_UserID l then repo_logs v (wd_mktRepo w) @ [l] else repo_logs v (wd_mktRepo w))"
proof -
  let ?m1 = "snd (DeleteCRMContact u (wd_mktRepo w))"
  let ?m2 = "snd (DeleteCRMContact u ?m1)"
  have d: "DeleteCRMContact u (wd_mktRepo w) = (None, ?m1)" "DeleteCRMContact u ?m1 = (None, ?m2)"
    and l: "SavePrivacyLog l ?m2 = (None, snd (SavePrivacyLog l ?m2))"
    by (simp_all add: DeleteCRMContact_def SavePrivacyLog_def)
  note facts = memory_marketing.purge_and_log [OF d(2) l] memory_marketing.delete_contact [OF d(1)]
    memory_marketing.delete_logs [of _ u "wd_mktRepo w"]
  show "repo_contact u' (wd_mktRepo (purged u l w)) = (if u' = u then None else repo_contact u' (wd_mktRepo w))"
    using facts by (simp add: purged_world [OF assms])
  show "repo_logs v (wd_mktRepo (purged u l w)) =
      (if v = pl_UserID l then repo_logs v (wd_mktRepo w) @ [l] else repo_logs v (wd_mktRepo w))"
    using facts by (simp add: purged_world [OF assms])
qed

end
