(* ===== verification/SystemWorkers.thy ===== *)
theory SystemWorkers
  imports Monolith
begin

text \<open>
  The two background workers on the state of the whole program: both are consumers in the sense
  of \<^verbatim>\<open>Worker\<close>, the fraud worker of the raw events and the marketing worker of the screened ones.
\<close>

section \<open>The workers on the world\<close>

definition fraud_recv :: "nat \<Rightarrow> system \<Rightarrow> tracking_event received \<times> system" where
  "fraud_recv ch s = (case s of (st, w) \<Rightarrow> case w_recv_raw ch w of (r, w') \<Rightarrow> (r, st, w'))"

definition fraud_handle :: "(nat \<Rightarrow> select_env) \<Rightarrow> turn \<Rightarrow> tracking_event \<Rightarrow> system \<Rightarrow> system outcome" where
  "fraud_handle env t e s = sys_screen env (tn_clock t) e s"

definition fraud_queue :: "nat \<Rightarrow> system \<Rightarrow> tracking_event list" where
  "fraud_queue ch s = buffered (rawSubs (wd_broker (snd s))) ch"

definition broker_down :: "system \<Rightarrow> bool" where
  "broker_down s \<longleftrightarrow> br_closed (wd_broker (snd s))"

text \<open>The raw events of a user in the repository.\<close>

definition stored :: "string \<Rightarrow> system \<Rightarrow> tracking_event list" where
  "stored u s = map Tracking (repo_events u (store_of (snd s)))"

definition screened_so_far :: "nat \<Rightarrow> (string \<Rightarrow> tracking_event list) \<Rightarrow> tracking_event list \<Rightarrow> system \<Rightarrow> bool" where
  "screened_so_far ch base es s \<longleftrightarrow> broker_wf (wd_broker (snd s)) \<and> ch < length (rawSubs (wd_broker (snd s))) \<and>
     (\<forall>u. stored u s = base u @ filter (\<lambda>e. UserID e = u) es)"

lemma recv_front_chan:
  assumes "ch < length chs" "buffered chs ch = e # q"
  shows "fst (chan_recv (chs ! ch)) = Received e" "buffered (chs[ch := snd (chan_recv (chs ! ch))]) ch = q"
  using assms by (simp_all add: buffered_def)

lemma w_recv_front:
  assumes "ch < length (rawSubs (wd_broker w))" "buffered (rawSubs (wd_broker w)) ch = e # q"
  shows "\<exists>w1. w_recv_raw ch w = (Received e, w1)"
  using recv_front_chan(1) [OF assms]
  by (cases "chan_recv (rawSubs (wd_broker w) ! ch)") (simp add: w_recv_raw_def RecvRaw_def del: chan_recv.simps)

lemma recv_empty_chan:
  assumes "ch < length chs" "buffered chs ch = []" "chans_ok c n chs"
  shows "chan_recv (chs ! ch) = (if c then ChanClosed else NotReady, chs ! ch)"
  using assms chans_ok_nth [OF assms(3,1)] by (simp add: buffered_def chan_ok_def)

lemma stored_screened:
  assumes "sys_screen env clock e (st, w) = Ret s'"
  shows "stored u s' = stored u (st, w) @ (if UserID e = u then [e] else [])"
    and "wd_broker (snd s') = wd_broker (snd s') \<and> (\<exists>se r. PublishScreened env se (wd_broker w) = Ret (r, wd_broker (snd s')))"
proof -
  obtain st' w' where s': "s' = (st', w')" by (cases s')
  obtain se rr b where se: "Tracking se = e" "PublishScreened env se (wd_broker w) = Ret (rr, b)"
    "w' = w\<lparr>wd_fraudRepo := snd (SaveEvent se (wd_fraudRepo w)),
            wd_tracker := IncrementMetric (verdict_metric se) 1 (wd_tracker w), wd_broker := b\<rparr>"
    using assms unfolding s' by (rule sys_screen_cases) blast
  have "repo_events u (store_of w') =
      (if u = event_user se then repo_events u (store_of w) @ [se] else repo_events u (store_of w))"
    using repo_save_events [of u se "store_of w"] se(3)
    by (simp add: repo_events_slice store_of_def repo_save_def split_beta)
  with se(1) show "stored u s' = stored u (st, w) @ (if UserID e = u then [e] else [])"
    by (auto simp: stored_def s' event_user_def)
  show "wd_broker (snd s') = wd_broker (snd s') \<and> (\<exists>se r. PublishScreened env se (wd_broker w) = Ret (r, wd_broker (snd s')))"
    using se(2,3) s' by auto
qed

interpretation fraud_worker:
  consumer "fraud_recv ch" "fraud_handle env" "fraud_queue ch" broker_down "screened_so_far ch base" for ch env base
proof unfold_locales
  fix es e q and s :: system
  assume "screened_so_far ch base es s" "fraud_queue ch s = e # q"
  then show "\<exists>s1. fraud_recv ch s = (Received e, s1)"
    using w_recv_front [of ch "snd s" e q]
    by (cases s) (auto simp: screened_so_far_def fraud_queue_def fraud_recv_def)
next
  fix es and s :: system
  assume a: "screened_so_far ch base es s" "fraud_queue ch s = []"
  obtain st w where s: "s = (st, w)" by (cases s)
  let ?b = "wd_broker w"
  have "chan_recv (rawSubs ?b ! ch) = (if br_closed ?b then ChanClosed else NotReady, rawSubs ?b ! ch)"
    using a by (intro recv_empty_chan) (auto simp: s screened_so_far_def fraud_queue_def broker_wf_def)
  then show "fraud_recv ch s = (if broker_down s then ChanClosed else NotReady, s)"
    by (simp add: s fraud_recv_def w_recv_raw_def RecvRaw_def broker_down_def)
next
  fix es e q and s s1 :: system and t :: turn
  assume a: "screened_so_far ch base es s" "fraud_queue ch s = e # q" "fraud_recv ch s = (Received e, s1)"
  obtain st w where s: "s = (st, w)" by (cases s)
  let ?b = "wd_broker w"
  let ?b1 = "?b\<lparr>rawSubs := (rawSubs ?b)[ch := snd (chan_recv (rawSubs ?b ! ch))]\<rparr>"
  have ch: "ch < length (rawSubs ?b)" and wf: "broker_wf ?b" using a(1) by (auto simp: s screened_so_far_def)
  have s1: "s1 = (st, w\<lparr>wd_broker := ?b1\<rparr>)"
    using a(3) by (simp add: s fraud_recv_def w_recv_raw_def RecvRaw_def split_beta)
  have wf1: "broker_wf ?b1"
    using wf chan_recv_ok [OF chans_ok_nth [OF _ ch]] by (simp add: broker_wf_def chans_ok_update)
  have q: "buffered (rawSubs ?b1) ch = q"
    using recv_front_chan(2) [OF ch] a(2) by (simp add: s fraud_queue_def)
  have "broker_wf (wd_broker (w\<lparr>wd_broker := ?b1\<rparr>))" using wf1 by simp
  then have "\<exists>s2. sys_screen env (tn_clock t) e s1 = Ret s2" unfolding s1 by (rule sys_screen_no_panic)
  then obtain s2 where s2: "sys_screen env (tn_clock t) e s1 = Ret s2" by blast
  obtain se r where pub: "PublishScreened env se ?b1 = Ret (r, wd_broker (snd s2))"
    using stored_screened(2) [OF s2 [unfolded s1]] by auto
  have b2: "broker_wf (wd_broker (snd s2))" "rawSubs (wd_broker (snd s2)) = rawSubs ?b1"
    "br_closed (wd_broker (snd s2)) = br_closed ?b"
    using PublishScreened_spec [OF wf1, of env se] PublishScreened_frame [OF pub] pub by auto
  have "stored u s2 = base u @ filter (\<lambda>e. UserID e = u) (es @ [e])" for u
    using stored_screened(1) [OF s2 [unfolded s1], of u] a(1)
    by (simp add: screened_so_far_def s stored_def store_of_def)
  with s2 b2 q ch show "\<exists>s2. fraud_handle env t e s1 = Ret s2 \<and> screened_so_far ch base (es @ [e]) s2 \<and>
      fraud_queue ch s2 = q \<and> broker_down s2 = broker_down s"
    by (auto simp: fraud_handle_def screened_so_far_def fraud_queue_def broker_down_def s)
qed

text \<open>The state in which the worker stops after \<open>k\<close> of the events that waited.\<close>

definition stopped_after :: "nat \<Rightarrow> system \<Rightarrow> nat \<Rightarrow> system \<Rightarrow> bool" where
  "stopped_after ch s k s' \<longleftrightarrow> k \<le> length (fraud_queue ch s) \<and> fraud_queue ch s' = drop k (fraud_queue ch s) \<and>
     (\<forall>u. stored u s' = stored u s @ filter (\<lambda>e. UserID e = u) (take k (fraud_queue ch s)))"

text \<open>The loop of \<open>Start\<close> once subscribed, on the program's state.\<close>

lemma fraud_recv_eta: "(\<lambda>(st, w). case w_recv_raw ch w of (r, w') \<Rightarrow> (r, st, w')) = fraud_recv ch"
  by (auto simp: fraud_recv_def)

lemma fraud_handle_eta:
  "(\<lambda>t event. ScreenEvent w_save_event w_increment (w_publish_screened env) DefaultRules (tn_clock t) event) = fraud_handle env"
  by (intro ext) (simp add: fraud_handle_def sys_screen_def)

lemma Start_consumes:
  "Start w_subscribe_raw w_recv_raw w_save_event w_increment (w_publish_screened env) DefaultRules turns s =
    (case w_subscribe_raw (snd s) of
       (Inl err, w) \<Rightarrow> Returned (Some err) (fst s, w)
     | (Inr ch, w) \<Rightarrow> consume (fraud_recv ch) (fraud_handle env) turns (fst s, w))"
  unfolding Start_def fraud_recv_eta fraud_handle_eta ..

section \<open>The marketing worker\<close>

definition marketing_recv :: "nat \<Rightarrow> world \<Rightarrow> screened_event received \<times> world" where
  "marketing_recv = w_recv_screened"

definition marketing_handle ::
  "crm_env \<Rightarrow> (turn \<Rightarrow> nat \<Rightarrow> attempt_env) \<Rightarrow> turn \<Rightarrow> screened_event \<Rightarrow> world \<Rightarrow> world outcome" where
  "marketing_handle ce aenv t se w =
     (if IsFraudulent se then Ret w else sys_workflow ce (tn_clock t 1) (aenv t) (tn_clock t 0) se w)"

lemma StartConsumer_consumes:
  "StartConsumer w_subscribe_screened w_recv_screened w_increment (\<lambda>t. w_sync ce (tn_clock t 1) (aenv t)) w_save_contact turns w =
    (case w_subscribe_screened w of
       (Inl err, w1) \<Rightarrow> Returned (Some err) w1
     | (Inr ch, w1) \<Rightarrow> consume (marketing_recv ch) (marketing_handle ce aenv) turns w1)"
  unfolding StartConsumer_def marketing_recv_def marketing_handle_def sys_workflow_def ..

definition marketing_queue :: "nat \<Rightarrow> world \<Rightarrow> screened_event list" where
  "marketing_queue ch w = buffered (screenedSubs (wd_broker w)) ch"

text \<open>The clean events of a user that trigger a workflow, and the contact the last of them leaves.\<close>

definition triggers :: "string \<Rightarrow> screened_event list \<Rightarrow> screened_event list" where
  "triggers u = filter (\<lambda>se. \<not> IsFraudulent se \<and> UserID (Tracking se) = u \<and> workflow_of (EventType (Tracking se)) \<noteq> None)"

definition contact_from :: "crm_contact option \<Rightarrow> screened_event \<Rightarrow> bool" where
  "contact_from c se \<longleftrightarrow> (\<exists>now ok wf. workflow_of (EventType (Tracking se)) = Some wf \<and>
     c = Some ((new_contact now wf (Tracking se))\<lparr>cc_SyncStatus := (if ok then ''synced'' else ''failed'')\<rparr>))"

definition contacts_after :: "(string \<Rightarrow> crm_contact option) \<Rightarrow> screened_event list \<Rightarrow> world \<Rightarrow> bool" where
  "contacts_after base es w \<longleftrightarrow> (\<forall>u. if triggers u es = [] then repo_contact u (wd_mktRepo w) = base u
     else contact_from (repo_contact u (wd_mktRepo w)) (last (triggers u es)))"

definition marketed_so_far :: "nat \<Rightarrow> (string \<Rightarrow> crm_contact option) \<Rightarrow> screened_event list \<Rightarrow> world \<Rightarrow> bool" where
  "marketed_so_far ch base es w \<longleftrightarrow> broker_wf (wd_broker w) \<and> ch < length (screenedSubs (wd_broker w)) \<and>
     rc_maxRetries (ha_crmClient (wd_adapter w)) = 2 \<and> contacts_after base es w"

lemma triggers_snoc:
  "triggers u (es @ [se]) = triggers u es @ (if \<not> IsFraudulent se \<and> UserID (Tracking se) = u \<and>
     workflow_of (EventType (Tracking se)) \<noteq> None then [se] else [])"
  by (simp add: triggers_def)

text \<open>One event: the broker and the other contacts stay, a clean event with a workflow sets its user's contact.\<close>

lemma marketing_handle_effect:
  assumes "rc_maxRetries (ha_crmClient (wd_adapter w)) = 2" "contacts_after base es w"
  shows "\<exists>w'. marketing_handle ce aenv t se w = Ret w' \<and> wd_broker w' = wd_broker w \<and>
    rc_maxRetries (ha_crmClient (wd_adapter w')) = 2 \<and> contacts_after base (es @ [se]) w'"
proof (cases "IsFraudulent se")
  case True
  with assms show ?thesis by (simp add: marketing_handle_def contacts_after_def triggers_snoc del: repo_contact_eq)
next
  case False
  obtain w' where w': "sys_workflow ce (tn_clock t 1) (aenv t) (tn_clock t 0) se w = Ret w'"
    using sys_workflow_no_panic [OF assms(1)] by blast
  then show ?thesis
  proof (cases rule: sys_workflow_cases)
    case no_workflow
    with assms False w' show ?thesis
      by (simp add: marketing_handle_def contacts_after_def triggers_snoc del: repo_contact_eq)
  next
    case (workflow wf c h r ok)
    let ?m = "snd (SaveCRMContact c (wd_mktRepo w))"
    have u: "cc_UserID c = UserID (Tracking se)" by (simp add: workflow(2) new_contact_def)
    have saved: "repo_contact u ?m = (if u = UserID (Tracking se) then Some c else repo_contact u (wd_mktRepo w))" for u
      using memory_marketing.save_contact [of c "wd_mktRepo w" ?m u] u by (simp add: SaveCRMContact_def)
    have "contact_from (Some c) se" using workflow(1,2) unfolding contact_from_def by blast
    with assms(2) False workflow(1) have "contacts_after base (es @ [se]) w'"
      by (simp add: contacts_after_def triggers_snoc workflow(5) saved del: repo_contact_eq)
    with False w' assms(1) SyncContact_maxRetries [OF workflow(3)] show ?thesis
      by (simp add: marketing_handle_def workflow(5))
  qed
qed

interpretation marketing_worker:
  consumer "marketing_recv ch" "marketing_handle ce aenv" "marketing_queue ch" "\<lambda>w. br_closed (wd_broker w)"
    "marketed_so_far ch base" for ch ce aenv base
proof unfold_locales
  fix es e q w
  assume a: "marketed_so_far ch base es w" "marketing_queue ch w = e # q"
  then show "\<exists>w1. marketing_recv ch w = (Received e, w1)"
    using recv_front_chan(1) [of ch "screenedSubs (wd_broker w)" e q]
    by (cases "chan_recv (screenedSubs (wd_broker w) ! ch)")
      (simp add: marketed_so_far_def marketing_queue_def marketing_recv_def w_recv_screened_def RecvScreened_def del: chan_recv.simps)
next
  fix es w
  assume a: "marketed_so_far ch base es w" "marketing_queue ch w = []"
  let ?b = "wd_broker w"
  have "chan_recv (screenedSubs ?b ! ch) = (if br_closed ?b then ChanClosed else NotReady, screenedSubs ?b ! ch)"
    using a by (intro recv_empty_chan) (auto simp: marketed_so_far_def marketing_queue_def broker_wf_def)
  then show "marketing_recv ch w = (if br_closed ?b then ChanClosed else NotReady, w)"
    by (simp add: marketing_recv_def w_recv_screened_def RecvScreened_def)
next
  fix es e q w w1 and t :: turn
  assume a: "marketed_so_far ch base es w" "marketing_queue ch w = e # q" "marketing_recv ch w = (Received e, w1)"
  let ?b = "wd_broker w"
  let ?b1 = "?b\<lparr>screenedSubs := (screenedSubs ?b)[ch := snd (chan_recv (screenedSubs ?b ! ch))]\<rparr>"
  have ch: "ch < length (screenedSubs ?b)" and wf: "broker_wf ?b" using a(1) by (auto simp: marketed_so_far_def)
  have w1: "w1 = w\<lparr>wd_broker := ?b1\<rparr>"
    using a(3) by (simp add: marketing_recv_def w_recv_screened_def RecvScreened_def split_beta)
  have wf1: "broker_wf ?b1"
    using wf chan_recv_ok [OF chans_ok_nth [OF _ ch]] by (simp add: broker_wf_def chans_ok_update)
  have q: "buffered (screenedSubs ?b1) ch = q"
    using recv_front_chan(2) [OF ch] a(2) by (simp add: marketing_queue_def)
  have "rc_maxRetries (ha_crmClient (wd_adapter w1)) = 2" "contacts_after base es w1"
    using a(1) by (simp_all add: w1 marketed_so_far_def contacts_after_def del: repo_contact_eq)
  then obtain w2 where w2: "marketing_handle ce aenv t e w1 = Ret w2" "wd_broker w2 = wd_broker w1"
      "rc_maxRetries (ha_crmClient (wd_adapter w2)) = 2" "contacts_after base (es @ [e]) w2"
    using marketing_handle_effect by blast
  have b: "broker_wf (wd_broker w1)" "ch < length (screenedSubs (wd_broker w1))"
    "buffered (screenedSubs (wd_broker w1)) ch = q" "br_closed (wd_broker w1) = br_closed (wd_broker w)"
    using wf1 q ch by (simp_all add: w1)
  from w2 b show "\<exists>w2. marketing_handle ce aenv t e w1 = Ret w2 \<and> marketed_so_far ch base (es @ [e]) w2 \<and>
      marketing_queue ch w2 = q \<and> br_closed (wd_broker w2) = br_closed (wd_broker w)"
    by (intro exI [of _ w2]) (simp add: marketed_so_far_def marketing_queue_def)
qed

end
