(* ===== verification/SampleRuns.thy ===== *)
theory SampleRuns
  imports SystemWorkers
begin

text \<open>
  A short run of the program on which the properties of the whole program are tried: the workers subscribe, a
  sign-up is posted, the fraud worker screens it and finds it clean.
\<close>

section \<open>A sample run\<close>

text \<open>A sign-up as a client posts it, and the event the gateway makes of it.\<close>

definition sample_request :: api_request where
  "sample_request = \<lparr>ar_method = ''POST'', ar_query = [],
     ar_body = Some (JObj [(''event_id'', JStr ''e1''), (''user_id'', JStr ''u1''), (''event_type'', JStr ''signup''),
       (''user_agent'', JStr ''Mozilla'')])\<rparr>"

definition sample_event :: tracking_event where
  "sample_event = zero_tracking_event\<lparr>EventID := ''e1'', UserID := ''u1'', EventType := ''signup'', UserAgent := ''Mozilla'',
     Timestamp := 5, IPAddress := AnonymizeIP []\<rparr>"

lemma sample_admitted: "admitted 5 sample_request = Some sample_event"
  by (simp add: admitted_def sample_request_def decode_body_def decode_tracking_event_def tracking_fields_def find_field_def
      zero_tracking_event_def CheckGDPRConsent_def IsZero_def sample_event_def)

text \<open>The program after the fraud worker has subscribed and the sample was posted.\<close>

definition cfg0 :: config where
  "cfg0 = LoadConfig (\<lambda>k. None)"

definition accepted_reply :: reply where
  "accepted_reply = json_reply StatusAccepted
     (BText ''{\"status\": \"accepted\", \"message\": \"event queued for screening\"}'')"

definition booted :: world where
  "booted = snd (w_subscribe_raw (snd (NewMonolith cfg0 0)))"

definition posted :: world where
  "posted = w_increment ''total_received'' 1
     (booted\<lparr>wd_broker := (wd_broker booted)\<lparr>rawSubs := map (offered sample_event) (rawSubs (wd_broker booted))\<rparr>\<rparr>)"

lemma sample_boot:
  "sys_step (NewMonolith cfg0 0) (SysFraudSubscribe (Inr 0)) (NewRuleState, booted)"
  "rawSubs (wd_broker booted) = [make_chan 10000]"
proof -
  have "NewMonolith cfg0 0 = (NewRuleState, snd (NewMonolith cfg0 0))" by (simp add: NewMonolith_def)
  moreover have "w_subscribe_raw (snd (NewMonolith cfg0 0)) = (Inr 0, booted)"
    by (simp add: booted_def w_subscribe_raw_def NewMonolith_def SubscribeRaw_def NewInMemoryBroker_def broker_buffer_def)
  ultimately show "sys_step (NewMonolith cfg0 0) (SysFraudSubscribe (Inr 0)) (NewRuleState, booted)"
    using sys_fraud_subscribe by metis
  show "rawSubs (wd_broker booted) = [make_chan 10000]"
    by (simp add: booted_def w_subscribe_raw_def NewMonolith_def SubscribeRaw_def NewInMemoryBroker_def broker_buffer_def)
qed

lemma sample_posted: "sys_ingest live_env 5 sample_request booted = Ret (accepted_reply, posted)"
proof -
  have "run broker_step (NewInMemoryBroker 10000) [OpSubscribeRaw (Inr 0)] (wd_broker booted)"
    by (simp add: booted_def w_subscribe_raw_def NewMonolith_def broker_eval broker_buffer_def)
  then have wf: "broker_wf (wd_broker booted)" by (rule reachable_wf)
  have "\<not> br_closed (wd_broker booted)"
    by (simp add: booted_def w_subscribe_raw_def NewMonolith_def SubscribeRaw_def NewInMemoryBroker_def broker_buffer_def)
  with wf have "PublishRaw live_env sample_event (wd_broker booted) =
      Ret (None, (wd_broker booted)\<lparr>rawSubs := map (offered sample_event) (rawSubs (wd_broker booted))\<rparr>)"
    using send_all_live [of live_env "bufferSize (wd_broker booted)" "rawSubs (wd_broker booted)" 0 sample_event]
    by (simp add: PublishRaw_def broker_wf_def live_env_def)
  then show ?thesis
    by (simp add: sys_ingest_def HandleIngest_admitted [OF sample_admitted] w_publish_raw_def posted_def accepted_reply_def)
qed

definition sample_ops :: "system_op list" where
  "sample_ops = [SysFraudSubscribe (Inr 0), SysIngest sample_request accepted_reply]"

lemma sample_run: "run sys_step (NewMonolith cfg0 0) sample_ops (NewRuleState, posted)"
  using sample_boot(1) sys_ingest_step [OF sample_posted] by (auto simp: sample_ops_def)

lemma sample_queue: "buffered (rawSubs (wd_broker posted)) 0 = [sample_event]" "length (rawSubs (wd_broker posted)) = 1"
  "br_closed (wd_broker posted) = False"
  by (simp_all add: posted_def w_increment_def sample_boot(2) buffered_def offered_def make_chan_def)
    (simp add: booted_def w_subscribe_raw_def NewMonolith_def SubscribeRaw_def NewInMemoryBroker_def broker_buffer_def)

text \<open>Marketing subscribes too, and the fraud worker screens the sample: it is clean and waits for marketing.\<close>

definition screened_ops :: "system_op list" where
  "screened_ops = sample_ops @ [SysMarketingSubscribe (Inr 0), SysScreen 0 sample_event]"

lemma sample_clean: "\<not> IsFraudulent (fst (screen DefaultRules clock sample_event NewRuleState))"
  by (simp add: screen_default Let_def findings_def bot_hit_def rate_hit_def geo_hit_def sample_event_def
      zero_tracking_event_def NewRuleState_def in_window_def bot_signatures_def ascii_lower_def)

definition subscribed :: world where
  "subscribed = posted\<lparr>wd_broker := (wd_broker posted)\<lparr>screenedSubs := [make_chan 10000]\<rparr>\<rparr>"

lemma sample_subscribed:
  "run sys_step (NewMonolith cfg0 0) (sample_ops @ [SysMarketingSubscribe (Inr 0)]) (NewRuleState, subscribed)"
proof -
  have b: "screenedSubs (wd_broker posted) = []" "bufferSize (wd_broker posted) = 10000"
    by (simp_all add: posted_def w_increment_def booted_def w_subscribe_raw_def NewMonolith_def SubscribeRaw_def
        NewInMemoryBroker_def broker_buffer_def)
  have "w_subscribe_screened posted = (Inr 0, subscribed)"
    using sample_queue(3) by (simp add: subscribed_def w_subscribe_screened_def SubscribeScreened_def b)
  from sys_marketing_subscribe [OF this] show ?thesis using sample_run by (auto simp: run_append)
qed

lemma subscribed_simps [simp]:
  "rawSubs (wd_broker subscribed) = rawSubs (wd_broker posted)" "screenedSubs (wd_broker subscribed) = [make_chan 10000]"
  "br_closed (wd_broker subscribed) = br_closed (wd_broker posted)" "wd_fraudRepo subscribed = wd_fraudRepo posted"
  by (simp_all add: subscribed_def)

lemma sample_screened:
  "\<exists>st w se. run sys_step (NewMonolith cfg0 0) screened_ops (st, w) \<and> length (screenedSubs (wd_broker w)) = 1 \<and>
     buffered (screenedSubs (wd_broker w)) 0 = [se] \<and> Tracking se = sample_event \<and> \<not> IsFraudulent se"
proof -
  have raw: "0 < length (rawSubs (wd_broker subscribed))" "buffered (rawSubs (wd_broker subscribed)) 0 = [sample_event]"
    using sample_queue by simp_all
  obtain w2 where recv: "w_recv_raw 0 subscribed = (Received sample_event, w2)"
    using w_recv_front [of 0 "subscribed" sample_event "[]"] raw by auto
  then have b2: "screenedSubs (wd_broker w2) = [make_chan 10000]" "\<not> br_closed (wd_broker w2)"
    using sample_queue(3) by (auto simp: w_recv_raw_def RecvRaw_def split: prod.splits)
  have "world_conf subscribed" using world_conf_run [OF sample_subscribed] by simp
  then have "world_conf w2" using world_conf_recv_raw [OF _ recv] raw(1) by simp
  then have "broker_wf (wd_broker w2)" by (simp add: world_conf_def broker_conf_def)
  then obtain st w where scr: "sys_screen live_env (\<lambda>i. 5) sample_event (NewRuleState, w2) = Ret (st, w)"
    using sys_screen_no_panic by fastforce
  then obtain se rr b where se: "screen DefaultRules (\<lambda>i. 5) sample_event NewRuleState = (se, st)" "Tracking se = sample_event"
      "PublishScreened live_env se (wd_broker w2) = Ret (rr, b)" "wd_broker w = b"
    by (rule sys_screen_cases) simp
  have "chans_ok False 10000 [make_chan 10000]" by (simp add: make_chan_ok)
  from send_all_live [OF _ this, of live_env 0 se] se(3) b2
  have "screenedSubs (wd_broker w) = [offered se (make_chan 10000)]"
    by (auto simp: PublishScreened_def se(4) live_env_def)
  then have "length (screenedSubs (wd_broker w)) = 1" "buffered (screenedSubs (wd_broker w)) 0 = [se]"
    by (simp_all add: buffered_def offered_def make_chan_def)
  moreover have "run sys_step (NewMonolith cfg0 0) screened_ops (st, w)"
    using sample_subscribed sys_screen_step [OF _ recv scr] raw(1) by (auto simp: screened_ops_def run_append)
  moreover have "\<not> IsFraudulent se" using sample_clean [of "\<lambda>i. 5"] se(1) by simp
  ultimately show ?thesis using se(2) by blast
qed

text \<open>The sample run, and then the broker is closed.\<close>

lemma sample_closed:
  "\<exists>w. run sys_step (NewMonolith cfg0 0) (sample_ops @ [SysClose]) (NewRuleState, w) \<and> br_closed (wd_broker w) \<and>
     length (rawSubs (wd_broker w)) = 1 \<and> buffered (rawSubs (wd_broker w)) 0 = [sample_event] \<and>
     stored ''u1'' (NewRuleState, w) = []"
proof -
  have wf: "broker_wf (wd_broker posted)"
    using world_conf_run [OF sample_run] by (simp add: world_conf_def broker_conf_def)
  obtain b where b: "Close (wd_broker posted) = Ret (None, b)" "br_closed b"
      "map ch_buf (rawSubs b) = map ch_buf (rawSubs (wd_broker posted))"
    using Close_spec [OF wf] by blast
  have len: "length (rawSubs b) = 1" using arg_cong [OF b(3), of length] sample_queue(2) by simp
  then have "buffered (rawSubs b) 0 = [sample_event]"
    using arg_cong [OF b(3), of hd] sample_queue by (cases "rawSubs b"; cases "rawSubs (wd_broker posted)") (auto simp: buffered_def)
  moreover have "stored ''u1'' (NewRuleState, posted) = []"
    by (simp add: stored_def store_of_def posted_def w_increment_def booted_def w_subscribe_raw_def NewMonolith_def
        split_beta NewMemoryFraudRepository_def repo_events_slice)
  moreover have "run sys_step (NewMonolith cfg0 0) (sample_ops @ [SysClose]) (NewRuleState, posted\<lparr>wd_broker := b\<rparr>)"
    using sample_run sys_close [OF b(1)] by (auto simp: run_append)
  ultimately show ?thesis
    using b(2) len by (intro exI [of _ "posted\<lparr>wd_broker := b\<rparr>"]) (simp add: stored_def store_of_def)
qed

definition live_turn :: turn where
  "live_turn = \<lparr>tn_done = None, tn_pick_done = False, tn_clock = \<lambda>i. 5\<rparr>"

text \<open>Marketing handles the screened sample, or the broker is closed first.\<close>

lemma sample_marketed:
  "\<exists>se st w c. run sys_step (NewMonolith cfg0 0) (screened_ops @ [SysWorkflow 0 se]) (st, w) \<and> w_get_contact ''u1'' w = Inr c \<and>
     Tracking se = sample_event \<and> \<not> IsFraudulent se"
proof -
  obtain st w se where s: "run sys_step (NewMonolith cfg0 0) screened_ops (st, w)" "length (screenedSubs (wd_broker w)) = 1"
    "buffered (screenedSubs (wd_broker w)) 0 = [se]" "Tracking se = sample_event" "\<not> IsFraudulent se"
    using sample_screened by blast
  obtain w1 where r: "w_recv_screened 0 w = (Received se, w1)"
    using recv_front_chan(1) [of 0 "screenedSubs (wd_broker w)" se "[]"] s(2,3)
    by (cases "chan_recv (screenedSubs (wd_broker w) ! 0)") (simp add: w_recv_screened_def RecvScreened_def del: chan_recv.simps)
  have "rc_maxRetries (ha_crmClient (wd_adapter w1)) = 2"
    using world_ok_run [OF s(1)] adapter_frames(4) [OF r] by (simp add: world_ok_def)
  from sys_workflow_no_panic [OF this] obtain w' where
    w': "sys_workflow sample_crm_env 6 flaky_env 6 se w1 = Ret w'" by blast
  have "workflow_of (EventType (Tracking se)) = Some ''Welcome & Onboarding Campaign''"
    by (simp add: s(4) workflow_of_def sample_event_def)
  with w' have "\<exists>c. repo_contact ''u1'' (wd_mktRepo w') = Some c"
    by (cases rule: sys_workflow_cases) (auto simp: SaveCRMContact_def new_contact_def s(4) sample_event_def)
  then obtain c where "w_get_contact ''u1'' w' = Inr c" by (auto simp: w_get_contact_def GetCRMContact_def)
  moreover have "run sys_step (NewMonolith cfg0 0) (screened_ops @ [SysWorkflow 0 se]) (st, w')"
    using s(1,2) sys_workflow_step [OF _ r s(5) w', of st] by (auto simp: run_append)
  ultimately show ?thesis using s(4,5) by blast
qed

end
