(* ===== verification/SystemValues.thy ===== *)
theory SystemValues
  imports SampleRuns EventsJson
begin

text \<open>
  The values the program holds, in every state it reaches: its counters are 64-bit integers, the payloads of
  its events are values that \<^verbatim>\<open>encoding/json\<close> decodes and encodes, the verdict of a screened event is
  one the rules give, and the breaker of its CRM client has a history the breaker's contract allows.
\<close>

section \<open>Events\<close>

definition event_in_type :: "tracking_event \<Rightarrow> bool" where
  "event_in_type e \<longleftrightarrow> go_payload (Payload e)"

definition verdict_in_type :: "screened_event \<Rightarrow> bool" where
  "verdict_in_type se \<longleftrightarrow> event_in_type (Tracking se) \<and>
     f64 (FraudScore se) = FraudScore se \<and> 0 \<le> FraudScore se \<and> FraudScore se \<le> 1 \<and>
     (IsFraudulent se \<longleftrightarrow> 1 / 2 \<le> FraudScore se) \<and> (FraudReason se = [] \<longleftrightarrow> FraudScore se = 0)"

lemma admitted_in_type: "admitted now r = Some e \<Longrightarrow> event_in_type e"
  using decode_tracking_go_payload
  by (fastforce simp: admitted_def event_in_type_def decode_body_def split: option.splits if_splits)

lemma screened_in_type:
  assumes "event_in_type e" "screen DefaultRules clock e st = (se, st')"
  shows "verdict_in_type se"
proof -
  have se: "se = fst (screen DefaultRules clock e st)" by (simp add: assms(2))
  have "Tracking se = e" using assms(2) by (auto simp: screen_default Let_def)
  moreover have "f64 (FraudScore se) = FraudScore se"
    using assms(2) by (auto simp: screen_default Let_def)
  ultimately show ?thesis
    using assms(1) score_bounds [of clock e st] unfolding se [symmetric] verdict_in_type_def by force
qed

interpretation typed: event_invariant event_in_type verdict_in_type
  by unfold_locales (rule admitted_in_type screened_in_type; assumption)+

text \<open>No score is too large for a \<^verbatim>\<open>float64\<close>, so a screened event is one that JSON carries.\<close>

lemma verdict_travels:
  assumes "verdict_in_type se" "time_text_ok show_time (Timestamp (Tracking se))" "time_text_ok show_time (ScreenedAt se)"
  shows "screened_ok show_time se"
proof -
  have "\<not> f64_overflow (FraudScore se)"
    using assms(1) by (simp add: verdict_in_type_def f64_overflow_def)
  with assms show ?thesis by (simp add: screened_ok_def verdict_in_type_def event_in_type_def)
qed

text \<open>Both at once: conforming, and within its types.\<close>

definition good_event :: "tracking_event \<Rightarrow> bool" where
  "good_event e \<longleftrightarrow> conforming e \<and> event_in_type e"

definition good_screened :: "screened_event \<Rightarrow> bool" where
  "good_screened se \<longleftrightarrow> conforming (Tracking se) \<and> verdict_in_type se"

interpretation good: event_invariant good_event good_screened
proof unfold_locales
  show "admitted now r = Some e \<Longrightarrow> good_event e" for now r e
    by (simp add: good_event_def admitted_conforming admitted_in_type)
  show "good_event e \<Longrightarrow> screen DefaultRules clock e st = (se, st') \<Longrightarrow> good_screened se" for e clock st se st'
    using conf.screened_Q [of e clock st se st'] screened_in_type [of e clock st se st']
    by (simp add: good_event_def good_screened_def)
qed

section \<open>The breaker of the CRM client\<close>

abbreviation crm_breaker :: "world \<Rightarrow> circuit_breaker" where
  "crm_breaker w \<equiv> rc_cb (ha_crmClient (wd_adapter w))"

lemma SyncContact_breaker:
  assumes "0 \<le> rc_maxRetries (ha_crmClient h)" "SyncContact ce now env c h = Ret (r, h')"
  shows "\<exists>cops. cb_run (rc_cb (ha_crmClient h)) cops (rc_cb (ha_crmClient h')) \<and> length (filter is_allow cops) \<le> 1"
  using SyncContact_client [OF assms(2)]
proof (elim disjE exE)
  assume "h' = h"
  then show ?thesis by (intro exI [of _ "[]"]) simp
next
  fix req assume h': "ha_crmClient h' = ds_client (snd (Do now env req (ha_crmClient h)))"
  obtain res st where "Do now env req (ha_crmClient h) = (res, st)" by (cases "Do now env req (ha_crmClient h)")
  with Do_breaker [OF assms(1) this] h' show ?thesis by auto
qed

lemma breaker_step:
  assumes "sys_step s op s'" "rc_maxRetries (ha_crmClient (wd_adapter (snd s))) = 2"
  shows "\<exists>cops. cb_run (crm_breaker (snd s)) cops (crm_breaker (snd s')) \<and> int (length (filter is_allow cops)) \<le> attempts_by op"
  using assms
proof (induction rule: sys_step.induct)
  case (sys_ingest_step env now r w rep w' st)
  then show ?case by (intro exI [of _ "[]"]) (auto elim!: sys_ingest_cases)
next
  case (sys_screen_step ch w e w1 env clock st st' w')
  from sys_screen_step(3) show ?case
    by (rule sys_screen_cases) (simp add: adapter_frames(3) [OF sys_screen_step(2)] exI [of _ "[]"])
next
  case (sys_workflow_step ch w se w1 ce now aenv now' w' st)
  note w1 = adapter_frames(4) [OF sys_workflow_step(2)]
  from sys_workflow_step(4) show ?case
  proof (cases rule: sys_workflow_cases)
    case no_workflow
    with w1 sys_workflow_step(3) show ?thesis by (intro exI [of _ "[]"]) simp
  next
    case (workflow wf c h r ok)
    have "0 \<le> rc_maxRetries (ha_crmClient (wd_adapter w1))" using sys_workflow_step(5) w1 by simp
    from SyncContact_breaker [OF this workflow(3)] show ?thesis
      using workflow(1,5) sys_workflow_step(3) w1 by auto
  qed
next
  case (sys_purge_step sha256 now1 now2 r w rep w' st)
  then show ?case by (intro exI [of _ "[]"]) (auto elim!: sys_purge_cases simp: adapter_frames)
qed (auto simp: adapter_frames intro!: exI [of _ "[]"])

lemma breaker_run:
  "run sys_step s ops s' \<Longrightarrow> rc_maxRetries (ha_crmClient (wd_adapter (snd s))) = 2 \<Longrightarrow>
   \<exists>cops. cb_run (crm_breaker (snd s)) cops (crm_breaker (snd s')) \<and> int (length (filter is_allow cops)) \<le> sum_ops attempts_by ops"
proof (induction rule: run.induct)
  case (run_nil s)
  then show ?case by (intro exI [of _ "[]"]) (simp add: sum_ops_simps)
next
  case (run_cons s op s1 ops s')
  obtain c1 where c1: "cb_run (crm_breaker (snd s)) c1 (crm_breaker (snd s1))" "int (length (filter is_allow c1)) \<le> attempts_by op"
    using breaker_step [OF run_cons.hyps(1) run_cons.prems] by blast
  have "rc_maxRetries (ha_crmClient (wd_adapter (snd s1))) = 2"
    using adapter_step [OF run_cons.hyps(1)] run_cons.prems by simp
  from run_cons.IH [OF this] obtain c2 where
    c2: "cb_run (crm_breaker (snd s1)) c2 (crm_breaker (snd s'))" "int (length (filter is_allow c2)) \<le> sum_ops attempts_by ops"
    by blast
  from c1 c2 show ?case by (intro exI [of _ "c1 @ c2"]) (auto simp: run_append sum_ops_simps)
qed

lemma breaker_New:
  "crm_breaker (snd (NewMonolith cfg now)) = NewCircuitBreaker 3 (5 * Second) True"
  "rc_maxRetries (ha_crmClient (wd_adapter (snd (NewMonolith cfg now)))) = 2"
  by (simp_all add: NewMonolith_def NewHTTPCRMAdapter_def NewResilientClient_def)

section \<open>Properties\<close>

text \<open>
  C4: The values of the program stay in their types: in every state it reaches, each counter and the
  breaker's count of failures is an int64, the payload of every event that waits in a channel holds only
  values that are decoded from JSON (no key twice, no number that is not a finite float64), and every
  screened event, waiting or stored, has besides a float64 between 0 and 1 as its score, is called
  fraudulent exactly from one half on, and has a reason exactly when its score is positive.
\<close>
theorem system_values_in_type:
  assumes "run sys_step (NewMonolith cfg now) ops (st, w)"
  shows "(\<forall>name. is_int64 (w_counter name w)) \<and> is_int64 (cb_failures (crm_breaker w)) \<and>
    (\<forall>i. \<forall>e \<in> set (buffered (rawSubs (wd_broker w)) i). event_in_type e) \<and>
    (\<forall>i. \<forall>se \<in> set (buffered (screenedSubs (wd_broker w)) i). verdict_in_type se) \<and>
    (\<forall>u ses se. w_get_events u w = Inr ses \<and> se \<in> set ses \<longrightarrow> verdict_in_type se)"
proof -
  have counters: "\<forall>name. is_int64 (w_counter name w)"
    using counters_run [OF assms counters_New(2)] by (simp add: counters_ok_def)
  obtain cops where "cb_run (NewCircuitBreaker 3 (5 * Second) True) cops (crm_breaker w)"
    using breaker_run [OF assms breaker_New(2)] by (auto simp: breaker_New(1))
  then have "cb_wf (crm_breaker w)"
    by (rule cb_wf_run) (simp add: cb_wf_New is_int64_def int64_min_def int64_max_def)
  then have failures: "is_int64 (cb_failures (crm_breaker w))" by (simp add: cb_wf_def)
  have "world_holds event_in_type verdict_in_type w" using typed.world_holds_run [OF assms] by simp
  note events = world_holds_events [OF this]
  show ?thesis using counters failures events by blast
qed

theorem system_values_in_type_witness:
  "\<exists>ops st w se. run sys_step (NewMonolith cfg0 0) ops (st, w) \<and> buffered (screenedSubs (wd_broker w)) 0 = [se] \<and>
     verdict_in_type se"
proof -
  obtain st w se where s: "run sys_step (NewMonolith cfg0 0) screened_ops (st, w)" "buffered (screenedSubs (wd_broker w)) 0 = [se]"
    using sample_screened by blast
  have "se \<in> set (buffered (screenedSubs (wd_broker w)) 0)" using s(2) by simp
  with system_values_in_type [OF s(1)] s show ?thesis by blast
qed



end
