(* ===== verification/Goroutines.thy ===== *)
theory Goroutines
  imports Prelude
begin

text \<open>
  A goroutine as a tree of atoms: what it does between two points at which others may run is one atom on the shared
  state. A pool of goroutines is scheduled in any order. What every schedule of a pool keeps follows
  from a contract of its single goroutines (\<open>accounts\<close>), proved here once.
\<close>

section \<open>Goroutines\<close>

datatype ('a, 's) goroutine = Finished 'a | Atom "'s \<Rightarrow> (('a, 's) goroutine \<times> 's) outcome"

definition atom :: "('s \<Rightarrow> ('r \<times> 's) outcome) \<Rightarrow> ('r \<Rightarrow> ('a, 's) goroutine) \<Rightarrow> ('a, 's) goroutine" where
  "atom f k = Atom (\<lambda>s. case f s of Ret (r, s') \<Rightarrow> Ret (k r, s') | Panic m \<Rightarrow> Panic m)"

text \<open>A goroutine that nobody interrupts.\<close>

primrec alone :: "('a, 's) goroutine \<Rightarrow> 's \<Rightarrow> ('a \<times> 's) outcome" where
  "alone (Finished a) = (\<lambda>s. Ret (a, s))"
| "alone (Atom f) = (\<lambda>s. case map_outcome (map_prod alone id) (f s) of Ret (g, s') \<Rightarrow> g s' | Panic m \<Rightarrow> Panic m)"

lemma alone_atom [simp]:
  "alone (atom f k) s = (case f s of Ret (r, s') \<Rightarrow> alone (k r) s' | Panic m \<Rightarrow> Panic m)"
  by (simp add: atom_def split: outcome.splits prod.splits)

declare alone.simps(2) [simp del]

datatype 't pool_op = Spawn 't | Exec nat

inductive pool_step ::
  "('t \<Rightarrow> ('a, 's) goroutine) \<Rightarrow> 's \<times> ('a, 's) goroutine list \<Rightarrow> 't pool_op \<Rightarrow> 's \<times> ('a, 's) goroutine list \<Rightarrow> bool"
  for body where
  pool_spawn: "pool_step body (s, gs) (Spawn t) (s, gs @ [body t])"
| pool_exec: "i < length gs \<Longrightarrow> gs ! i = Atom f \<Longrightarrow> f s = Ret (g, s') \<Longrightarrow>
    pool_step body (s, gs) (Exec i) (s', gs[i := g])"

inductive_cases pool_stepE: "pool_step body (s, gs) op c"

section \<open>What a goroutine may be relied on for\<close>

text \<open>
  \<open>accounts val ok due n d g\<close>: from any state with \<open>ok\<close>, whatever the others do in between as long as they
  keep \<open>ok\<close>, the goroutine returns from each of its atoms, keeps \<open>ok\<close>, ends within \<open>n\<close> atoms, and has then
  added what is due with its answer to the counter \<open>val\<close>, of which it has added \<open>d\<close> so far.
\<close>

fun accounts :: "('s \<Rightarrow> int) \<Rightarrow> ('s \<Rightarrow> bool) \<Rightarrow> ('a \<Rightarrow> int) \<Rightarrow> nat \<Rightarrow> int \<Rightarrow> ('a, 's) goroutine \<Rightarrow> bool" where
  "accounts val ok due n d (Finished a) \<longleftrightarrow> due a = d"
| "accounts val ok due 0 d (Atom f) \<longleftrightarrow> False"
| "accounts val ok due (Suc n) d (Atom f) \<longleftrightarrow>
     (\<forall>s. ok s \<longrightarrow> (\<exists>g s' x. f s = Ret (g, s') \<and> ok s' \<and> val s' = wrap64 (val s + x) \<and> accounts val ok due n (d + x) g))"

lemma accounts_more: "accounts val ok due n d g \<Longrightarrow> n \<le> m \<Longrightarrow> accounts val ok due m d g"
proof (induction val ok due n d g arbitrary: m rule: accounts.induct)
  case (3 val ok due n d f)
  then obtain m' where m: "m = Suc m'" "n \<le> m'" by (cases m) auto
  show ?case unfolding m(1) accounts.simps
  proof (intro allI impI)
    fix s assume "ok s"
    with 3(2) obtain g s' x where g: "f s = Ret (g, s')" "ok s'" "val s' = wrap64 (val s + x)" "accounts val ok due n (d + x) g"
      by auto
    with 3(1) \<open>ok s\<close> m(2) have "accounts val ok due m' (d + x) g" by blast
    with g show "\<exists>g s' x. f s = Ret (g, s') \<and> ok s' \<and> val s' = wrap64 (val s + x) \<and> accounts val ok due m' (d + x) g"
      by blast
  qed
qed simp_all

lemma accounts_atom:
  assumes "\<And>s. ok s \<Longrightarrow> \<exists>r s' x. f s = Ret (r, s') \<and> ok s' \<and> val s' = wrap64 (val s + x) \<and> accounts val ok due n (d + x) (k r)"
  shows "accounts val ok due (Suc n) d (atom f k)"
  unfolding atom_def accounts.simps
proof (intro allI impI)
  fix s assume "ok s"
  from assms [OF this] obtain r s' x where "f s = Ret (r, s')" "ok s'" "val s' = wrap64 (val s + x)" "accounts val ok due n (d + x) (k r)"
    by blast
  then show "\<exists>g s' x. (case f s of Ret (r, s') \<Rightarrow> Ret (k r, s') | Panic m \<Rightarrow> Panic m) = Ret (g, s') \<and> ok s' \<and>
      val s' = wrap64 (val s + x) \<and> accounts val ok due n (d + x) g"
    by (intro exI [of _ "k r"] exI [of _ s'] exI [of _ x]) simp
qed

lemma sum_list_update_add: "i < length xs \<Longrightarrow> sum_list (xs[i := xs ! i + x]) = sum_list xs + (x :: int)"
  by (induction xs arbitrary: i) (auto split: nat.splits)

text \<open>
  A pool whose goroutines all keep their accounts: its state has the invariant, each goroutine's share is on
  the books, and the atoms it has left are bounded by those it has not taken.
\<close>

locale accounted =
  fixes body :: "'t \<Rightarrow> ('a, 's) goroutine" and val :: "'s \<Rightarrow> int" and ok :: "'s \<Rightarrow> bool" and due :: "'a \<Rightarrow> int" and bound :: nat
  assumes body_accounts: "accounts val ok due bound 0 (body t)"
begin

definition books :: "'t pool_op list \<Rightarrow> 's \<times> ('a, 's) goroutine list \<Rightarrow> int \<Rightarrow> int list \<Rightarrow> bool" where
  "books ops c v0 ds \<longleftrightarrow> ok (fst c) \<and> val (fst c) = wrap64 (v0 + sum_list ds) \<and> length ds = length (snd c) \<and>
     (\<forall>i < length (snd c). count_list ops (Exec i) \<le> bound \<and>
        accounts val ok due (bound - count_list ops (Exec i)) (ds ! i) (snd c ! i)) \<and>
     (\<forall>i. length (snd c) \<le> i \<longrightarrow> count_list ops (Exec i) = 0)"

lemma books_step:
  assumes "pool_step body c op c'" "books ops c v0 ds"
  shows "\<exists>ds'. books (ops @ [op]) c' v0 ds'"
  using assms(1)
proof (cases rule: pool_step.cases)
  case (pool_spawn s gs t)
  have "books (ops @ [op]) c' v0 (ds @ [0])"
    using assms(2) pool_spawn body_accounts
    by (auto simp: books_def nth_append less_Suc_eq)
  then show ?thesis by blast
next
  case (pool_exec i gs f s g s')
  note ok = assms(2) [unfolded books_def pool_exec(1) fst_conv snd_conv]
  define k where "k = bound - count_list ops (Exec i)"
  have acc: "accounts val ok due k (ds ! i) (Atom f)" using ok pool_exec k_def by metis
  then obtain m where m: "k = Suc m" by (cases k) auto
  with acc ok pool_exec(6) obtain x where x: "ok s'" "val s' = wrap64 (val s + x)" "accounts val ok due m (ds ! i + x) g"
    by fastforce
  have sum: "sum_list (ds[i := ds ! i + x]) = sum_list ds + x"
    using ok pool_exec(4) by (simp add: sum_list_update_add)
  have "val s' = wrap64 (v0 + sum_list (ds[i := ds ! i + x]))"
    using x(2) ok by (simp add: sum wrap64_add_left add.assoc)
  moreover have "count_list (ops @ [Exec i]) (Exec i) \<le> bound" "m = bound - count_list (ops @ [Exec i]) (Exec i)"
    using m k_def by auto
  ultimately have "books (ops @ [op]) c' v0 (ds[i := ds ! i + x])"
    using ok pool_exec x by (auto simp: books_def nth_list_update)
  then show ?thesis by blast
qed

lemma books_run:
  assumes "run (pool_step body) (s0, []) ops c" "ok s0" "is_int64 (val s0)"
  shows "\<exists>ds. books ops c (val s0) ds"
proof -
  have "books [] (s0, []) (val s0) []" using assms(2,3) by (simp add: books_def wrap64_id)
  then show ?thesis
    using run_history [OF assms(1), of "\<lambda>ops c. \<exists>ds. books ops c (val s0) ds"] books_step by blast
qed

text \<open>Every schedule keeps the invariant, no goroutine panics or is stuck, and none takes more atoms than its bound.\<close>

lemma schedule_safe:
  assumes "run (pool_step body) (s0, []) ops (s, gs)" "ok s0" "is_int64 (val s0)"
  shows "ok s" and "i < length gs \<Longrightarrow> gs ! i = Atom f \<Longrightarrow> \<exists>g s'. f s = Ret (g, s')" and "count_list ops (Exec i) \<le> bound"
proof -
  obtain ds where ds: "books ops (s, gs) (val s0) ds" using books_run [OF assms] by blast
  then show "ok s" by (simp add: books_def)
  show "count_list ops (Exec i) \<le> bound"
    using ds by (cases "i < length gs") (auto simp: books_def)
  show "\<exists>g s'. f s = Ret (g, s')" if "i < length gs" "gs ! i = Atom f"
  proof -
    have acc: "accounts val ok due (bound - count_list ops (Exec i)) (ds ! i) (Atom f)"
      using ds that by (metis books_def fst_conv snd_conv)
    then obtain m where "bound - count_list ops (Exec i) = Suc m" by (cases "bound - count_list ops (Exec i)") auto
    with acc \<open>ok s\<close> show ?thesis by auto
  qed
qed

text \<open>Once all are finished, the counter tells their answers.\<close>

lemma schedule_counts:
  assumes "run (pool_step body) (s0, []) ops (s, map Finished as)" "ok s0" "is_int64 (val s0)"
  shows "val s = wrap64 (val s0 + sum_list (map due as))"
proof -
  obtain ds where ds: "books ops (s, map Finished as) (val s0) ds" using books_run [OF assms] by blast
  then have "ds = map due as" by (intro nth_equalityI) (auto simp: books_def)
  with ds show ?thesis by (simp add: books_def)
qed

end

lemma run_appendI: "run step s ops s1 \<Longrightarrow> run step s1 ops' s' \<Longrightarrow> run step s (ops @ ops') s'"
  by (auto simp only: run_append)

text \<open>A goroutine run alone is a schedule.\<close>

lemma alone_schedule:
  assumes "alone g s = Ret (a, s')" "i < length gs" "gs ! i = g"
  shows "\<exists>n. run (pool_step body) (s, gs) (replicate n (Exec i)) (s', gs[i := Finished a])"
  using assms
proof (induction g arbitrary: s gs)
  case (Finished b)
  then have "gs[i := Finished b] = gs" by (metis list_update_id)
  with Finished show ?case by (intro exI [of _ 0]) auto
next
  case (Atom f)
  then obtain g s1 where f: "f s = Ret (g, s1)" "alone g s1 = Ret (a, s')"
    by (cases "f s") (auto simp: alone.simps(2))
  have "g \<in> Basic_BNFs.fsts (g, s1)" "(g, s1) \<in> set_outcome (f s)" using f(1) by (auto simp: prod_set_defs)
  with Atom.IH [OF _ _ _ f(2), of "f s" "(g, s1)" "gs[i := g]"] Atom.prems(2)
  obtain n where n: "run (pool_step body) (s1, gs[i := g]) (replicate n (Exec i)) (s', gs[i := Finished a])"
    by auto
  from Atom.prems(2,3) f(1) have "pool_step body (s, gs) (Exec i) (s1, gs[i := g])" by (rule pool_exec)
  with n show ?case by (intro exI [of _ "Suc n"]) auto
qed

end
