(* ===== verification/Threads.thy ===== *)
theory Threads
  imports SystemValues Goroutines
begin

text \<open>
  The program as the scheduler runs it: every request has a goroutine of its own, and so has each worker. Where
  \<^verbatim>\<open>Monolith\<close> takes a whole handler as one step, here it is cut wherever it lets go of a lock, a channel
  or an atomic counter, and what others do may come in between.

  One atom is a method of the broker under its lock (each topic has one subscriber, so a publication is at most
  one send), a reception, a method of a repository under its lock, the evaluation of one rule under the mutex of the
  rule state, one \<^verbatim>\<open>atomic.AddInt64\<close> or \<^verbatim>\<open>atomic.LoadInt64\<close>. The deletion of a user's events is two atoms,
  since the callback runs after the lock is released. The call of the CRM is one atom: its breaker is shared
  with nobody but the one marketing worker. A worker's goroutine here is one turn of its loop.
\<close>

section \<open>The goroutines of the program\<close>

text \<open>How a goroutine ends: with a step of the program, with the dashboard's page, or with nothing received.\<close>

datatype answer = Did system_op | Page api_request reply | Blocked

type_synonym thread = "(answer, system) goroutine"

definition try_world :: "(world \<Rightarrow> ('r \<times> world) outcome) \<Rightarrow> ('r \<Rightarrow> thread) \<Rightarrow> thread" where
  "try_world f = atom (\<lambda>(st, w). case f w of Ret (r, w') \<Rightarrow> Ret (r, st, w') | Panic m \<Rightarrow> Panic m)"

definition on_world :: "(world \<Rightarrow> 'r \<times> world) \<Rightarrow> ('r \<Rightarrow> thread) \<Rightarrow> thread" where
  "on_world f = try_world (\<lambda>w. Ret (f w))"

definition count :: "string \<Rightarrow> thread \<Rightarrow> thread" where
  "count name g = on_world (\<lambda>w. ((), w_increment name 1 w)) (\<lambda>_. g)"

definition load :: "(memory_tracker \<Rightarrow> 'r) \<Rightarrow> ('r \<Rightarrow> thread) \<Rightarrow> thread" where
  "load f = on_world (\<lambda>w. (f (wd_tracker w), w))"

definition ingest_thread :: "(nat \<Rightarrow> select_env) \<Rightarrow> time \<Rightarrow> api_request \<Rightarrow> thread" where
  "ingest_thread env now r =
     (let reply = (\<lambda>rep. Finished (Did (SysIngest r rep))) in
      if ar_method r \<noteq> ''POST'' then reply (http_Error ''Method not allowed'' StatusMethodNotAllowed)
      else case decode_body decode_tracking_event r of
        None \<Rightarrow> reply (http_Error ''{\"error\": \"invalid json payload\"}'' StatusBadRequest)
      | Some event \<Rightarrow>
          if EventID event = [] \<or> UserID event = [] \<or> EventType event = [] then
            reply (json_reply StatusBadRequest
                    (BText ''{\"error\": \"event_id, user_id, and event_type are required\"}''))
          else
            let event = (if IsZero (Timestamp event) then event\<lparr>Timestamp := now\<rparr> else event) in
            case CheckGDPRConsent (EventType event) (GDPRConsent event) of
              Some err \<Rightarrow>
                count ''total_received'' (reply (json_reply StatusBadRequest
                  (BText ''{\"error\": \"GDPR compliance check failed: consent required for behavioral tracking\"}'')))
            | None \<Rightarrow>
                let event = event\<lparr>IPAddress := AnonymizeIP (IPAddress event)\<rparr> in
                try_world (w_publish_raw env event) (\<lambda>err. case err of
                  Some err \<Rightarrow> reply (http_Error ''{\"error\": \"internal broker error\"}'' StatusInternalServerError)
                | None \<Rightarrow>
                    count ''total_received'' (reply (json_reply StatusAccepted
                      (BText ''{\"status\": \"accepted\", \"message\": \"event queued for screening\"}'')))))"

text \<open>A channel that has not been handed out delivers nothing.\<close>

definition recv_raw :: "nat \<Rightarrow> world \<Rightarrow> tracking_event received \<times> world" where
  "recv_raw ch w = (if ch < length (rawSubs (wd_broker w)) then w_recv_raw ch w else (NotReady, w))"

definition recv_screened :: "nat \<Rightarrow> world \<Rightarrow> screened_event received \<times> world" where
  "recv_screened ch w = (if ch < length (screenedSubs (wd_broker w)) then w_recv_screened ch w else (NotReady, w))"

fun rules_thread ::
  "fraud_rule list \<Rightarrow> (nat \<Rightarrow> time) \<Rightarrow> nat \<Rightarrow> tracking_event \<Rightarrow> rat \<times> string list \<Rightarrow> (rat \<times> string list \<Rightarrow> thread) \<Rightarrow> thread" where
  "rules_thread [] clock i event acc k = k acc"
| "rules_thread (rule # rules) clock i event (fraudScore, reasons) k =
     atom (\<lambda>(st, w). case fr_evaluate rule (clock i) event st of (v, st') \<Rightarrow> Ret (v, st', w))
       (\<lambda>v. rules_thread rules clock (Suc i) event
         (if vd_err v \<noteq> None then (fraudScore, reasons)
          else if 0 < vd_score v then (fadd fraudScore (vd_score v), reasons @ [vd_reason v])
          else (fraudScore, reasons)) k)"

text \<open>The screened event of a score and its reasons, and what becomes of it.\<close>

definition scored :: "tracking_event \<Rightarrow> time \<Rightarrow> rat \<times> string list \<Rightarrow> screened_event" where
  "scored event now acc =
     \<lparr>Tracking = event, IsFraudulent = (f64 (5 / 10) \<le> fst acc), FraudScore = (if 1 < fst acc then 1 else fst acc),
      FraudReason = Join (snd acc) '', '', ScreenedAt = now\<rparr>"

definition store_thread :: "nat \<Rightarrow> (nat \<Rightarrow> select_env) \<Rightarrow> screened_event \<Rightarrow> thread" where
  "store_thread ch env screened =
     on_world (w_save_event screened) (\<lambda>err.
       count (if IsFraudulent screened then ''fraudulent'' else ''legitimate'')
         (try_world (w_publish_screened env screened) (\<lambda>err. Finished (Did (SysScreen ch (Tracking screened))))))"

definition screen_thread :: "nat \<Rightarrow> (nat \<Rightarrow> select_env) \<Rightarrow> (nat \<Rightarrow> time) \<Rightarrow> thread" where
  "screen_thread ch env clock =
     on_world (recv_raw ch) (\<lambda>x. case x of
       Received event \<Rightarrow>
         rules_thread DefaultRules clock 0 event (0, [])
           (\<lambda>acc. store_thread ch env (scored event (clock (length DefaultRules)) acc))
     | _ \<Rightarrow> Finished Blocked)"

definition workflow_thread :: "nat \<Rightarrow> crm_env \<Rightarrow> time \<Rightarrow> (nat \<Rightarrow> attempt_env) \<Rightarrow> time \<Rightarrow> thread" where
  "workflow_thread ch ce now env now' =
     on_world (recv_screened ch) (\<lambda>x. case x of
       Received event \<Rightarrow>
         let return = Finished (Did (SysWorkflow ch event)) in
         if IsFraudulent event then return
         else (case workflow_of (EventType (Tracking event)) of
             None \<Rightarrow> return
           | Some workflow \<Rightarrow>
               let contact = new_contact now' workflow (Tracking event) in
               count ''crm_attempts''
                 (try_world (w_sync ce now env contact) (\<lambda>err. case err of
                    Some err \<Rightarrow> count ''crm_failures'' (on_world (w_save_contact (contact\<lparr>cc_SyncStatus := ''failed''\<rparr>)) (\<lambda>_. return))
                  | None \<Rightarrow> count ''crm_successes'' (on_world (w_save_contact (contact\<lparr>cc_SyncStatus := ''synced''\<rparr>)) (\<lambda>_. return)))))
     | _ \<Rightarrow> Finished Blocked)"

text \<open>The two halves of a deletion: the events under the lock, the callback after it.\<close>

definition scrub_events :: "string \<Rightarrow> world \<Rightarrow> int \<times> world" where
  "scrub_events userID w =
     (int (length (slice_at (fr_events (wd_fraudRepo w)) userID)),
      w\<lparr>wd_fraudRepo := (wd_fraudRepo w)\<lparr>fr_events := (fr_events (wd_fraudRepo w))(userID := None)\<rparr>\<rparr>)"

definition call_deleter :: "string \<Rightarrow> world \<Rightarrow> int \<times> world" where
  "call_deleter userID w =
     (case fr_crmDeleter (wd_fraudRepo w) of
        None \<Rightarrow> (0, w)
      | Some del \<Rightarrow> (1, w\<lparr>wd_mktRepo := del userID (wd_mktRepo w)\<rparr>))"

definition purge_thread :: "(string \<Rightarrow> string) \<Rightarrow> time \<Rightarrow> time \<Rightarrow> api_request \<Rightarrow> thread" where
  "purge_thread sha256 now1 now2 r =
     (let reply = (\<lambda>rep. Finished (Did (SysPurge r rep))) in
      if ar_method r \<noteq> ''POST'' then reply (http_Error ''Method not allowed'' StatusMethodNotAllowed)
      else
        let userID = (case decode_body decode_user_id r of None \<Rightarrow> [] | Some u \<Rightarrow> u) in
        if userID = [] then reply (http_Error ''{\"error\": \"invalid json or user_id missing\"}'' StatusBadRequest)
        else
          on_world (scrub_events userID) (\<lambda>count. on_world (call_deleter userID) (\<lambda>n.
          on_world (w_delete_contact userID) (\<lambda>_.
            let hashedUserID = hashIdentifier sha256 userID service_salt;
                auditLog = \<lparr>pl_LogID = ''purge-'' @ show_int (UnixNano now1), pl_UserID = hashedUserID,
                            pl_Action = ''GDPR_PURGE'', pl_Timestamp = now2\<rparr> in
            on_world (w_save_log auditLog) (\<lambda>_. reply (json_reply StatusOK
               (BText (''{\"status\": \"purged\", \"user_id_hashed\": \"'' @ hashedUserID @
                       ''\", \"records_scrubbed\": '' @ show_int (count + n) @ ''}''))))))))"

definition export_thread :: "(time \<Rightarrow> string) \<Rightarrow> time \<Rightarrow> api_request \<Rightarrow> thread" where
  "export_thread show_time now r =
     (let reply = (\<lambda>rep. Finished (Did (SysExport r rep))) in
      if ar_method r \<noteq> ''GET'' then reply (http_Error ''Method not allowed'' StatusMethodNotAllowed)
      else
        let userID = query_Get r ''user_id'' in
        if userID = [] then reply (http_Error ''{\"error\": \"user_id query parameter is required\"}'' StatusBadRequest)
        else on_world (\<lambda>w. (w_get_events userID w, w)) (\<lambda>evs. case evs of
          Inl err \<Rightarrow> reply (http_Error ''{\"error\": \"failed to export data\"}'' StatusInternalServerError)
        | Inr events \<Rightarrow> on_world (\<lambda>w. (w_get_contact userID w, w)) (\<lambda>contact.
            reply (json_reply StatusOK (BJson (export_document show_time userID events contact now))))))"

text \<open>\<^verbatim>\<open>GetMetrics\<close> loads one counter after the other. The start time never changes.\<close>

definition metrics_thread :: "time \<Rightarrow> (system_metrics \<Rightarrow> thread) \<Rightarrow> thread" where
  "metrics_thread now k =
     load (\<lambda>m. (elapsed_seconds now (mt_startTime m), mt_totalReceived m)) (\<lambda>(elapsed, totalReceived).
     load mt_legitimate (\<lambda>l. load mt_fraudulent (\<lambda>f. load mt_crmAttempts (\<lambda>a.
     load mt_crmSuccesses (\<lambda>s. load mt_crmFailures (\<lambda>x.
       k \<lparr>TotalEventsReceived = totalReceived, LegitimateEvents = l, FraudulentEvents = f, CRMAttempts = a,
          CRMSuccesses = s, CRMFailures = x, EventsPerSecond = fdiv (f64 (of_int totalReceived)) elapsed\<rparr>))))))"

definition metrics_request :: "time \<Rightarrow> api_request \<Rightarrow> thread" where
  "metrics_request now r =
     (if ar_method r \<noteq> ''GET'' then Finished (Did (SysMetrics r (http_Error ''Method not allowed'' StatusMethodNotAllowed)))
      else metrics_thread now (\<lambda>m. Finished (Did (SysMetrics r (HandleMetrics m r)))))"

definition dashboard_request :: "time \<Rightarrow> api_request \<Rightarrow> thread" where
  "dashboard_request now r =
     (if ar_method r \<noteq> ''GET'' then Finished (Page r (http_Error ''Method not allowed'' StatusMethodNotAllowed))
      else metrics_thread now (\<lambda>m. Finished (Page r (HandleDashboard m r))))"

text \<open>What a goroutine is started for, with its surroundings: clock, network, digest and the choices of its selects.\<close>

datatype task =
    IngestTask "nat \<Rightarrow> select_env" time api_request
  | ScreenTask nat "nat \<Rightarrow> select_env" "nat \<Rightarrow> time"
  | WorkflowTask nat crm_env time "nat \<Rightarrow> attempt_env" time
  | PurgeTask "string \<Rightarrow> string" time time api_request
  | ExportTask "time \<Rightarrow> string" time api_request
  | MetricsTask time api_request
  | DashboardTask time api_request
  | FraudSubscribeTask
  | MarketingSubscribeTask
  | CloseTask

fun thread_of :: "task \<Rightarrow> thread" where
  "thread_of (IngestTask env now r) = ingest_thread env now r"
| "thread_of (ScreenTask ch env clock) = screen_thread ch env clock"
| "thread_of (WorkflowTask ch ce now env now') = workflow_thread ch ce now env now'"
| "thread_of (PurgeTask sha256 now1 now2 r) = purge_thread sha256 now1 now2 r"
| "thread_of (ExportTask show_time now r) = export_thread show_time now r"
| "thread_of (MetricsTask now r) = metrics_request now r"
| "thread_of (DashboardTask now r) = dashboard_request now r"
| "thread_of FraudSubscribeTask = on_world w_subscribe_raw (\<lambda>s. Finished (Did (SysFraudSubscribe s)))"
| "thread_of MarketingSubscribeTask = on_world w_subscribe_screened (\<lambda>s. Finished (Did (SysMarketingSubscribe s)))"
| "thread_of CloseTask = try_world (\<lambda>w. case Close (wd_broker w) of
       Ret (r, b) \<Rightarrow> Ret (r, w\<lparr>wd_broker := b\<rparr>) | Panic m \<Rightarrow> Panic m) (\<lambda>_. Finished (Did SysClose))"

type_synonym pool = "system \<times> thread list"

abbreviation sched :: "pool \<Rightarrow> task pool_op \<Rightarrow> pool \<Rightarrow> bool" where
  "sched \<equiv> pool_step thread_of"

section \<open>Undisturbed goroutines take the steps of the program\<close>

lemma alone_world [simp]:
  "alone (try_world tf k) (st, w) = (case tf w of Ret (r, w') \<Rightarrow> alone (k r) (st, w') | Panic m \<Rightarrow> Panic m)"
  "alone (on_world f k) (st, w) = (case f w of (r, w') \<Rightarrow> alone (k r) (st, w'))"
  "alone (count name g) (st, w) = alone g (st, w_increment name 1 w)"
  "alone (load l k) (st, w) = alone (k (l (wd_tracker w))) (st, w)"
  by (simp_all add: try_world_def on_world_def count_def load_def split: outcome.splits prod.splits)

definition answered :: "('r \<Rightarrow> system_op) \<Rightarrow> rule_state \<Rightarrow> ('r \<times> world) outcome \<Rightarrow> (answer \<times> system) outcome" where
  "answered op st x = (case x of Ret (r, w) \<Rightarrow> Ret (Did (op r), st, w) | Panic m \<Rightarrow> Panic m)"

lemma answered_Ret: "answered op st x = Ret (a, s') \<longleftrightarrow> (\<exists>r w. x = Ret (r, w) \<and> a = Did (op r) \<and> s' = (st, w))"
  by (auto simp: answered_def split: outcome.splits)

lemma alone_ingest: "alone (ingest_thread env now r) (st, w) = answered (SysIngest r) st (sys_ingest env now r w)"
  by (auto simp: ingest_thread_def sys_ingest_def HandleIngest_def answered_def Let_def split: option.splits outcome.splits)

lemma alone_rules:
  "alone (rules_thread rules clock i e acc k) (st, w) =
     (case evaluate_rules rules clock i e (fst acc, snd acc, st) of (sc, rs, st') \<Rightarrow> alone (k (sc, rs)) (st', w))"
  by (induction rules arbitrary: i acc st) (auto split: prod.splits)

lemma alone_screen:
  "alone (screen_thread ch env clock) (st, w) =
     (case recv_raw ch w of
        (Received e, w1) \<Rightarrow> (case sys_screen env clock e (st, w1) of Ret s' \<Rightarrow> Ret (Did (SysScreen ch e), s') | Panic m \<Rightarrow> Panic m)
      | (_, w1) \<Rightarrow> Ret (Blocked, st, w1))"
  by (auto simp: screen_thread_def store_thread_def scored_def sys_screen_def ScreenEvent_def screen_def alone_rules Let_def
      split: prod.splits received.splits outcome.splits)

lemma alone_workflow:
  "alone (workflow_thread ch ce now env now') (st, w) =
     (case recv_screened ch w of
        (Received se, w1) \<Rightarrow>
          if IsFraudulent se then Ret (Did (SysWorkflow ch se), st, w1)
          else (case sys_workflow ce now env now' se w1 of Ret w' \<Rightarrow> Ret (Did (SysWorkflow ch se), st, w') | Panic m \<Rightarrow> Panic m)
      | (_, w1) \<Rightarrow> Ret (Blocked, st, w1))"
  by (auto simp: workflow_thread_def sys_workflow_def ProcessMarketingWorkflow_def Let_def
      split: prod.splits received.splits outcome.splits option.splits)

lemma delete_halves:
  "w_delete_events u w = (case scrub_events u w of (c, w1) \<Rightarrow> case call_deleter u w1 of (n, w2) \<Rightarrow> (Inr (c + n), w2))"
  by (simp add: w_delete_events_def DeleteUserEvents_def scrub_events_def call_deleter_def Let_def split: option.splits)

lemma alone_purge:
  "alone (purge_thread sha256 now1 now2 r) (st, w) = answered (SysPurge r) st (Ret (sys_purge sha256 now1 now2 r w))"
  by (auto simp: purge_thread_def sys_purge_def HandleGDPRDelete_def delete_halves answered_def Let_def split: prod.splits)

lemma alone_export:
  "alone (export_thread show_time now r) (st, w) = Ret (Did (SysExport r (sys_export show_time now r w)), st, w)"
  by (auto simp: export_thread_def sys_export_def HandleCCPAExport_def Let_def split: sum.splits)

lemma alone_metrics: "alone (metrics_thread now k) (st, w) = alone (k (w_metrics now w)) (st, w)"
  by (simp add: metrics_thread_def w_metrics_def GetMetrics_def Let_def)

lemma alone_requests:
  "alone (metrics_request now r) (st, w) = Ret (Did (SysMetrics r (HandleMetrics (w_metrics now w) r)), st, w)"
  "alone (dashboard_request now r) (st, w) = Ret (Page r (HandleDashboard (w_metrics now w) r), st, w)"
  by (simp_all add: metrics_request_def dashboard_request_def alone_metrics HandleMetrics_def HandleDashboard_def)

lemmas alone_threads = alone_ingest alone_screen alone_workflow alone_purge alone_export alone_requests

lemma chan_recv_idle: "chan_recv ch = (x, ch') \<Longrightarrow> \<forall>e. x \<noteq> Received e \<Longrightarrow> ch' = ch"
  by (auto split: list.splits)

lemma recv_idle:
  "recv_raw ch w = (x, w') \<Longrightarrow> \<forall>e. x \<noteq> Received e \<Longrightarrow> w' = w"
  "recv_screened ch w = (y, w') \<Longrightarrow> \<forall>e. y \<noteq> Received e \<Longrightarrow> w' = w"
  by (auto simp: recv_raw_def w_recv_raw_def RecvRaw_def recv_screened_def w_recv_screened_def RecvScreened_def
      simp del: chan_recv.simps split: if_splits prod.splits dest!: chan_recv_idle)

lemma recv_Received:
  "recv_raw ch w = (Received e, w') \<longleftrightarrow> ch < length (rawSubs (wd_broker w)) \<and> w_recv_raw ch w = (Received e, w')"
  "recv_screened ch w = (Received se, w') \<longleftrightarrow> ch < length (screenedSubs (wd_broker w)) \<and> w_recv_screened ch w = (Received se, w')"
  by (auto simp: recv_raw_def recv_screened_def)

lemma alone_step: "alone (thread_of t) s = Ret (Did op, s') \<Longrightarrow> sys_step s op s'"
proof (cases s; cases t)
  fix st w ch env clock
  assume "alone (thread_of t) s = Ret (Did op, s')" "s = (st, w)" "t = ScreenTask ch env clock"
  then show ?thesis
    by (cases s') (auto simp: alone_screen recv_Received split: prod.splits received.splits outcome.splits intro: sys_screen_step)
next
  fix st w ch ce now env now'
  assume "alone (thread_of t) s = Ret (Did op, s')" "s = (st, w)" "t = WorkflowTask ch ce now env now'"
  then show ?thesis
    by (auto simp: alone_workflow recv_Received split: prod.splits received.splits outcome.splits if_splits
        intro: sys_workflow_step sys_skip_step)
next
  fix st w
  assume "alone (thread_of t) s = Ret (Did op, s')" "s = (st, w)" "t = CloseTask"
  then show ?thesis
    by (auto simp: Close_def split: outcome.splits prod.splits if_splits intro!: sys_close)
qed (auto simp: alone_threads answered_Ret split: prod.splits
    intro: sys_ingest_step sys_purge_step sys_export_step sys_metrics_step sys_fraud_subscribe sys_marketing_subscribe)

lemma step_alone: "sys_step s op s' \<Longrightarrow> \<exists>t. alone (thread_of t) s = Ret (Did op, s')"
proof (induction rule: sys_step.induct)
  case (sys_ingest_step env now r w rep w' st)
  then show ?case by (intro exI [of _ "IngestTask env now r"]) (simp add: alone_threads answered_Ret)
next
  case (sys_fraud_subscribe w s w' st)
  then show ?case by (intro exI [of _ FraudSubscribeTask]) simp
next
  case (sys_marketing_subscribe w s w' st)
  then show ?case by (intro exI [of _ MarketingSubscribeTask]) simp
next
  case (sys_screen_step ch w e w1 env clock st st' w')
  then show ?case by (intro exI [of _ "ScreenTask ch env clock"]) (simp add: alone_threads recv_raw_def)
next
  case (sys_skip_step ch w se w1 st)
  then show ?case
    by (intro exI [of _ "WorkflowTask ch ce now env now'" for ce now env now']) (simp add: alone_threads recv_screened_def)
next
  case (sys_workflow_step ch w se w1 ce now aenv now' w' st)
  then show ?case by (intro exI [of _ "WorkflowTask ch ce now aenv now'"]) (simp add: alone_threads recv_screened_def)
next
  case (sys_purge_step sha256 now1 now2 r w rep w' st)
  then show ?case by (intro exI [of _ "PurgeTask sha256 now1 now2 r"]) (simp add: alone_threads answered_Ret)
next
  case (sys_export_step st w r show_time now)
  then show ?case by (intro exI [of _ "ExportTask show_time now r"]) (simp add: alone_threads)
next
  case (sys_metrics_step st w r now)
  then show ?case by (intro exI [of _ "MetricsTask now r"]) (simp add: alone_threads)
next
  case (sys_close w b st)
  then show ?case by (intro exI [of _ CloseTask]) simp
qed

text \<open>So every run of the program is a schedule that finishes one goroutine before it starts the next.\<close>

lemma run_schedule:
  "run sys_step s ops s' \<Longrightarrow> \<exists>pops. run sched (s, gs) pops (s', gs @ map (\<lambda>op. Finished (Did op)) ops)"
proof (induction arbitrary: gs rule: run.induct)
  case (run_nil s)
  then show ?case by (intro exI [of _ "[]"]) simp
next
  case (run_cons s op s1 ops s')
  obtain t where t: "alone (thread_of t) s = Ret (Did op, s1)" using step_alone [OF run_cons.hyps(1)] by blast
  obtain n where n: "run sched (s, gs @ [thread_of t]) (replicate n (Exec (length gs)))
      (s1, (gs @ [thread_of t])[length gs := Finished (Did op)])"
    using alone_schedule [OF t, of "length gs" "gs @ [thread_of t]"] by auto
  obtain pops where "run sched (s1, gs @ [Finished (Did op)]) pops (s', gs @ map (\<lambda>op. Finished (Did op)) (op # ops))"
    using run_cons.IH [of "gs @ [Finished (Did op)]"] by auto
  with n have "run sched (s, gs @ [thread_of t]) (replicate n (Exec (length gs)) @ pops)
      (s', gs @ map (\<lambda>op. Finished (Did op)) (op # ops))"
    by (auto intro: run_appendI)
  then have "run sched (s, gs) (Spawn t # replicate n (Exec (length gs)) @ pops)
      (s', gs @ map (\<lambda>op. Finished (Did op)) (op # ops))"
    by (rule run.intros(2) [rotated]) (rule pool_spawn)
  then show ?case by (rule exI)
qed

section \<open>What every goroutine keeps\<close>

text \<open>A counter, or the sum of two of which a handler adds to one, and what is due to it with an answer.\<close>

definition tally :: "string list \<Rightarrow> system \<Rightarrow> int" where
  "tally names s = wrap64 (sum_list (map (\<lambda>n. w_counter n (snd s)) names))"

fun due :: "string list \<Rightarrow> answer \<Rightarrow> int" where
  "due names (Did op) =
     (if ''total_received'' \<in> set names then received_by op else 0) +
     (if ''legitimate'' \<in> set names then screened_by op else 0) +
     (if ''crm_attempts'' \<in> set names then attempts_by op else 0) +
     (if ''crm_successes'' \<in> set names then attempts_by op else 0)"
| "due names _ = 0"

definition system_ok :: "system \<Rightarrow> bool" where
  "system_ok s \<longleftrightarrow> world_ok (snd s) \<and> counters_ok (snd s)"

lemma tally_same: "wd_tracker (snd s') = wd_tracker (snd s) \<Longrightarrow> tally names s' = wrap64 (tally names s + 0)"
  by (simp add: tally_def w_counter_def wrap64_id is_int64_wrap64)

lemma tally_increment:
  assumes "distinct names" "name \<in> set metric_names"
  shows "tally names (st, w_increment name 1 w) = wrap64 (tally names (st, w) + (if name \<in> set names then 1 else 0))"
proof -
  have c: "w_counter n (w_increment name 1 w) = (if n = name then wrap64 (w_counter n w + 1) else w_counter n w)" for n
    using world_telemetry.counted [OF assms(2)] world_telemetry.others by auto
  have "wrap64 (sum_list (map (\<lambda>n. if n = name then wrap64 (w_counter n w + 1) else w_counter n w) names)) =
      wrap64 (sum_list (map (\<lambda>n. w_counter n w) names) + (if name \<in> set names then 1 else 0))"
    using assms(1)
  proof (induction names)
    case (Cons n names)
    let ?g = "\<lambda>n. if n = name then wrap64 (w_counter n w + 1) else w_counter n w"
    have swap: "wrap64 (a + wrap64 b) = wrap64 (a + b)" for a b by (rule wrap64_add_right)
    have "wrap64 (sum_list (map ?g (n # names))) = wrap64 (?g n + wrap64 (sum_list (map ?g names)))"
      by (simp add: swap)
    also have "\<dots> = wrap64 (?g n + (sum_list (map (\<lambda>n. w_counter n w) names) + (if name \<in> set names then 1 else 0)))"
      using Cons by (simp add: swap)
    finally show ?case
      using Cons.prems by (auto simp: wrap64_add_left algebra_simps)
  qed simp
  then show ?thesis by (simp add: tally_def c wrap64_add_left)
qed

text \<open>The atoms on the world: each returns, keeps the invariant and leaves the counters alone.\<close>

definition quiet :: "(world \<Rightarrow> ('r \<times> world) outcome) \<Rightarrow> ('r \<Rightarrow> bool) \<Rightarrow> bool" where
  "quiet f post \<longleftrightarrow> (\<forall>w. world_ok w \<longrightarrow>
     (\<exists>r w'. f w = Ret (r, w') \<and> world_ok w' \<and> wd_tracker w' = wd_tracker w \<and> post r))"

lemma quietI:
  "(\<And>w. world_ok w \<Longrightarrow> \<exists>r w'. f w = Ret (r, w') \<and> world_ok w' \<and> wd_tracker w' = wd_tracker w \<and> post r) \<Longrightarrow> quiet f post"
  by (simp add: quiet_def)

lemma world_ok_simps:
  "world_ok (w\<lparr>wd_tracker := t\<rparr>) = world_ok w" "world_ok (w\<lparr>wd_mktRepo := m\<rparr>) = world_ok w"
  by (simp_all add: world_ok_def conf.world_holds_simps)

lemma quiet_readers: "quiet (\<lambda>w. Ret (q w, w)) (\<lambda>_. True)"
  by (simp add: quiet_def)

lemma quiet_marketing:
  "quiet (\<lambda>w. Ret (call_deleter u w)) (\<lambda>_. True)" "quiet (\<lambda>w. Ret (w_delete_contact u w)) (\<lambda>_. True)"
  "quiet (\<lambda>w. Ret (w_save_log l w)) (\<lambda>_. True)" "quiet (\<lambda>w. Ret (w_save_contact c w)) (\<lambda>_. True)"
  by (auto simp: quiet_def call_deleter_def wiring world_ok_simps split: option.splits prod.splits)

lemma quiet_publish_raw: "conforming e \<Longrightarrow> quiet (w_publish_raw env e) (\<lambda>_. True)"
proof (rule quietI)
  fix w assume e: "conforming e" and w: "world_ok w"
  then have wf: "broker_wf (wd_broker w)" by (simp add: world_ok_def world_conf_def broker_conf_def)
  obtain r b where b: "PublishRaw env e (wd_broker w) = Ret (r, b)" using PublishRaw_spec [OF wf] by blast
  have "broker_holds conforming conforming_screened (wd_broker w)" using w by (simp add: world_ok_def world_conf_def)
  from conf.broker_holds_publish_raw [OF b this e] w b
  show "\<exists>r w'. w_publish_raw env e w = Ret (r, w') \<and> world_ok w' \<and> wd_tracker w' = wd_tracker w \<and> True"
    by (simp add: w_publish_raw_def world_ok_def world_conf_def store_of_def)
qed

lemma quiet_publish_screened: "conforming_screened se \<Longrightarrow> quiet (w_publish_screened env se) (\<lambda>_. True)"
proof (rule quietI)
  fix w assume se: "conforming_screened se" and w: "world_ok w"
  then have wf: "broker_wf (wd_broker w)" by (simp add: world_ok_def world_conf_def broker_conf_def)
  obtain r b where b: "PublishScreened env se (wd_broker w) = Ret (r, b)" using PublishScreened_spec [OF wf] by blast
  have "broker_holds conforming conforming_screened (wd_broker w)" using w by (simp add: world_ok_def world_conf_def)
  from conf.broker_holds_publish_screened [OF b this se] w b
  show "\<exists>r w'. w_publish_screened env se w = Ret (r, w') \<and> world_ok w' \<and> wd_tracker w' = wd_tracker w \<and> True"
    by (simp add: w_publish_screened_def world_ok_def world_conf_def store_of_def)
qed

lemma quiet_subscribe: "quiet (\<lambda>w. Ret (w_subscribe_raw w)) (\<lambda>_. True)" "quiet (\<lambda>w. Ret (w_subscribe_screened w)) (\<lambda>_. True)"
proof -
  have ok: "world_ok (snd (w_subscribe_raw w))" "world_ok (snd (w_subscribe_screened w))" if "world_ok w" for w
    using that world_conf_step [OF sys_fraud_subscribe, of w _ "snd (w_subscribe_raw w)"] adapter_frames(1,2)
      world_conf_step [OF sys_marketing_subscribe, of w _ "snd (w_subscribe_screened w)"]
    by (metis prod.collapse snd_conv world_ok_def)+
  then show "quiet (\<lambda>w. Ret (w_subscribe_raw w)) (\<lambda>_. True)" "quiet (\<lambda>w. Ret (w_subscribe_screened w)) (\<lambda>_. True)"
    using tracker_frames(1,2) by (auto simp: quiet_def) (metis snd_conv prod.exhaust)+
qed

lemma quiet_recv:
  "quiet (\<lambda>w. Ret (recv_raw ch w)) (\<lambda>x. \<forall>e. x = Received e \<longrightarrow> conforming e)"
  "quiet (\<lambda>w. Ret (recv_screened ch w)) (\<lambda>x. \<forall>se. x = Received se \<longrightarrow> conforming_screened se)"
proof -
  show "quiet (\<lambda>w. Ret (recv_raw ch w)) (\<lambda>x. \<forall>e. x = Received e \<longrightarrow> conforming e)"
  proof (rule quietI)
    fix w assume w: "world_ok w"
    obtain x w' where x: "recv_raw ch w = (x, w')" by fastforce
    have "world_ok w' \<and> wd_tracker w' = wd_tracker w \<and> (\<forall>e. x = Received e \<longrightarrow> conforming e)"
    proof (cases x)
      case (Received e)
      with x recv_Received(1) [of ch w e w'] world_conf_recv_raw [of ch w e w'] w adapter_frames(3) [of ch w x w']
        tracker_frames(3) [of ch w x w']
      show ?thesis by (auto simp: world_ok_def)
    qed (use x w recv_idle(1) in auto)
    with x show "\<exists>x w'. Ret (recv_raw ch w) = Ret (x, w') \<and> world_ok w' \<and> wd_tracker w' = wd_tracker w \<and>
        (\<forall>e. x = Received e \<longrightarrow> conforming e)" by blast
  qed
  show "quiet (\<lambda>w. Ret (recv_screened ch w)) (\<lambda>x. \<forall>se. x = Received se \<longrightarrow> conforming_screened se)"
  proof (rule quietI)
    fix w assume w: "world_ok w"
    obtain x w' where x: "recv_screened ch w = (x, w')" by fastforce
    have "world_ok w' \<and> wd_tracker w' = wd_tracker w \<and> (\<forall>se. x = Received se \<longrightarrow> conforming_screened se)"
    proof (cases x)
      case (Received se)
      with x recv_Received(2) [of ch w se w'] world_conf_recv_screened [of ch w se w'] w adapter_frames(4) [of ch w x w']
        tracker_frames(4) [of ch w x w']
      show ?thesis by (auto simp: world_ok_def)
    qed (use x w recv_idle(2) in auto)
    with x show "\<exists>x w'. Ret (recv_screened ch w) = Ret (x, w') \<and> world_ok w' \<and> wd_tracker w' = wd_tracker w \<and>
        (\<forall>se. x = Received se \<longrightarrow> conforming_screened se)" by blast
  qed
qed

lemma quiet_store:
  "conforming_screened se \<Longrightarrow> quiet (\<lambda>w. Ret (w_save_event se w)) (\<lambda>_. True)"
  "quiet (\<lambda>w. Ret (scrub_events u w)) (\<lambda>_. True)"
proof -
  assume se: "conforming_screened se"
  show "quiet (\<lambda>w. Ret (w_save_event se w)) (\<lambda>_. True)"
    using conf.store_holds_save [OF _ se]
    by (auto simp: quiet_def w_save_event_def world_ok_def world_conf_def store_of_def split_beta)
next
  have "scrub_events u w = (fst (scrub_events u w), w\<lparr>wd_fraudRepo := fst (snd (DeleteUserEvents u (store_of w)))\<rparr>)" for w
    by (simp add: scrub_events_def store_of_def DeleteUserEvents_def Let_def split: option.splits)
  moreover have "world_ok (w\<lparr>wd_fraudRepo := fst (snd (DeleteUserEvents u (store_of w)))\<rparr>)" if "world_ok w" for w
    using that conf.store_holds_purge [of "store_of w" u]
      conf.store_holds_contacts [of "fst (snd (DeleteUserEvents u (store_of w)))" "snd (snd (DeleteUserEvents u (store_of w)))"]
    by (simp add: world_ok_def world_conf_def store_of_def)
  ultimately show "quiet (\<lambda>w. Ret (scrub_events u w)) (\<lambda>_. True)"
    unfolding quiet_def by (metis surjective world.select_convs(2) world.update_convs(3))
qed

lemma quiet_close:
  "quiet (\<lambda>w. case Close (wd_broker w) of Ret (r, b) \<Rightarrow> Ret (r, w\<lparr>wd_broker := b\<rparr>) | Panic m \<Rightarrow> Panic m) (\<lambda>_. True)"
proof (rule quietI)
  fix w assume w: "world_ok w"
  then have "broker_wf (wd_broker w)" by (simp add: world_ok_def world_conf_def broker_conf_def)
  then obtain b where b: "Close (wd_broker w) = Ret (None, b)" using Close_spec by blast
  from world_conf_step [OF sys_close [OF this, of NewRuleState]] w b
  show "\<exists>r w'. (case Close (wd_broker w) of Ret (r, b) \<Rightarrow> Ret (r, w\<lparr>wd_broker := b\<rparr>) | Panic m \<Rightarrow> Panic m) = Ret (r, w') \<and>
      world_ok w' \<and> wd_tracker w' = wd_tracker w \<and> True"
    by (simp add: world_ok_def)
qed

lemma quiet_sync: "quiet (w_sync ce now env (new_contact now' flow e)) (\<lambda>_. True)"
proof (rule quietI)
  fix w assume w: "world_ok w"
  then have "no_panic (SyncContact ce now env (new_contact now' flow e) (wd_adapter w))"
    by (intro SyncContact_no_panic) (simp add: world_ok_def)
  then obtain r h where h: "SyncContact ce now env (new_contact now' flow e) (wd_adapter w) = Ret (r, h)"
    by (cases "SyncContact ce now env (new_contact now' flow e) (wd_adapter w)") auto
  with w SyncContact_maxRetries [OF h]
  show "\<exists>r w'. w_sync ce now env (new_contact now' flow e) w = Ret (r, w') \<and> world_ok w' \<and> wd_tracker w' = wd_tracker w \<and> True"
    by (simp add: w_sync_def world_ok_def conf.world_holds_simps)
qed

text \<open>Which counters a ledger adds up: none, one, or two of which a handler adds to one.\<close>

locale ledger =
  fixes names :: "string list"
  assumes distinct_names: "distinct names"
    and verdicts: "''legitimate'' \<in> set names \<longleftrightarrow> ''fraudulent'' \<in> set names"
    and outcomes: "''crm_successes'' \<in> set names \<longleftrightarrow> ''crm_failures'' \<in> set names"
begin

abbreviation acc :: "nat \<Rightarrow> int \<Rightarrow> thread \<Rightarrow> bool" where
  "acc \<equiv> accounts (tally names) system_ok (due names)"

abbreviation share :: "string \<Rightarrow> int" where
  "share name \<equiv> if name \<in> set names then 1 else 0"

lemma acc_try:
  assumes "quiet f post" "\<And>r. post r \<Longrightarrow> acc n d (k r)"
  shows "acc (Suc n) d (try_world f k)"
  unfolding try_world_def
proof (rule accounts_atom)
  fix s assume s: "system_ok s"
  obtain st w where w: "s = (st, w)" by (cases s)
  with s assms(1) obtain r w' where f: "f w = Ret (r, w')" "world_ok w'" "wd_tracker w' = wd_tracker w" "post r"
    unfolding quiet_def system_ok_def by auto
  have "system_ok (st, w')" using s w f counters_ok_same by (auto simp: system_ok_def)
  moreover have "tally names (st, w') = wrap64 (tally names s + 0)" using w f(3) by (intro tally_same) simp
  moreover have "acc n (d + 0) (k r)" using assms(2) f(4) by simp
  ultimately show "\<exists>r s' x. (\<lambda>(st, w). case f w of Ret (r, w') \<Rightarrow> Ret (r, st, w') | Panic m \<Rightarrow> Panic m) s = Ret (r, s') \<and>
      system_ok s' \<and> tally names s' = wrap64 (tally names s + x) \<and> acc n (d + x) (k r)"
    using w f(1) by (intro exI [of _ r] exI [of _ "(st, w')"] exI [of _ 0]) simp
qed

lemma acc_on:
  assumes "quiet (\<lambda>w. Ret (f w)) post" "\<And>r. post r \<Longrightarrow> acc n d (k r)"
  shows "acc (Suc n) d (on_world f k)"
  unfolding on_world_def by (rule acc_try [OF assms])

lemma acc_load: "(\<And>r. acc n d (k r)) \<Longrightarrow> acc (Suc n) d (load l k)"
  unfolding load_def by (rule acc_on [OF quiet_readers])

lemma acc_count:
  assumes "name \<in> set metric_names" "acc n (d + share name) g"
  shows "acc (Suc n) d (count name g)"
  unfolding count_def on_world_def try_world_def
proof (rule accounts_atom)
  fix s assume s: "system_ok s"
  obtain st w where w: "s = (st, w)" by (cases s)
  have "counters_ok (w_increment name 1 w)"
    using s w world_telemetry.in_range by (auto simp: counters_ok_def system_ok_def)
  moreover have "world_ok (w_increment name 1 w)" using s w by (simp add: w_increment_def world_ok_simps system_ok_def)
  ultimately have "system_ok (st, w_increment name 1 w)" by (simp add: system_ok_def)
  with tally_increment [OF distinct_names assms(1), of st w] assms(2) w
  show "\<exists>r s' x. (\<lambda>(st, w). case Ret ((), w_increment name 1 w) of Ret (r, w') \<Rightarrow> Ret (r, st, w') | Panic m \<Rightarrow> Panic m) s =
      Ret (r, s') \<and> system_ok s' \<and> tally names s' = wrap64 (tally names s + x) \<and> acc n (d + x) g"
    by (intro exI [of _ "()"] exI [of _ "(st, w_increment name 1 w)"] exI [of _ "share name"]) simp
qed

lemma acc_rules:
  assumes "\<And>r. acc n d (k r)"
  shows "acc (length rules + n) d (rules_thread rules clock i e r k)"
proof (induction rules arbitrary: i r)
  case (Cons rule rules)
  obtain sc rs where r: "r = (sc, rs)" by (cases r)
  have "acc (Suc (length rules + n)) d (rules_thread (rule # rules) clock i e (sc, rs) k)"
    unfolding rules_thread.simps
  proof (rule accounts_atom)
    fix s assume s: "system_ok s"
    obtain st w where w: "s = (st, w)" by (cases s)
    obtain v st' where v: "fr_evaluate rule (clock i) e st = (v, st')" by fastforce
    have "system_ok (st', w)" using s w by (simp add: system_ok_def)
    moreover have "tally names (st', w) = wrap64 (tally names s + 0)" using w by (intro tally_same) simp
    ultimately show "\<exists>va s' x. (\<lambda>(st, w). case fr_evaluate rule (clock i) e st of (v, st') \<Rightarrow> Ret (v, st', w)) s = Ret (va, s') \<and>
        system_ok s' \<and> tally names s' = wrap64 (tally names s + x) \<and> acc (length rules + n) (d + x)
          (rules_thread rules clock (Suc i) e (if vd_err va \<noteq> None then (sc, rs)
            else if 0 < vd_score va then (fadd sc (vd_score va), rs @ [vd_reason va]) else (sc, rs)) k)"
      using w v Cons.IH by (intro exI [of _ v] exI [of _ "(st', w)"] exI [of _ 0]) simp
  qed
  then show ?case by (simp add: r)
qed (simp add: assms)

lemma acc_ingest: "acc 2 0 (ingest_thread env now r)"
proof -
  let ?wrong = "http_Error ''Method not allowed'' StatusMethodNotAllowed"
  let ?json = "http_Error ''{\"error\": \"invalid json payload\"}'' StatusBadRequest"
  let ?fields = "json_reply StatusBadRequest (BText ''{\"error\": \"event_id, user_id, and event_type are required\"}'')"
  let ?broker = "http_Error ''{\"error\": \"internal broker error\"}'' StatusInternalServerError"
  let ?taken = "json_reply StatusAccepted (BText ''{\"status\": \"accepted\", \"message\": \"event queued for screening\"}'')"
  have no: "acc n 0 (Finished (Did (SysIngest r rep)))" if "rep \<in> {?wrong, ?json, ?fields, ?broker}" for rep n
    using that by (auto simp: counted_reply_def consent_refusal_def http_Error_def json_reply_def status_defs)
  have yes: "acc n 0 (count ''total_received'' (Finished (Did (SysIngest r rep))))" if "rep \<in> {?taken, consent_refusal}" "0 < n" for rep n
  proof -
    have "counted_reply rep" using that(1) by (auto simp: counted_reply_def json_reply_def)
    then have "acc (n - 1) (0 + share ''total_received'') (Finished (Did (SysIngest r rep)))" by simp
    from acc_count [OF names(1) this] that(2) show ?thesis by simp
  qed
  have two: "2 = Suc 1" by simp
  show ?thesis
  proof (cases "ar_method r = ''POST''")
    case True
    note post = this
    show ?thesis
    proof (cases "decode_body decode_tracking_event r")
      case None
      with post no show ?thesis by (simp add: ingest_thread_def Let_def)
    next
      case (Some e)
      let ?e = "if IsZero (Timestamp e) then e\<lparr>Timestamp := now\<rparr> else e"
      consider (missing) "EventID e = [] \<or> UserID e = [] \<or> EventType e = []"
        | (refused) err where "\<not> (EventID e = [] \<or> UserID e = [] \<or> EventType e = [])"
            "CheckGDPRConsent (EventType ?e) (GDPRConsent ?e) = Some err"
        | (admitted) "\<not> (EventID e = [] \<or> UserID e = [] \<or> EventType e = [])"
            "CheckGDPRConsent (EventType ?e) (GDPRConsent ?e) = None"
        by fastforce
      then show ?thesis
      proof cases
        case missing
        with post Some no show ?thesis by (simp add: ingest_thread_def Let_def)
      next
        case refused
        with post Some yes [of consent_refusal 2] show ?thesis
          by (simp add: ingest_thread_def Let_def consent_refusal_def del: accounts.simps)
      next
        case admitted
        let ?m = "?e\<lparr>IPAddress := AnonymizeIP (IPAddress ?e)\<rparr>"
        have "conforming ?m"
          using admitted by (auto simp: conforming_def CheckGDPRConsent_def AnonymizeIP_idem split: if_splits)
        from acc_try [OF quiet_publish_raw [OF this], of 1 0] no yes [of _ 1] post Some admitted show ?thesis
          unfolding two by (simp add: ingest_thread_def Let_def split: option.splits del: accounts.simps)
      qed
    qed
  qed (use no in \<open>simp add: ingest_thread_def Let_def\<close>)
qed

lemma acc_store: "conforming_screened se \<Longrightarrow> acc 3 0 (store_thread ch env se)"
proof -
  assume se: "conforming_screened se"
  have three: "3 = Suc (Suc (Suc 0))" by simp
  show ?thesis
    unfolding store_thread_def three using verdicts
    by (intro acc_on [OF quiet_store(1) [OF se]] acc_count acc_try [OF quiet_publish_screened [OF se]])
      (auto simp: names)
qed

lemma acc_screen: "acc 7 0 (screen_thread ch env clock)"
proof -
  have seven: "7 = Suc (length DefaultRules + 3)" by (simp add: DefaultRules_def)
  have "acc (length DefaultRules + 3) 0 (case x of Received event \<Rightarrow>
         rules_thread DefaultRules clock 0 event (0, [])
           (\<lambda>acc. store_thread ch env (scored event (clock (length DefaultRules)) acc))
       | _ \<Rightarrow> Finished Blocked)" if x: "\<forall>e. x = Received e \<longrightarrow> conforming e" for x
  proof (cases x)
    case (Received e)
    with x have "conforming_screened (scored e now r)" for now r by (simp add: scored_def)
    from acc_rules [OF acc_store [OF this]] Received show ?thesis by simp
  qed simp_all
  then show ?thesis
    unfolding seven screen_thread_def by (intro acc_on [OF quiet_recv(1)]) blast
qed

lemma acc_workflow: "acc 5 0 (workflow_thread ch ce now env now')"
proof -
  have five: "5 = Suc 4" and four: "4 = Suc (Suc (Suc (Suc 0)))" by simp_all
  have "acc 4 0 (case x of
       Received event \<Rightarrow>
         let return = Finished (Did (SysWorkflow ch event)) in
         if IsFraudulent event then return
         else (case workflow_of (EventType (Tracking event)) of
             None \<Rightarrow> return
           | Some workflow \<Rightarrow>
               let contact = new_contact now' workflow (Tracking event) in
               count ''crm_attempts''
                 (try_world (w_sync ce now env contact) (\<lambda>err. case err of
                    Some err \<Rightarrow> count ''crm_failures'' (on_world (w_save_contact (contact\<lparr>cc_SyncStatus := ''failed''\<rparr>)) (\<lambda>_. return))
                  | None \<Rightarrow> count ''crm_successes'' (on_world (w_save_contact (contact\<lparr>cc_SyncStatus := ''synced''\<rparr>)) (\<lambda>_. return)))))
     | _ \<Rightarrow> Finished Blocked)" for x
  proof (cases x)
    case (Received se)
    show ?thesis
    proof (cases "IsFraudulent se \<or> workflow_of (EventType (Tracking se)) = None")
      case True
      with Received show ?thesis by (auto simp: Let_def)
    next
      case False
      then obtain flow where flow: "\<not> IsFraudulent se" "workflow_of (EventType (Tracking se)) = Some flow" by auto
      let ?c = "new_contact now' flow (Tracking se)"
      let ?done = "Finished (Did (SysWorkflow ch se)) :: thread"
      have saved: "acc (Suc (Suc 0)) (share ''crm_attempts'') (case r of
           Some err \<Rightarrow> count ''crm_failures'' (on_world (w_save_contact (?c\<lparr>cc_SyncStatus := ''failed''\<rparr>)) (\<lambda>_. ?done))
         | None \<Rightarrow> count ''crm_successes'' (on_world (w_save_contact (?c\<lparr>cc_SyncStatus := ''synced''\<rparr>)) (\<lambda>_. ?done)))" for r
        by (cases r; simp only: option.case; intro acc_count acc_on [OF quiet_marketing(4)])
          (use flow outcomes in \<open>auto simp: names\<close>)
      have "acc 4 0 (count ''crm_attempts'' (try_world (w_sync ce now env ?c) (\<lambda>r. case r of
           Some err \<Rightarrow> count ''crm_failures'' (on_world (w_save_contact (?c\<lparr>cc_SyncStatus := ''failed''\<rparr>)) (\<lambda>_. ?done))
         | None \<Rightarrow> count ''crm_successes'' (on_world (w_save_contact (?c\<lparr>cc_SyncStatus := ''synced''\<rparr>)) (\<lambda>_. ?done)))))"
        unfolding four by (intro acc_count acc_try [OF quiet_sync]) (simp_all add: names saved del: accounts.simps)
      with Received flow show ?thesis by (simp add: Let_def)
    qed
  qed simp_all
  then show ?thesis
    unfolding five workflow_thread_def by (intro acc_on [OF quiet_recv(2)]) blast
qed

lemma acc_purge: "acc 4 0 (purge_thread sha256 now1 now2 r)"
proof -
  have four: "4 = Suc (Suc (Suc (Suc 0)))" by simp
  show ?thesis
    unfolding purge_thread_def four
    by (auto simp: Let_def intro!: acc_on [OF quiet_store(2)] acc_on [OF quiet_marketing(1)] acc_on [OF quiet_marketing(2)]
        acc_on [OF quiet_marketing(3)])
qed

lemma acc_export: "acc 2 0 (export_thread show_time now r)"
proof -
  have two: "2 = Suc (Suc 0)" by simp
  show ?thesis
    unfolding export_thread_def two
    by (auto simp: Let_def split: sum.splits intro!: acc_on [OF quiet_readers])
qed

lemma acc_metrics: "(\<And>m. acc 0 0 (k m)) \<Longrightarrow> acc 6 0 (metrics_thread now k)"
proof -
  assume k: "\<And>m. acc 0 0 (k m)"
  have six: "6 = Suc (Suc (Suc (Suc (Suc (Suc 0)))))" by simp
  show ?thesis
    unfolding metrics_thread_def six by (auto intro!: acc_load k simp del: accounts.simps split: prod.splits)
qed

lemma acc_requests: "acc 6 0 (metrics_request now r)" "acc 6 0 (dashboard_request now r)"
  using acc_metrics by (simp_all add: metrics_request_def dashboard_request_def)

lemma acc_single:
  "acc 1 0 (thread_of FraudSubscribeTask)" "acc 1 0 (thread_of MarketingSubscribeTask)" "acc 1 0 (thread_of CloseTask)"
  unfolding thread_of.simps One_nat_def
  by (auto intro!: acc_on [OF quiet_subscribe(1)] acc_on [OF quiet_subscribe(2)] acc_try [OF quiet_close])

lemma thread_accounts: "acc 7 0 (thread_of t)"
proof (cases t)
  case (ScreenTask ch env clock)
  then show ?thesis by (simp only: thread_of.simps acc_screen)
next
  case FraudSubscribeTask
  from accounts_more [OF acc_single(1), of 7] show ?thesis by (simp add: FraudSubscribeTask)
next
  case MarketingSubscribeTask
  from accounts_more [OF acc_single(2), of 7] show ?thesis by (simp add: MarketingSubscribeTask)
next
  case CloseTask
  from accounts_more [OF acc_single(3), of 7] show ?thesis by (simp add: CloseTask)
qed (simp_all add: acc_ingest [THEN accounts_more] acc_workflow [THEN accounts_more] acc_purge [THEN accounts_more]
    acc_export [THEN accounts_more] acc_requests [THEN accounts_more])

end

sublocale ledger \<subseteq> accounted thread_of "tally names" system_ok "due names" 7
  by unfold_locales (rule thread_accounts)

interpretation received: ledger "[''total_received'']"
  by unfold_locales simp_all

interpretation processed: ledger "[''legitimate'', ''fraudulent'']"
  by unfold_locales simp_all

interpretation attempted: ledger "[''crm_attempts'']"
  by unfold_locales simp_all

interpretation synced: ledger "[''crm_successes'', ''crm_failures'']"
  by unfold_locales simp_all

end
