(* ===== verification/Schedules.thy ===== *)
theory Schedules
  imports Threads
begin

text \<open>
  What holds of every interleaving of the program's goroutines, and what only some interleavings show: a dashboard
  that reads the counters while a contact is being synced.
\<close>

section \<open>A torn reading\<close>

text \<open>A GET of the dashboard or the metrics.\<close>

definition get_request :: api_request where
  "get_request = \<lparr>ar_method = ''GET'', ar_query = [], ar_body = None\<rparr>"

text \<open>The first four counters of one state, the last two of a later one.\<close>

definition torn_metrics :: "time \<Rightarrow> world \<Rightarrow> world \<Rightarrow> system_metrics" where
  "torn_metrics now w w' = (w_metrics now w)\<lparr>CRMSuccesses := mt_crmSuccesses (wd_tracker w'), CRMFailures := mt_crmFailures (wd_tracker w')\<rparr>"

lemma load_Atom: "load l k = Atom (\<lambda>s. Ret (k (l (wd_tracker (snd s))), s))"
  by (simp add: load_def on_world_def try_world_def atom_def split_beta)

lemma sched_load:
  assumes "run sched ((st, w), gs @ k (l (wd_tracker w)) # hs) ops c"
  shows "run sched ((st, w), gs @ load l k # hs) (Exec (length gs) # ops) c"
proof (rule run.intros(2) [OF _ assms])
  have "sched ((st, w), gs @ load l k # hs) (Exec (length gs)) ((st, w), (gs @ load l k # hs)[length gs := k (l (wd_tracker w))])"
    by (rule pool_exec [where f = "\<lambda>s. Ret (k (l (wd_tracker (snd s))), s)"]) (simp_all add: load_Atom)
  then show "sched ((st, w), gs @ load l k # hs) (Exec (length gs)) ((st, w), gs @ k (l (wd_tracker w)) # hs)" by simp
qed

lemma torn_reading:
  assumes "run sys_step (st, w) ops (st', w')"
  shows "\<exists>pops. run sched ((st, w), gs) pops ((st', w'),
    gs @ Finished (Page get_request (HandleDashboard (torn_metrics now w w') get_request)) # map (\<lambda>op. Finished (Did op)) ops)"
proof -
  let ?t = "wd_tracker w" and ?i = "length gs" and ?hs = "map (\<lambda>op. Finished (Did op)) ops"
    and ?page = "\<lambda>m. Finished (Page get_request (HandleDashboard m get_request))"
  have get: "(ar_method get_request \<noteq> ''GET'') = False" by (simp add: get_request_def)
  define rest where "rest = load mt_crmSuccesses (\<lambda>s. load mt_crmFailures (\<lambda>x. ?page
    \<lparr>TotalEventsReceived = mt_totalReceived ?t, LegitimateEvents = mt_legitimate ?t,
     FraudulentEvents = mt_fraudulent ?t, CRMAttempts = mt_crmAttempts ?t, CRMSuccesses = s, CRMFailures = x,
     EventsPerSecond = fdiv (f64 (of_int (mt_totalReceived ?t))) (elapsed_seconds now (mt_startTime ?t))\<rparr>))"
  have "run sched ((st', w'), gs @ rest # ?hs) [Exec ?i, Exec ?i] ((st', w'), gs @ ?page (torn_metrics now w w') # ?hs)"
    unfolding rest_def by (intro sched_load) (simp add: torn_metrics_def w_metrics_def GetMetrics_def Let_def)
  moreover obtain pops where "run sched ((st, w), gs @ [rest]) pops ((st', w'), gs @ rest # ?hs)"
    using run_schedule [OF assms, of "gs @ [rest]"] by auto
  ultimately have "run sched ((st, w), gs @ [rest]) (pops @ [Exec ?i, Exec ?i]) ((st', w'), gs @ ?page (torn_metrics now w w') # ?hs)"
    by (rule run_appendI [rotated])
  then have "run sched ((st, w), gs @ [thread_of (DashboardTask now get_request)])
      (Exec ?i # Exec ?i # Exec ?i # Exec ?i # pops @ [Exec ?i, Exec ?i]) ((st', w'), gs @ ?page (torn_metrics now w w') # ?hs)"
    unfolding thread_of.simps dashboard_request_def metrics_thread_def rest_def get if_False
    by - (rule sched_load, unfold prod.case, intro sched_load, assumption)
  from run.intros(2) [where step = sched, OF pool_spawn this] show ?thesis by (rule exI)
qed

section \<open>Two sign-ups\<close>

text \<open>The program with one subscriber to each topic, what waits there, and its counters so far.\<close>

definition at_work ::
  "tracking_event list \<Rightarrow> screened_event list \<Rightarrow> int \<Rightarrow> int \<Rightarrow> int \<Rightarrow> memory_marketing_repo memory_fraud_repo \<Rightarrow> memory_marketing_repo \<Rightarrow> world" where
  "at_work es ses n l a repo contacts =
     \<lparr>wd_broker = \<lparr>rawSubs = [\<lparr>ch_buf = es, ch_cap = 10000, ch_closed = False\<rparr>],
        screenedSubs = [\<lparr>ch_buf = ses, ch_cap = 10000, ch_closed = False\<rparr>], br_closed = False, bufferSize = 10000\<rparr>,
      wd_tracker = \<lparr>mt_startTime = 0, mt_totalReceived = n, mt_legitimate = l, mt_fraudulent = 0, mt_crmAttempts = a,
        mt_crmSuccesses = a, mt_crmFailures = 0\<rparr>,
      wd_fraudRepo = repo, wd_mktRepo = contacts,
      wd_adapter = NewHTTPCRMAdapter (CRMURL cfg0) (NewResilientClient (250 * Millisecond) 3 (5 * Second) 2 (20 * Millisecond) True)\<rparr>"

lemma subscribed_at_work: "\<exists>repo contacts. subscribed = at_work [sample_event] [] 1 0 0 repo contacts"
  by (simp add: subscribed_def posted_def booted_def at_work_def NewMonolith_def w_subscribe_raw_def SubscribeRaw_def
      NewInMemoryBroker_def broker_buffer_def make_chan_def w_increment_def IncrementMetric_def offered_def add64_def wrap64_def
      NewMemoryTelemetryTracker_def)

lemma ingest_at_work:
  "sys_ingest live_env 5 sample_request (at_work [] ses 1 l a repo contacts) =
     Ret (accepted_reply, at_work [sample_event] ses 2 l a repo contacts)"
  by (simp add: sys_ingest_def HandleIngest_admitted [OF sample_admitted] w_publish_raw_def PublishRaw_def at_work_def
      send_ready_def live_env_def w_increment_def IncrementMetric_def add64_def wrap64_def accepted_reply_def)

text \<open>The address of the sample has been seen fewer than ten times, so it is clean again.\<close>

definition quiet_address :: "nat \<Rightarrow> rule_state \<Rightarrow> bool" where
  "quiet_address n st \<longleftrightarrow> length (slice_at (IPHistory st) (IPAddress sample_event)) \<le> n"

lemma screen_at_work:
  assumes "quiet_address n st" "n < 10" "0 \<le> l" "l < 10"
  shows "\<exists>se st' repo'. sys_step (st, at_work [sample_event] [] m l a repo contacts) (SysScreen 0 sample_event)
      (st', at_work [] [se] m (l + 1) a repo' contacts) \<and>
    Tracking se = sample_event \<and> \<not> IsFraudulent se \<and> quiet_address (Suc n) st'"
proof -
  let ?w = "at_work [sample_event] [] m l a repo contacts" and ?w1 = "at_work [] [] m l a repo contacts"
  let ?clock = "\<lambda>i. 5 :: time"
  obtain se st' where sc: "screen DefaultRules ?clock sample_event st = (se, st')" by fastforce
  have "length (in_window 5 (slice_at (IPHistory st) (IPAddress sample_event))) \<le> n"
    using assms(1) unfolding quiet_address_def in_window_def by (meson le_trans length_filter_le)
  then have clean: "findings ?clock sample_event st = []"
    using assms(2) by (simp add: findings_def bot_hit_def rate_hit_def geo_hit_def sample_event_def
        zero_tracking_event_def bot_signatures_def ascii_lower_def)
  with sc have se: "Tracking se = sample_event" "\<not> IsFraudulent se" by (auto simp: screen_default Let_def)
  have st': "st' = default_state ?clock sample_event st" using sc by (simp add: screen_default Let_def)
  have "quiet_address (Suc n) st'"
    using assms(1) by (auto simp: st' quiet_address_def default_state_def rate_evaluate_def Let_def slice_at_def
        intro: le_trans [OF length_filter_le])
  moreover have "w_recv_raw 0 ?w = (Received sample_event, ?w1)"
    by (simp add: w_recv_raw_def RecvRaw_def at_work_def)
  moreover have "sys_screen live_env ?clock sample_event (st, ?w1) =
      Ret (st', at_work [] [se] m (l + 1) a (snd (SaveEvent se repo)) contacts)"
    using sc se assms(3,4) by (simp add: sys_screen_def ScreenEvent_def wiring SaveEvent_def PublishScreened_def at_work_def
        send_ready_def live_env_def IncrementMetric_def add64_def wrap64_small Let_def)
  moreover have "0 < length (rawSubs (wd_broker ?w))" by (simp add: at_work_def)
  ultimately show ?thesis using se sys_screen_step by blast
qed

text \<open>A CRM that answers every first attempt with 200.\<close>

definition ok_env :: "nat \<Rightarrow> attempt_env" where
  "ok_env k = \<lparr>ae_jitter = 0, ae_done = None,
     ae_net = NetResponse \<lparr>rs_statusCode = 200, rs_status = ''200 OK'', rs_body = []\<rparr>, ae_now = 6\<rparr>"

lemma sync_at_work:
  assumes "Tracking se = sample_event" "\<not> IsFraudulent se" "0 \<le> a" "a < 10"
  shows "\<exists>contacts'. sys_step (st, at_work [] [se] n l a repo contacts) (SysWorkflow 0 se) (st, at_work [] [] n l (a + 1) repo contacts')"
proof -
  let ?w = "at_work [] [se] n l a repo contacts" and ?w1 = "at_work [] [] n l a repo contacts"
  have "workflow_of (EventType (Tracking se)) = Some ''Welcome & Onboarding Campaign''"
    by (simp add: assms(1) workflow_of_def sample_event_def)
  moreover have "SyncContact sample_crm_env 6 ok_env c (wd_adapter ?w1) = Ret (None, wd_adapter ?w1)" for c
    by (simp add: at_work_def SyncContact_def sample_crm_env_def NewHTTPCRMAdapter_def NewResilientClient_def Do_def Allow_def
        NewCircuitBreaker_def do_loop.simps one_attempt_def client_Do_def NewRequest_def ok_env_def on_cb_def
        RecordSuccess_def Let_def)
  ultimately have "\<exists>contacts'. sys_workflow sample_crm_env 6 ok_env 6 se ?w1 = Ret (at_work [] [] n l (a + 1) repo contacts')"
    using assms(3,4) by (simp add: sys_workflow_def ProcessMarketingWorkflow_def wiring SaveCRMContact_def at_work_def
        IncrementMetric_def add64_def wrap64_small Let_def)
  moreover have "w_recv_screened 0 ?w = (Received se, ?w1)"
    by (simp add: w_recv_screened_def RecvScreened_def at_work_def)
  moreover have "0 < length (screenedSubs (wd_broker ?w))" by (simp add: at_work_def)
  ultimately show ?thesis using assms(2) sys_workflow_step by blast
qed

text \<open>One sign-up has been synced and a second one waits for marketing.\<close>

lemma second_signup_waits:
  "\<exists>ops st se repo contacts. run sys_step (NewMonolith cfg0 0) ops (st, at_work [] [se] 2 2 1 repo contacts) \<and>
     Tracking se = sample_event \<and> \<not> IsFraudulent se"
proof -
  obtain r0 c0 where w0: "run sys_step (NewMonolith cfg0 0) (sample_ops @ [SysMarketingSubscribe (Inr 0)])
      (NewRuleState, at_work [sample_event] [] 1 0 0 r0 c0)"
    using sample_subscribed subscribed_at_work by metis
  have "quiet_address 0 NewRuleState" by (simp add: quiet_address_def NewRuleState_def slice_at_def)
  then obtain se1 st1 r1 where s1: "sys_step (NewRuleState, at_work [sample_event] [] 1 0 0 r0 c0) (SysScreen 0 sample_event)
      (st1, at_work [] [se1] 1 (0 + 1) 0 r1 c0)" "Tracking se1 = sample_event" "\<not> IsFraudulent se1" "quiet_address (Suc 0) st1"
    using screen_at_work [of 0 NewRuleState 0 1 0 r0 c0] by auto
  obtain c1 where s2: "sys_step (st1, at_work [] [se1] 1 (0 + 1) 0 r1 c0) (SysWorkflow 0 se1) (st1, at_work [] [] 1 (0 + 1) (0 + 1) r1 c1)"
    using sync_at_work [OF s1(2,3), of 0 st1 1 "0 + 1" r1 c0] by auto
  have s3: "sys_step (st1, at_work [] [] 1 (0 + 1) (0 + 1) r1 c1) (SysIngest sample_request accepted_reply)
      (st1, at_work [sample_event] [] 2 (0 + 1) (0 + 1) r1 c1)"
    by (rule sys_ingest_step) (rule ingest_at_work)
  obtain se2 st2 r2 where s4: "sys_step (st1, at_work [sample_event] [] 2 (0 + 1) (0 + 1) r1 c1) (SysScreen 0 sample_event)
      (st2, at_work [] [se2] 2 (0 + 1 + 1) (0 + 1) r2 c1)" "Tracking se2 = sample_event" "\<not> IsFraudulent se2"
    using screen_at_work [OF s1(4), of "0 + 1" 2 "0 + 1" r1 c1] by auto
  have "run sys_step (NewRuleState, at_work [sample_event] [] 1 0 0 r0 c0)
      [SysScreen 0 sample_event, SysWorkflow 0 se1, SysIngest sample_request accepted_reply, SysScreen 0 sample_event]
      (st2, at_work [] [se2] 2 (0 + 1 + 1) (0 + 1) r2 c1)"
    using s1(1) s2 s3 s4(1) by (intro run.intros) (assumption | rule run.intros(1))+
  from run_appendI [OF w0 this] s4(2,3) show ?thesis by force
qed

section \<open>The books of a schedule\<close>

text \<open>The steps of the program among the answers.\<close>

fun done_ops :: "answer list \<Rightarrow> system_op list" where
  "done_ops [] = []"
| "done_ops (Did op # as) = op # done_ops as"
| "done_ops (_ # as) = done_ops as"

lemma done_ops_Did: "done_ops (map Did ops) = ops"
  by (induction ops) simp_all

lemma sum_due:
  "sum_list (map (due [''total_received'']) as) = sum_ops received_by (done_ops as)"
  "sum_list (map (due [''legitimate'', ''fraudulent'']) as) = sum_ops screened_by (done_ops as)"
  "sum_list (map (due [''crm_attempts'']) as) = sum_ops attempts_by (done_ops as)"
  "sum_list (map (due [''crm_successes'', ''crm_failures'']) as) = sum_ops attempts_by (done_ops as)"
  by (induction as rule: done_ops.induct) (simp_all add: sum_ops_simps)

lemma start_ok: "system_ok (NewMonolith cfg now)" "tally names (NewMonolith cfg now) = 0"
proof -
  have "run sys_step (NewMonolith cfg now) [] (NewMonolith cfg now)" by simp
  then have "world_ok (snd (NewMonolith cfg now))" by (rule world_ok_run)
  with counters_New(2) show "system_ok (NewMonolith cfg now)" unfolding system_ok_def by blast
  have "sum_list (map (\<lambda>n. 0 :: int) names) = 0" by (induction names) simp_all
  then show "tally names (NewMonolith cfg now) = 0" by (simp add: tally_def counters_New(1) wrap64_def)
qed

lemma zero_int64: "is_int64 0"
  by (simp add: is_int64_def int64_min_def int64_max_def)

lemmas schedule_start = start_ok zero_int64

section \<open>Properties\<close>


text \<open>
  C2: Interleaving breaks none of the guarantees. In every state a schedule of any number of overlapping requests and
  worker turns reaches, every event that waits in a channel or lies in the repository has passed the gate and is filed
  under its user; every goroutine that has not ended can take its next atom, without a panic; and none takes
  more than seven.
\<close>
theorem interleavings_are_safe:
  assumes "run sched (NewMonolith cfg now, []) ops (s, gs)"
  shows "(e \<in> set (buffered (rawSubs (wd_broker (snd s))) ch) \<longrightarrow> conforming e) \<and>
    (se \<in> set (buffered (screenedSubs (wd_broker (snd s))) ch) \<longrightarrow> conforming (Tracking se)) \<and>
    (w_get_events u (snd s) = Inr ses \<and> se \<in> set ses \<longrightarrow> conforming (Tracking se) \<and> UserID (Tracking se) = u) \<and>
    (i < length gs \<and> gs ! i = Atom f \<longrightarrow> (\<exists>g s'. f s = Ret (g, s'))) \<and>
    count_list ops (Exec i) \<le> 7"
proof -
  note safe = received.schedule_safe [OF assms start_ok(1), unfolded start_ok(2), OF zero_int64]
  have "world_holds conforming conforming_screened (snd s)" using safe(1) by (simp add: system_ok_def world_ok_def)
  note events = world_holds_events [OF this]
  show ?thesis using events safe(2,3) by blast
qed

theorem interleavings_are_safe_witness:
  "\<exists>ops s gs se f. run sched (NewMonolith cfg0 0, []) ops (s, gs) \<and> se \<in> set (buffered (screenedSubs (wd_broker (snd s))) 0) \<and>
     conforming (Tracking se) \<and> last gs = Atom f \<and> (\<exists>g s'. f s = Ret (g, s'))"
proof -
  obtain ops st se r c where s: "run sys_step (NewMonolith cfg0 0) ops (st, at_work [] [se] 2 2 1 r c)"
    using second_signup_waits by blast
  let ?s = "(st, at_work [] [se] 2 2 1 r c)" and ?gs = "map (\<lambda>op. Finished (Did op)) ops @ [thread_of CloseTask]"
  obtain pops where "run sched (NewMonolith cfg0 0, []) pops (?s, map (\<lambda>op. Finished (Did op)) ops)"
    using run_schedule [OF s, of "[]"] by auto
  moreover have "run sched (?s, map (\<lambda>op. Finished (Did op)) ops) [Spawn CloseTask] (?s, ?gs)"
    by (rule run.intros(2) [OF _ run.intros(1)]) (rule pool_spawn)
  ultimately have run: "run sched (NewMonolith cfg0 0, []) (pops @ [Spawn CloseTask]) (?s, ?gs)" by (rule run_appendI)
  have waits: "se \<in> set (buffered (screenedSubs (wd_broker (snd ?s))) 0)" by (simp add: at_work_def buffered_def)
  obtain f where f: "thread_of CloseTask = Atom f" by (simp add: try_world_def atom_def)
  then have "?gs ! length ops = Atom f" "length ops < length ?gs" "last ?gs = Atom f" by (simp_all add: nth_append)
  with interleavings_are_safe [OF run, of _ 0 se _ _ "length ops" f] waits run show ?thesis by blast
qed



text \<open>
  C14: The dashboard can show more successes than attempts. It loads its six counters one after the other, and
  nothing stops a worker in between: after one synced sign-up, a reading that a second sync overtakes between the
  loads of the attempts and of the successes shows 1 attempt, 2 successes and a success rate of 200 percent,
  although the counters themselves never say so.
\<close>
theorem dashboard_can_tear:
  "\<exists>ops s gs m. run sched (NewMonolith cfg0 0, []) ops (s, gs) \<and>
     Finished (Page get_request (HandleDashboard m get_request)) \<in> set gs \<and>
     CRMAttempts m = 1 \<and> CRMSuccesses m = 2 \<and> crmSuccessRate m = 200 \<and>
     w_counter ''crm_attempts'' (snd s) = 2 \<and> w_counter ''crm_successes'' (snd s) = 2"
proof -
  obtain ops st se r c where s: "run sys_step (NewMonolith cfg0 0) ops (st, at_work [] [se] 2 2 1 r c)"
      "Tracking se = sample_event" "\<not> IsFraudulent se"
    using second_signup_waits by blast
  obtain c' where "sys_step (st, at_work [] [se] 2 2 1 r c) (SysWorkflow 0 se) (st, at_work [] [] 2 2 (1 + 1) r c')"
    using sync_at_work [OF s(2,3), of 1 st 2 2 r c] by auto
  then have "run sys_step (st, at_work [] [se] 2 2 1 r c) [SysWorkflow 0 se] (st, at_work [] [] 2 2 2 r c')"
    by (simp add: run.intros)
  note torn = torn_reading [OF this, of "map (\<lambda>op. Finished (Did op)) ops" 7]
  let ?m = "torn_metrics 7 (at_work [] [se] 2 2 1 r c) (at_work [] [] 2 2 2 r c')"
  obtain pops where "run sched (NewMonolith cfg0 0, []) pops ((st, at_work [] [se] 2 2 1 r c), map (\<lambda>op. Finished (Did op)) ops)"
    using run_schedule [OF s(1), of "[]"] by auto
  note first = this
  have m: "CRMAttempts ?m = 1" "CRMSuccesses ?m = 2"
    by (simp_all add: torn_metrics_def w_metrics_def GetMetrics_def Let_def at_work_def)
  have "percentage 2 1 = 200" by code_simp
  then have "crmSuccessRate ?m = 200" using m by (simp add: crmSuccessRate_def percentage_def)
  moreover have "w_counter ''crm_attempts'' (at_work [] [] 2 2 2 r c') = 2" "w_counter ''crm_successes'' (at_work [] [] 2 2 2 r c') = 2"
    by (simp_all add: w_counter_def counter_def metric_def GetMetrics_def Let_def at_work_def)
  ultimately show ?thesis
    using torn m run_appendI [OF first] by (elim exE) (fastforce intro!: exI)
qed

end
