(* ===== verification/SqlDb.thy ===== *)
theory SqlDb
  imports EventsJson MarketingRepo
begin

text \<open>
  What the Postgres repositories see of \<^verbatim>\<open>database/sql\<close>: the statements of the sources, the
  values that go to and come from a driver, the conversions of \<^verbatim>\<open>Scan\<close>, and a database as its
  operations on a state \<open>'d\<close>. The server is not part of the sources; what is relied on of it
  is \<open>pg_contract\<close> in \<^verbatim>\<open>PostgresRepos\<close>.
\<close>

section \<open>Statements and values\<close>

text \<open>One constructor per statement text of \<^verbatim>\<open>postgres.go\<close> in the three domains.\<close>

datatype sql_statement =
    InsertEvent | SelectEvents | DeleteEvents
  | UpsertContact | SelectContact | DeleteContact
  | InsertLog | SelectLogs
  | UpsertMetric | SelectMetrics

text \<open>The table a statement names.\<close>

fun table_of :: "sql_statement \<Rightarrow> string" where
  "table_of InsertEvent = ''events''"
| "table_of SelectEvents = ''events''"
| "table_of DeleteEvents = ''events''"
| "table_of UpsertContact = ''crm_contacts''"
| "table_of SelectContact = ''crm_contacts''"
| "table_of DeleteContact = ''crm_contacts''"
| "table_of InsertLog = ''privacy_logs''"
| "table_of SelectLogs = ''privacy_logs''"
| "table_of UpsertMetric = ''metrics_counters''"
| "table_of SelectMetrics = ''metrics_counters''"

text \<open>
  A value of a driver. \<open>SqlJson\<close> is a byte text that holds a JSON document, \<^const>\<open>None\<close> if
  it is not JSON.
\<close>

datatype sql_value =
    SqlNull | SqlText string | SqlInt int | SqlFloat rat | SqlBool bool | SqlTime time | SqlJson "json option"

text \<open>The rows of a query in order, and the error that ends them, if any (\<^verbatim>\<open>rows.Err()\<close>).\<close>

type_synonym sql_rows = "sql_value list list \<times> go_error option"

section \<open>Scan\<close>

text \<open>
  \<^verbatim>\<open>convertAssign\<close> into the types the sources scan into; \<^const>\<open>None\<close> is its error. A value of
  another kind is first written as text: \<open>sq_text\<close> is that text where it is not needed in detail,
  and \<open>sq_parse_float\<close> is \<^verbatim>\<open>strconv.ParseFloat\<close>.
\<close>

record scan_env =
  sq_text :: "sql_value \<Rightarrow> string"
  sq_parse_float :: "string \<Rightarrow> rat option"

definition as_string :: "scan_env \<Rightarrow> sql_value \<Rightarrow> string" where
  "as_string sc v =
     (case v of SqlText s \<Rightarrow> s | SqlInt i \<Rightarrow> show_int i | SqlBool b \<Rightarrow> (if b then ''true'' else ''false'') | _ \<Rightarrow> sq_text sc v)"

definition scan_string :: "scan_env \<Rightarrow> sql_value \<Rightarrow> string option" where
  "scan_string sc v = (if v = SqlNull then None else Some (as_string sc v))"

text \<open>\<^verbatim>\<open>strconv.ParseInt\<close> in base 10 with 64 bits.\<close>

definition parse_int64 :: "string \<Rightarrow> int option" where
  "parse_int64 s =
     (let (neg, ds) = (case s of c # r \<Rightarrow> if c = CHR ''-'' then (True, r) else if c = CHR ''+'' then (False, r) else (False, s)
                               | [] \<Rightarrow> (False, [])) in
      if ds = [] then None
      else case digits_value 0 ds of
        None \<Rightarrow> None
      | Some n \<Rightarrow> (let i = (if neg then - int n else int n) in if is_int64 i then Some i else None))"

definition scan_int64 :: "scan_env \<Rightarrow> sql_value \<Rightarrow> int option" where
  "scan_int64 sc v =
     (case v of SqlNull \<Rightarrow> None | SqlInt i \<Rightarrow> Some i | _ \<Rightarrow> parse_int64 (as_string sc v))"

definition scan_float :: "scan_env \<Rightarrow> sql_value \<Rightarrow> rat option" where
  "scan_float sc v =
     (case v of SqlNull \<Rightarrow> None | SqlFloat x \<Rightarrow> Some x | _ \<Rightarrow> sq_parse_float sc (as_string sc v))"

definition true_words :: "string list" where
  "true_words = [''1'', ''t'', ''T'', ''TRUE'', ''true'', ''True'']"

definition false_words :: "string list" where
  "false_words = [''0'', ''f'', ''F'', ''FALSE'', ''false'', ''False'']"

definition scan_bool :: "sql_value \<Rightarrow> bool option" where
  "scan_bool v =
     (case v of
        SqlBool b \<Rightarrow> Some b
      | SqlInt i \<Rightarrow> if i = 1 then Some True else if i = 0 then Some False else None
      | SqlText s \<Rightarrow> if s \<in> set true_words then Some True else if s \<in> set false_words then Some False else None
      | _ \<Rightarrow> None)"

definition scan_time :: "sql_value \<Rightarrow> time option" where
  "scan_time v = (case v of SqlTime t \<Rightarrow> Some t | _ \<Rightarrow> None)"

text \<open>Into a \<^verbatim>\<open>[]byte\<close> that is read as JSON: the empty slice, or the document it holds. Any other text is not JSON here.\<close>

definition scan_bytes :: "sql_value \<Rightarrow> json option option" where
  "scan_bytes v =
     (case v of SqlNull \<Rightarrow> None | SqlText s \<Rightarrow> (if s = [] then None else Some None) | SqlJson d \<Rightarrow> Some d | _ \<Rightarrow> Some None)"

definition scan_error :: go_error where
  "scan_error = NewError ''sql: Scan error''"

section \<open>Databases\<close>

text \<open>
  \<^verbatim>\<open>db.Exec\<close> with the affected rows, \<^verbatim>\<open>db.Query\<close>, and a transaction: its begin, its
  statements, its commit and its rollback.
\<close>

record 'd sql_db =
  db_exec :: "sql_statement \<Rightarrow> sql_value list \<Rightarrow> 'd \<Rightarrow> (go_error + int) \<times> 'd"
  db_query :: "sql_statement \<Rightarrow> sql_value list \<Rightarrow> 'd \<Rightarrow> go_error + sql_rows"
  db_begin :: "'d \<Rightarrow> go_error option \<times> 'd"
  tx_exec :: "sql_statement \<Rightarrow> sql_value list \<Rightarrow> 'd \<Rightarrow> (go_error + int) \<times> 'd"
  tx_commit :: "'d \<Rightarrow> go_error option \<times> 'd"
  tx_rollback :: "'d \<Rightarrow> 'd"

definition ErrNoRows :: go_error where
  "ErrNoRows = NewError ''sql: no rows in result set''"

text \<open>
  The loop \<^verbatim>\<open>for rows.Next()\<close> of a reader that stops at the first row it cannot use, and
  \<^verbatim>\<open>rows.Err()\<close> after it.
\<close>

fun read_rows :: "(sql_value list \<Rightarrow> go_error + 'a) \<Rightarrow> sql_value list list \<Rightarrow> 'a list \<Rightarrow> go_error + 'a list" where
  "read_rows scan [] acc = Inr acc"
| "read_rows scan (r # rs) acc = (case scan r of Inl err \<Rightarrow> Inl err | Inr x \<Rightarrow> read_rows scan rs (acc @ [x]))"

definition rows_result :: "(sql_value list \<Rightarrow> go_error + 'a) \<Rightarrow> sql_rows \<Rightarrow> go_error + 'a list" where
  "rows_result scan rows =
     (case read_rows scan (fst rows) [] of
        Inl err \<Rightarrow> Inl err
      | Inr xs \<Rightarrow> (case snd rows of None \<Rightarrow> Inr xs | Some err \<Rightarrow> Inl err))"

lemma read_rows_ok:
  "\<forall>r \<in> set rs. scan r = Inr (f r) \<Longrightarrow> read_rows scan rs acc = Inr (acc @ map f rs)"
  by (induction rs arbitrary: acc) simp_all

end
