(* ===== verification/PostgresRepos.thy ===== *)
theory PostgresRepos
  imports SqlDb Tracker "HOL-Library.Monad_Syntax"
begin

text \<open>
  The repositories over \<^verbatim>\<open>database/sql\<close>: \<^verbatim>\<open>pkg/domain/fraud/postgres.go\<close>,
  \<^verbatim>\<open>pkg/domain/marketing/postgres.go\<close> and \<^verbatim>\<open>pkg/domain/analytics/postgres.go\<close>. Each
  operation takes the database \<open>db\<close> and works on its state \<open>'d\<close>.
\<close>

section \<open>Screened events\<close>

text \<open>\<^verbatim>\<open>json.Marshal(event.Payload)\<close>: a payload that was decoded from JSON has no value it refuses.\<close>

definition MarshalPayload :: "(string, json) go_map \<Rightarrow> go_error + json" where
  "MarshalPayload m = Inr (encode_payload m)"

definition event_args :: "screened_event \<Rightarrow> json \<Rightarrow> sql_value list" where
  "event_args event payloadJSON =
     [SqlText (EventID (Tracking event)), SqlText (UserID (Tracking event)), SqlText (EventType (Tracking event)),
      SqlText (IPAddress (Tracking event)), SqlText (UserAgent (Tracking event)), SqlJson (Some payloadJSON),
      SqlTime (Timestamp (Tracking event)), SqlBool (GDPRConsent (Tracking event)), SqlBool (IsFraudulent event),
      SqlFloat (FraudScore event), SqlText (FraudReason event), SqlTime (ScreenedAt event)]"

definition PgSaveEvent :: "'d sql_db \<Rightarrow> screened_event \<Rightarrow> 'd \<Rightarrow> go_error option \<times> 'd" where
  "PgSaveEvent db event d =
     (case MarshalPayload (Payload (Tracking event)) of
        Inl err \<Rightarrow> (Some (Wrapped ''failed to marshal event payload'' err), d)
      | Inr payloadJSON \<Rightarrow>
          (case db_exec db InsertEvent (event_args event payloadJSON) d of
             (Inl err, d') \<Rightarrow> (Some err, d')
           | (Inr n, d') \<Rightarrow> (None, d')))"

text \<open>\<^verbatim>\<open>rows.Scan\<close> of one event: the event without its payload, and the payload's bytes.\<close>

definition scan_columns :: "scan_env \<Rightarrow> sql_value list \<Rightarrow> (screened_event \<times> json option option) option" where
  "scan_columns sc r =
     (case r of
        [c0, c1, c2, c3, c4, c5, c6, c7, c8, c9, c10, c11] \<Rightarrow>
          do {
            event_id \<leftarrow> scan_string sc c0;
            user_id \<leftarrow> scan_string sc c1;
            event_type \<leftarrow> scan_string sc c2;
            ip_address \<leftarrow> scan_string sc c3;
            user_agent \<leftarrow> scan_string sc c4;
            timestamp \<leftarrow> scan_time c6;
            gdpr_consent \<leftarrow> scan_bool c7;
            is_fraudulent \<leftarrow> scan_bool c8;
            fraud_score \<leftarrow> scan_float sc c9;
            fraud_reason \<leftarrow> scan_string sc c10;
            screened_at \<leftarrow> scan_time c11;
            Some (\<lparr>Tracking = \<lparr>EventID = event_id, UserID = user_id, EventType = event_type, IPAddress = ip_address,
                      UserAgent = user_agent, Payload = None, Timestamp = timestamp, GDPRConsent = gdpr_consent\<rparr>,
                    IsFraudulent = is_fraudulent, FraudScore = fraud_score, FraudReason = fraud_reason,
                    ScreenedAt = screened_at\<rparr>,
                  scan_bytes c5)
          }
      | _ \<Rightarrow> None)"

definition unmarshal_error :: go_error where
  "unmarshal_error = NewError ''json: cannot unmarshal''"

definition scan_event :: "scan_env \<Rightarrow> sql_value list \<Rightarrow> go_error + screened_event" where
  "scan_event sc r =
     (case scan_columns sc r of
        None \<Rightarrow> Inl (Wrapped ''failed to scan event row'' scan_error)
      | Some (ev, None) \<Rightarrow> Inr ev
      | Some (ev, Some doc) \<Rightarrow>
          (case Option.bind doc (\<lambda>doc. decode_map Payload_update doc (Tracking ev)) of
             None \<Rightarrow> Inl (Wrapped ''failed to unmarshal event payload'' unmarshal_error)
           | Some t \<Rightarrow> Inr (ev\<lparr>Tracking := t\<rparr>)))"

definition PgGetEventsByUserID :: "'d sql_db \<Rightarrow> scan_env \<Rightarrow> string \<Rightarrow> 'd \<Rightarrow> go_error + screened_event list" where
  "PgGetEventsByUserID db sc userID d =
     (case db_query db SelectEvents [SqlText userID] d of
        Inl err \<Rightarrow> Inl (Wrapped ''failed to query events'' err)
      | Inr rows \<Rightarrow> rows_result (scan_event sc) rows)"

text \<open>The transaction of a purge; the deferred \<^verbatim>\<open>Rollback\<close> does nothing once \<^verbatim>\<open>Commit\<close> was called.\<close>

definition PgDeleteUserEvents :: "'d sql_db \<Rightarrow> string \<Rightarrow> 'd \<Rightarrow> (go_error + int) \<times> 'd" where
  "PgDeleteUserEvents db userID d =
     (case db_begin db d of
        (Some err, d1) \<Rightarrow> (Inl err, d1)
      | (None, d1) \<Rightarrow>
          (case tx_exec db DeleteEvents [SqlText userID] d1 of
             (Inl err, d2) \<Rightarrow> (Inl (Wrapped ''failed to delete events'' err), tx_rollback db d2)
           | (Inr eventsDeleted, d2) \<Rightarrow>
               (case tx_exec db DeleteContact [SqlText userID] d2 of
                  (Inl err, d3) \<Rightarrow> (Inl (Wrapped ''failed to delete CRM contacts'' err), tx_rollback db d3)
                | (Inr crmDeleted, d3) \<Rightarrow>
                    (case tx_commit db d3 of
                       (Some err, d4) \<Rightarrow> (Inl err, d4)
                     | (None, d4) \<Rightarrow> (Inr (wrap64 (eventsDeleted + crmDeleted)), d4)))))"

section \<open>Contacts and the privacy log\<close>

definition contact_args :: "crm_contact \<Rightarrow> sql_value list" where
  "contact_args c =
     [SqlText (cc_UserID c), SqlText (cc_Email c), SqlText (cc_WorkflowTriggered c), SqlText (cc_SyncStatus c),
      SqlTime (cc_SyncedAt c), SqlInt (cc_RetryCount c)]"

definition PgSaveCRMContact :: "'d sql_db \<Rightarrow> crm_contact \<Rightarrow> 'd \<Rightarrow> go_error option \<times> 'd" where
  "PgSaveCRMContact db contact d =
     (case db_exec db UpsertContact (contact_args contact) d of
        (Inl err, d') \<Rightarrow> (Some err, d') | (Inr n, d') \<Rightarrow> (None, d'))"

definition scan_contact :: "scan_env \<Rightarrow> sql_value list \<Rightarrow> crm_contact option" where
  "scan_contact sc r =
     (case r of
        [c0, c1, c2, c3, c4, c5] \<Rightarrow>
          do {
            user_id \<leftarrow> scan_string sc c0;
            email \<leftarrow> scan_string sc c1;
            workflow \<leftarrow> scan_string sc c2;
            status \<leftarrow> scan_string sc c3;
            synced_at \<leftarrow> scan_time c4;
            retry_count \<leftarrow> scan_int64 sc c5;
            Some \<lparr>cc_UserID = user_id, cc_Email = email, cc_WorkflowTriggered = workflow, cc_SyncStatus = status,
                  cc_SyncedAt = synced_at, cc_RetryCount = retry_count\<rparr>
          }
      | _ \<Rightarrow> None)"

text \<open>\<^verbatim>\<open>QueryRow(...).Scan(...)\<close>: the first row, the error that came instead, or \<^verbatim>\<open>ErrNoRows\<close>.\<close>

definition query_row :: "(sql_value list \<Rightarrow> 'a option) \<Rightarrow> go_error + sql_rows \<Rightarrow> go_error + 'a" where
  "query_row scan res =
     (case res of
        Inl err \<Rightarrow> Inl err
      | Inr (r # rs, _) \<Rightarrow> (case scan r of None \<Rightarrow> Inl scan_error | Some x \<Rightarrow> Inr x)
      | Inr ([], Some err) \<Rightarrow> Inl err
      | Inr ([], None) \<Rightarrow> Inl ErrNoRows)"

definition PgGetCRMContact :: "'d sql_db \<Rightarrow> scan_env \<Rightarrow> string \<Rightarrow> 'd \<Rightarrow> go_error + crm_contact" where
  "PgGetCRMContact db sc userID d =
     (case query_row (scan_contact sc) (db_query db SelectContact [SqlText userID] d) of
        Inr c \<Rightarrow> Inr c
      | Inl err \<Rightarrow>
          if err = ErrNoRows then Inl (NewError ''crm contact not found'')
          else Inl (Wrapped ''failed to query crm contact'' err))"

definition PgDeleteCRMContact :: "'d sql_db \<Rightarrow> string \<Rightarrow> 'd \<Rightarrow> go_error option \<times> 'd" where
  "PgDeleteCRMContact db userID d =
     (case db_exec db DeleteContact [SqlText userID] d of
        (Inl err, d') \<Rightarrow> (Some err, d') | (Inr n, d') \<Rightarrow> (None, d'))"

definition log_args :: "privacy_log \<Rightarrow> sql_value list" where
  "log_args l = [SqlText (pl_LogID l), SqlText (pl_UserID l), SqlText (pl_Action l), SqlTime (pl_Timestamp l)]"

definition PgSavePrivacyLog :: "'d sql_db \<Rightarrow> privacy_log \<Rightarrow> 'd \<Rightarrow> go_error option \<times> 'd" where
  "PgSavePrivacyLog db l d =
     (case db_exec db InsertLog (log_args l) d of
        (Inl err, d') \<Rightarrow> (Some err, d') | (Inr n, d') \<Rightarrow> (None, d'))"

definition scan_log :: "scan_env \<Rightarrow> sql_value list \<Rightarrow> go_error + privacy_log" where
  "scan_log sc r =
     (case (case r of
              [c0, c1, c2, c3] \<Rightarrow>
                do {
                  log_id \<leftarrow> scan_string sc c0;
                  user_id \<leftarrow> scan_string sc c1;
                  action \<leftarrow> scan_string sc c2;
                  timestamp \<leftarrow> scan_time c3;
                  Some \<lparr>pl_LogID = log_id, pl_UserID = user_id, pl_Action = action, pl_Timestamp = timestamp\<rparr>
                }
            | _ \<Rightarrow> None) of
        None \<Rightarrow> Inl (Wrapped ''failed to scan privacy log row'' scan_error)
      | Some l \<Rightarrow> Inr l)"

definition PgGetPrivacyLogsByUserID :: "'d sql_db \<Rightarrow> scan_env \<Rightarrow> string \<Rightarrow> 'd \<Rightarrow> go_error + privacy_log list" where
  "PgGetPrivacyLogsByUserID db sc userID d =
     (case db_query db SelectLogs [SqlText userID] d of
        Inl err \<Rightarrow> Inl (Wrapped ''failed to query privacy logs'' err)
      | Inr rows \<Rightarrow> rows_result (scan_log sc) rows)"

section \<open>The counters\<close>

text \<open>An increment that fails is logged and lost.\<close>

definition PgIncrementMetric :: "'d sql_db \<Rightarrow> string \<Rightarrow> int \<Rightarrow> 'd \<Rightarrow> 'd" where
  "PgIncrementMetric db name delta d = snd (db_exec db UpsertMetric [SqlText name, SqlInt delta] d)"

definition zero_metrics :: system_metrics where
  "zero_metrics = \<lparr>TotalEventsReceived = 0, LegitimateEvents = 0, FraudulentEvents = 0, CRMAttempts = 0,
     CRMSuccesses = 0, CRMFailures = 0, EventsPerSecond = 0\<rparr>"

text \<open>The \<^verbatim>\<open>switch\<close> on the name of a row; a row that cannot be scanned is skipped.\<close>

definition set_metric :: "string \<Rightarrow> int \<Rightarrow> system_metrics \<Rightarrow> system_metrics" where
  "set_metric name val m =
     (if name = ''total_received'' then m\<lparr>TotalEventsReceived := val\<rparr>
      else if name = ''legitimate'' then m\<lparr>LegitimateEvents := val\<rparr>
      else if name = ''fraudulent'' then m\<lparr>FraudulentEvents := val\<rparr>
      else if name = ''crm_attempts'' then m\<lparr>CRMAttempts := val\<rparr>
      else if name = ''crm_successes'' then m\<lparr>CRMSuccesses := val\<rparr>
      else if name = ''crm_failures'' then m\<lparr>CRMFailures := val\<rparr>
      else m)"

definition read_metric :: "scan_env \<Rightarrow> sql_value list \<Rightarrow> system_metrics \<Rightarrow> system_metrics" where
  "read_metric sc r m =
     (case r of
        [c0, c1] \<Rightarrow>
          (case (scan_string sc c0, scan_int64 sc c1) of
             (Some name, Some val) \<Rightarrow> set_metric name val m
           | _ \<Rightarrow> m)
      | _ \<Rightarrow> m)"

definition PgGetMetrics :: "'d sql_db \<Rightarrow> scan_env \<Rightarrow> time \<Rightarrow> time \<Rightarrow> 'd \<Rightarrow> system_metrics" where
  "PgGetMetrics db sc startTime now d =
     (let elapsed = elapsed_seconds now startTime in
      case db_query db SelectMetrics [] d of
        Inl err \<Rightarrow> zero_metrics
      | Inr rows \<Rightarrow>
          let metrics = fold (read_metric sc) (fst rows) zero_metrics in
          metrics\<lparr>EventsPerSecond := fdiv (f64 (of_int (TotalEventsReceived metrics))) elapsed\<rparr>)"

end
