(* ===== verification/PostgresContract.thy ===== *)
theory PostgresContract
  imports PostgresRepos
begin

text \<open>
  What the repositories rely on of the Postgres server, as a predicate on a database, and what
  they then guarantee. The tables are lists of rows, in the columns of
  \<^verbatim>\<open>pkg/db/migrations/0001_init.sql\<close>.
\<close>

section \<open>The effect of the statements\<close>

record pg_view =
  pv_events :: "sql_value list list"
  pv_contacts :: "sql_value list list"
  pv_logs :: "sql_value list list"
  pv_counters :: "sql_value list list"

definition has_key :: "sql_value \<Rightarrow> sql_value list list \<Rightarrow> bool" where
  "has_key k rows \<longleftrightarrow> (\<exists>r \<in> set rows. hd r = k)"

text \<open>\<^verbatim>\<open>INSERT ... ON CONFLICT DO NOTHING\<close>, \<^verbatim>\<open>INSERT ... ON CONFLICT DO UPDATE\<close> and the addition to a counter.\<close>

definition insert_new :: "(sql_value \<Rightarrow> sql_value) \<Rightarrow> sql_value list \<Rightarrow> sql_value list list \<Rightarrow> sql_value list list \<times> int" where
  "insert_new keep args rows = (if has_key (hd args) rows then (rows, 0) else (rows @ [map keep args], 1))"

definition upsert :: "(sql_value \<Rightarrow> sql_value) \<Rightarrow> sql_value list \<Rightarrow> sql_value list list \<Rightarrow> sql_value list list" where
  "upsert keep args rows =
     (if has_key (hd args) rows then map (\<lambda>r. if hd r = hd args then map keep args else r) rows
      else rows @ [map keep args])"

fun add_sql :: "sql_value \<Rightarrow> sql_value \<Rightarrow> sql_value" where
  "add_sql (SqlInt a) (SqlInt b) = SqlInt (a + b)"
| "add_sql a _ = a"

definition add_counter :: "sql_value list \<Rightarrow> sql_value list list \<Rightarrow> sql_value list list" where
  "add_counter args rows =
     (if has_key (hd args) rows then map (\<lambda>r. if hd r = hd args then [hd r, add_sql (r ! 1) (args ! 1)] else r) rows
      else rows @ [args])"

definition without :: "nat \<Rightarrow> sql_value \<Rightarrow> sql_value list list \<Rightarrow> sql_value list list" where
  "without i k rows = filter (\<lambda>r. r ! i \<noteq> k) rows"

definition removed :: "nat \<Rightarrow> sql_value \<Rightarrow> sql_value list list \<Rightarrow> int" where
  "removed i k rows = int (length (filter (\<lambda>r. r ! i = k) rows))"

text \<open>
  The effect of a statement that succeeds, with the number of rows it affects. \<open>keep\<close> is the
  form in which the server keeps a value.
\<close>

fun pg_apply :: "(sql_value \<Rightarrow> sql_value) \<Rightarrow> sql_statement \<Rightarrow> sql_value list \<Rightarrow> pg_view \<Rightarrow> pg_view \<times> int" where
  "pg_apply keep InsertEvent args v =
     (case insert_new keep args (pv_events v) of (rows, n) \<Rightarrow> (v\<lparr>pv_events := rows\<rparr>, n))"
| "pg_apply keep DeleteEvents args v =
     (v\<lparr>pv_events := without 1 (hd args) (pv_events v)\<rparr>, removed 1 (hd args) (pv_events v))"
| "pg_apply keep UpsertContact args v = (v\<lparr>pv_contacts := upsert keep args (pv_contacts v)\<rparr>, 1)"
| "pg_apply keep DeleteContact args v =
     (v\<lparr>pv_contacts := without 0 (hd args) (pv_contacts v)\<rparr>, removed 0 (hd args) (pv_contacts v))"
| "pg_apply keep InsertLog args v =
     (case insert_new keep args (pv_logs v) of (rows, n) \<Rightarrow> (v\<lparr>pv_logs := rows\<rparr>, n))"
| "pg_apply keep UpsertMetric args v = (v\<lparr>pv_counters := add_counter args (pv_counters v)\<rparr>, 1)"
| "pg_apply keep _ args v = (v, 0)"

section \<open>The contract\<close>

text \<open>
  Texts, numbers and truth values are kept as they are; an instant is kept at the resolution of
  \<^verbatim>\<open>TIMESTAMP WITH TIME ZONE\<close> (\<open>round\<close>); a payload's document is kept as one of the same value.
\<close>

definition payload_of :: "json \<Rightarrow> (string, json) go_map option" where
  "payload_of doc = map_option Payload (decode_map Payload_update doc zero_tracking_event)"

definition keep_ok :: "(sql_value \<Rightarrow> sql_value) \<Rightarrow> (time \<Rightarrow> time) \<Rightarrow> bool" where
  "keep_ok keep rnd \<longleftrightarrow>
     (\<forall>s. keep (SqlText s) = SqlText s) \<and> (\<forall>b. keep (SqlBool b) = SqlBool b) \<and> (\<forall>x. keep (SqlFloat x) = SqlFloat x) \<and>
     (\<forall>i. keep (SqlInt i) = SqlInt i) \<and> (\<forall>t. keep (SqlTime t) = SqlTime (rnd t)) \<and>
     (\<forall>m. go_payload m \<longrightarrow> (\<exists>doc m'. keep (SqlJson (Some (encode_payload m))) = SqlJson (Some doc) \<and>
        payload_of doc = Some m' \<and> encode_payload m' = encode_payload m))"

definition time_at :: "sql_value list \<Rightarrow> time" where
  "time_at r = (case r ! 6 of SqlTime t \<Rightarrow> t | _ \<Rightarrow> 0)"

text \<open>
  \<open>view d\<close> are the committed tables, \<open>tx d\<close> the tables as the open transaction sees them. A
  statement that succeeds has its effect. One that fails outside a transaction, and a commit
  that fails, may or may not have had its effect on the server.
\<close>

definition pg_contract ::
  "'d sql_db \<Rightarrow> (sql_value \<Rightarrow> sql_value) \<Rightarrow> ('d \<Rightarrow> pg_view) \<Rightarrow> ('d \<Rightarrow> pg_view) \<Rightarrow> bool" where
  "pg_contract db keep view tx \<longleftrightarrow>
     (\<forall>st args d res d'. db_exec db st args d = (res, d') \<longrightarrow>
        (case res of Inr n \<Rightarrow> (view d', n) = pg_apply keep st args (view d)
         | Inl err \<Rightarrow> view d' \<in> {view d, fst (pg_apply keep st args (view d))})) \<and>
     (\<forall>d res d'. db_begin db d = (res, d') \<longrightarrow> view d' = view d \<and> (res = None \<longrightarrow> tx d' = view d)) \<and>
     (\<forall>st args d res d'. tx_exec db st args d = (res, d') \<longrightarrow> view d' = view d \<and>
        (case res of Inr n \<Rightarrow> (tx d', n) = pg_apply keep st args (tx d) | Inl err \<Rightarrow> True)) \<and>
     (\<forall>d res d'. tx_commit db d = (res, d') \<longrightarrow> (if res = None then view d' = tx d else view d' \<in> {view d, tx d})) \<and>
     (\<forall>d. view (tx_rollback db d) = view d) \<and>
     (\<forall>u d rows. db_query db SelectEvents [SqlText u] d = Inr (rows, None) \<longrightarrow>
        mset rows = mset (filter (\<lambda>r. r ! 1 = SqlText u) (pv_events (view d))) \<and>
        sorted_wrt (\<lambda>r r'. time_at r' \<le> time_at r) rows)"

lemma pg_contractD:
  assumes "pg_contract db keep view tx"
  shows "db_exec db st args d = (Inr n, d') \<Longrightarrow> (view d', n) = pg_apply keep st args (view d)"
    and "db_begin db d = (res, d') \<Longrightarrow> view d' = view d"
    and "db_begin db d = (None, d') \<Longrightarrow> tx d' = view d"
    and "tx_exec db st args d = (res', d') \<Longrightarrow> view d' = view d"
    and "tx_exec db st args d = (Inr n, d') \<Longrightarrow> (tx d', n) = pg_apply keep st args (tx d)"
    and "tx_commit db d = (None, d') \<Longrightarrow> view d' = tx d"
    and "tx_commit db d = (Some err, d') \<Longrightarrow> view d' \<in> {view d, tx d}"
    and "view (tx_rollback db d) = view d"
    and "db_query db SelectEvents [SqlText u] d = Inr (rows, None) \<Longrightarrow>
      mset rows = mset (filter (\<lambda>r. r ! 1 = SqlText u) (pv_events (view d))) \<and> sorted_wrt (\<lambda>r r'. time_at r' \<le> time_at r) rows"
  using assms unfolding pg_contract_def by (fastforce simp del: pg_apply.simps)+

section \<open>The purge\<close>

text \<open>The tables after a purge: the rows of the user are gone from two of them.\<close>

definition pg_purged :: "string \<Rightarrow> pg_view \<Rightarrow> pg_view" where
  "pg_purged u v = v\<lparr>pv_events := without 1 (SqlText u) (pv_events v), pv_contacts := without 0 (SqlText u) (pv_contacts v)\<rparr>"

lemma pg_purge_cases:
  assumes c: "pg_contract db keep view tx" and del: "PgDeleteUserEvents db u d = (res, d')"
  shows "(view d' = view d \<or> view d' = pg_purged u (view d)) \<and>
    (\<forall>n. res = Inr n \<longrightarrow> view d' = pg_purged u (view d) \<and>
       n = wrap64 (removed 1 (SqlText u) (pv_events (view d)) + removed 0 (SqlText u) (pv_contacts (view d))))"
proof -
  obtain r1 d1 where b: "db_begin db d = (r1, d1)" by fastforce
  show ?thesis
  proof (cases r1)
    case (Some err)
    with b del pg_contractD(2) [OF c b] show ?thesis by (auto simp: PgDeleteUserEvents_def)
  next
    case None
    obtain r2 d2 where e: "tx_exec db DeleteEvents [SqlText u] d1 = (r2, d2)" by fastforce
    have v2: "view d2 = view d" using pg_contractD(2) [OF c b] pg_contractD(4) [OF c e] by simp
    show ?thesis
    proof (cases r2)
      case (Inl err)
      with b e None del v2 pg_contractD(8) [OF c] show ?thesis by (auto simp: PgDeleteUserEvents_def)
    next
      case (Inr n2)
      obtain r3 d3 where f: "tx_exec db DeleteContact [SqlText u] d2 = (r3, d3)" by fastforce
      have v3: "view d3 = view d" using v2 pg_contractD(4) [OF c f] by simp
      show ?thesis
      proof (cases r3)
        case (Inl err)
        with b e f None Inr del v3 pg_contractD(8) [OF c] show ?thesis by (auto simp: PgDeleteUserEvents_def)
      next
        case (Inr n3)
        have t3: "tx d3 = pg_purged u (view d)" "n2 = removed 1 (SqlText u) (pv_events (view d))"
          "n3 = removed 0 (SqlText u) (pv_contacts (view d))"
          using pg_contractD(3) [OF c b [unfolded None]] pg_contractD(5) [OF c e [unfolded \<open>r2 = Inr n2\<close>]]
            pg_contractD(5) [OF c f [unfolded Inr]] by (simp_all add: pg_purged_def)
        obtain r4 d4 where g: "tx_commit db d3 = (r4, d4)" by fastforce
        with b e f None \<open>r2 = Inr n2\<close> Inr del have "d' = d4" "res = (case r4 of None \<Rightarrow> Inr (wrap64 (n2 + n3)) | Some err \<Rightarrow> Inl err)"
          by (auto simp: PgDeleteUserEvents_def split: option.splits)
        with g t3 v3 pg_contractD(6,7) [OF c] show ?thesis by (cases r4) force+
      qed
    qed
  qed
qed

section \<open>Events\<close>

lemma read_rows_Inr:
  "read_rows scan rs acc = Inr xs \<Longrightarrow> \<exists>ys. xs = acc @ ys \<and> list_all2 (\<lambda>r x. scan r = Inr x) rs ys"
proof (induction rs arbitrary: acc)
  case (Cons r rs)
  then obtain x where x: "scan r = Inr x" "read_rows scan rs (acc @ [x]) = Inr xs" by (auto split: sum.splits)
  from Cons.IH [OF x(2)] obtain ys where "xs = (acc @ [x]) @ ys" "list_all2 (\<lambda>r x. scan r = Inr x) rs ys" by blast
  with x(1) show ?case by (intro exI [of _ "x # ys"]) simp
qed simp

lemma rows_result_Inr:
  "rows_result scan rows = Inr xs \<Longrightarrow> snd rows = None \<and> list_all2 (\<lambda>r x. scan r = Inr x) (fst rows) xs"
  using read_rows_Inr [of scan "fst rows" "[]"] by (auto simp: rows_result_def split: sum.splits option.splits)

text \<open>The event as the table gives it back.\<close>

definition stored_as :: "(time \<Rightarrow> time) \<Rightarrow> screened_event \<Rightarrow> screened_event \<Rightarrow> bool" where
  "stored_as rnd e e' \<longleftrightarrow>
     e' = e\<lparr>ScreenedAt := rnd (ScreenedAt e),
            Tracking := (Tracking e)\<lparr>Timestamp := rnd (Timestamp (Tracking e)), Payload := Payload (Tracking e')\<rparr>\<rparr> \<and>
     encode_payload (Payload (Tracking e')) = encode_payload (Payload (Tracking e))"

lemmas keep_simps = keep_ok_def scan_string_def as_string_def scan_time_def scan_bool_def scan_float_def scan_bytes_def

lemma decode_map_payload:
  assumes "payload_of doc = Some m" "Payload t = None"
  shows "decode_map Payload_update doc t = Some (t\<lparr>Payload := m\<rparr>)"
  using assms by (cases doc) (auto simp: payload_of_def zero_tracking_event_def)

lemma scan_stored_event:
  assumes "keep_ok keep rnd" "go_payload (Payload (Tracking e))"
  shows "\<exists>e'. scan_event sc (map keep (event_args e (encode_payload (Payload (Tracking e))))) = Inr e' \<and> stored_as rnd e e'"
proof -
  obtain doc m where j: "keep (SqlJson (Some (encode_payload (Payload (Tracking e))))) = SqlJson (Some doc)"
      "payload_of doc = Some m" "encode_payload m = encode_payload (Payload (Tracking e))"
    using assms unfolding keep_ok_def by blast
  note d = decode_map_payload [OF j(2)]
  from assms(1) show ?thesis
    by (simp add: scan_event_def scan_columns_def event_args_def keep_simps j d stored_as_def)
qed

lemma decode_map_Timestamp: "decode_map Payload_update doc t = Some t' \<Longrightarrow> Timestamp t' = Timestamp t"
  by (cases doc) auto

lemma scan_event_time:
  assumes "scan_event sc r = Inr e"
  shows "Timestamp (Tracking e) = time_at r"
proof -
  obtain c0 c1 c2 c3 c4 c5 c6 c7 c8 c9 c10 c11 where r: "r = [c0, c1, c2, c3, c4, c5, c6, c7, c8, c9, c10, c11]"
    using assms by (auto simp: scan_event_def scan_columns_def split: list.splits option.splits)
  obtain t where t: "scan_time c6 = Some t"
    using assms by (auto simp: r scan_event_def scan_columns_def split: option.splits bind_splits)
  then have "c6 = SqlTime t" by (auto simp: scan_time_def split: sql_value.splits)
  moreover have "Timestamp (Tracking e) = t"
    using assms t
    by (auto simp: r scan_event_def scan_columns_def split: option.splits bind_splits)
      (auto dest: decode_map_Timestamp)
  ultimately show ?thesis by (simp add: r time_at_def)
qed

lemma encode_members_sort:
  "sort_key fst (map (\<lambda>(k, v). (k, f v)) l) = map (\<lambda>(k, v). (k, f v)) (sort_key fst l)"
proof -
  have ins: "insort_key fst (k, f v) (map (\<lambda>(k, v). (k, f v)) l) = map (\<lambda>(k, v). (k, f v)) (insort_key fst (k, v) l)" for k v l
    by (induction l) auto
  show ?thesis by (induction l) (auto simp: ins)
qed

lemma encode_any_idem: "encode_any (encode_any v) = encode_any v"
proof (induction v)
  case (JObj kvs)
  let ?l = "map (\<lambda>(k, v). (k, encode_any v)) kvs"
  have "map (\<lambda>(k, v). (k, encode_any v)) (sort_key fst ?l) = sort_key fst (map (\<lambda>(k, v). (k, encode_any v)) ?l)"
    by (simp only: encode_members_sort)
  also have "map (\<lambda>(k, v). (k, encode_any v)) ?l = ?l"
    using JObj by (auto simp: snds.simps) 
  finally have "encode_members (sort_key fst ?l) = sort_key fst ?l" by (simp only: encode_members_map)
  moreover have "sort_key fst (sort_key fst ?l) = sort_key fst ?l" by (rule sort_key_id_if_sorted) simp
  ultimately show ?case by (simp only: encode_any.simps) (simp add: encode_members_map)
qed (auto simp: encode_all_map)

section \<open>Properties\<close>

text \<open>
  The purge over Postgres is all or nothing, whatever fails: the tables afterwards are either as
  they were or without every event and the contact of the user, never one without the other, and no
  other row is touched. When the purge reports success it has happened, and it reports the number of
  rows it deleted.
\<close>
theorem pg_purge_all_or_nothing:
  assumes "pg_contract db keep view tx" "PgDeleteUserEvents db u d = (res, d')"
  shows "(view d' = view d \<or> view d' = pg_purged u (view d)) \<and>
    (\<forall>n. res = Inr n \<longrightarrow> view d' = pg_purged u (view d) \<and>
       n = wrap64 (removed 1 (SqlText u) (pv_events (view d)) + removed 0 (SqlText u) (pv_contacts (view d))))"
  using assms by (rule pg_purge_cases)


section \<open>A database that keeps the contract\<close>

text \<open>Tables in memory, instants at microseconds, no faults; the second component is the open transaction.\<close>

definition micros :: "time \<Rightarrow> time" where
  "micros t = t div 1000 * 1000"

fun keep_micros :: "sql_value \<Rightarrow> sql_value" where
  "keep_micros (SqlTime t) = SqlTime (micros t)"
| "keep_micros v = v"

definition table_db :: "(pg_view \<times> pg_view) sql_db" where
  "table_db = \<lparr>
     db_exec = (\<lambda>st args d. case pg_apply keep_micros st args (fst d) of (v, n) \<Rightarrow> (Inr n, v, snd d)),
     db_query = (\<lambda>st args d. case st of
        SelectEvents \<Rightarrow> Inr (sort_key (\<lambda>r. - time_at r) (filter (\<lambda>r. r ! 1 = hd args) (pv_events (fst d))), None)
      | SelectContact \<Rightarrow> Inr (filter (\<lambda>r. hd r = hd args) (pv_contacts (fst d)), None)
      | SelectLogs \<Rightarrow> Inr (filter (\<lambda>r. r ! 1 = hd args) (pv_logs (fst d)), None)
      | _ \<Rightarrow> Inr (pv_counters (fst d), None)),
     db_begin = (\<lambda>d. (None, fst d, fst d)),
     tx_exec = (\<lambda>st args d. case pg_apply keep_micros st args (snd d) of (v, n) \<Rightarrow> (Inr n, fst d, v)),
     tx_commit = (\<lambda>d. (None, snd d, snd d)),
     tx_rollback = (\<lambda>d. (fst d, fst d))\<rparr>"

lemma table_db_contract: "pg_contract table_db keep_micros fst snd"
proof -
  have "sorted_wrt (\<lambda>r r'. time_at r' \<le> time_at r) (sort_key (\<lambda>r. - time_at r) rows)" for rows
    using sorted_sort_key [of "\<lambda>r. - time_at r" rows] by (simp add: sorted_map)
  then show ?thesis
    unfolding pg_contract_def table_db_def by (simp split: prod.splits)
qed

lemma keep_micros_ok: "keep_ok keep_micros micros"
proof -
  have "\<exists>m'. payload_of (encode_payload m) = Some m' \<and> encode_payload m' = encode_payload m" if "go_payload m" for m
  proof (intro exI conjI)
    show "payload_of (encode_payload m) = Some (canonical m)"
      using decode_encode_payload [OF that, of zero_tracking_event] by (simp add: payload_of_def zero_tracking_event_def)
    show "encode_payload (canonical m) = encode_payload m"
    proof (cases m)
      case (Some al)
      have "encode_any (encode_any (JObj al)) = encode_any (JObj al)" by (rule encode_any_idem)
      then show ?thesis by (simp add: Some encode_payload_def canonical_def)
    qed (simp add: encode_payload_def canonical_def)
  qed
  then show ?thesis by (simp add: keep_ok_def)
qed

definition empty_tables :: pg_view where
  "empty_tables = \<lparr>pv_events = [], pv_contacts = [], pv_logs = [], pv_counters = []\<rparr>"

definition plain_scan :: scan_env where
  "plain_scan = \<lparr>sq_text = (\<lambda>v. []), sq_parse_float = (\<lambda>s. None)\<rparr>"

definition pg_sample :: screened_event where
  "pg_sample = zero_screened_event\<lparr>Tracking := zero_tracking_event\<lparr>EventID := ''e1'', UserID := ''u1'',
     Payload := Some [(''b'', JNull), (''a'', JBool True)], Timestamp := 1234567\<rparr>\<rparr>"

theorem pg_purge_all_or_nothing_witness:
  "\<exists>d d'. PgSaveEvent table_db pg_sample (empty_tables, empty_tables) = (None, d) \<and> length (pv_events (fst d)) = 1 \<and>
     PgDeleteUserEvents table_db ''u1'' d = (Inr 1, d') \<and> pv_events (fst d') = []"
proof -
  obtain d where d: "PgSaveEvent table_db pg_sample (empty_tables, empty_tables) = (None, d)"
      "pv_events (fst d) = [map keep_micros (event_args pg_sample (encode_payload (Payload (Tracking pg_sample))))]"
      "pv_contacts (fst d) = []"
    by (simp add: PgSaveEvent_def MarshalPayload_def table_db_def empty_tables_def insert_new_def has_key_def)
  obtain res d' where del: "PgDeleteUserEvents table_db ''u1'' d = (res, d')"
    by (cases "PgDeleteUserEvents table_db ''u1'' d")
  then have "res = Inr 1"
    by (simp add: PgDeleteUserEvents_def table_db_def removed_def d(2,3) event_args_def pg_sample_def wrap64_def without_def)
  moreover have "pg_purged ''u1'' (fst d) = (fst d)\<lparr>pv_events := [], pv_contacts := []\<rparr>"
    by (simp add: pg_purged_def without_def d(2,3) event_args_def pg_sample_def)
  ultimately have "pv_events (fst d') = []"
    using pg_purge_all_or_nothing [OF table_db_contract del] by simp
  with \<open>res = Inr 1\<close> del d(1,2) show ?thesis by (intro exI conjI) simp_all
qed


end
