(* ===== verification/PostgresServices.thy ===== *)
theory PostgresServices
  imports PostgresContract Privacy
begin

text \<open>
  The services over Postgres: what the privacy handler of \<^verbatim>\<open>pkg/domain/marketing/handlers.go\<close> does to the
  tables, and what the counters of \<^verbatim>\<open>pkg/domain/analytics/postgres.go\<close> mean, also when statements fail.
\<close>

section \<open>The purge\<close>

definition pg_purge_handler ::
  "(string \<Rightarrow> string) \<Rightarrow> 'd sql_db \<Rightarrow> time \<Rightarrow> time \<Rightarrow> api_request \<Rightarrow> 'd \<Rightarrow> reply \<times> 'd" where
  "pg_purge_handler sha256 db =
     HandleGDPRDelete sha256 (PgDeleteUserEvents db) (PgDeleteCRMContact db) (PgSavePrivacyLog db)"

lemma pg_exec_cases:
  assumes "pg_contract db keep view tx"
  shows "view (snd (db_exec db st args d)) \<in> {view d, fst (pg_apply keep st args (view d))}"
proof (cases "db_exec db st args d")
  case (Pair res d')
  then have res: "case res of Inr n \<Rightarrow> (view d', n) = pg_apply keep st args (view d)
      | Inl err \<Rightarrow> view d' \<in> {view d, fst (pg_apply keep st args (view d))}"
    using assms unfolding pg_contract_def by blast
  show ?thesis
  proof (cases res)
    case (Inr n)
    from res have "(view d', n) = pg_apply keep st args (view d)" by (simp only: Inr sum.case)
    from arg_cong [OF this, of fst] show ?thesis by (simp only: Pair fst_conv snd_conv insert_iff simp_thms)
  next
    case (Inl err)
    from res show ?thesis by (simp only: Pair Inl sum.case snd_conv)
  qed
qed

lemma snd_of_exec:
  "snd (PgDeleteCRMContact db u d) = snd (db_exec db DeleteContact [SqlText u] d)"
  "snd (PgSavePrivacyLog db l d) = snd (db_exec db InsertLog (log_args l) d)"
  by (simp_all add: PgDeleteCRMContact_def PgSavePrivacyLog_def split: prod.splits sum.splits)

lemma without_without [simp]: "without i k (without i k rows) = without i k rows"
  by (simp add: without_def)

lemma pg_delete_contact_purged:
  assumes "pg_contract db keep view tx" "view d = pg_purged u v"
  shows "view (snd (PgDeleteCRMContact db u d)) = pg_purged u v"
  using pg_exec_cases [OF assms(1), of DeleteContact "[SqlText u]" d] assms(2)
  by (auto simp: snd_of_exec pg_purged_def)

lemma pg_save_log_cases:
  assumes "pg_contract db keep view tx"
  shows "\<exists>logs \<in> {pv_logs (view d), fst (insert_new keep (log_args l) (pv_logs (view d)))}.
    view (snd (PgSavePrivacyLog db l d)) = (view d)\<lparr>pv_logs := logs\<rparr>"
  using pg_exec_cases [OF assms, of InsertLog "log_args l" d]
  by (auto simp: snd_of_exec split: prod.splits)

text \<open>The reply does not tell whether the contact was deleted or the audit entry written.\<close>

lemma purge_reply_ignores_audit:
  assumes "\<And>u w. fst (deleteEvents u w) = fst (deleteEvents' u w)"
  shows "fst (HandleGDPRDelete sha256 deleteEvents deleteContact saveLog now1 now2 r w) =
    fst (HandleGDPRDelete sha256 deleteEvents' deleteContact' saveLog' now1 now2 r w)"
  using assms [of "case decode_body decode_user_id r of None \<Rightarrow> [] | Some u \<Rightarrow> u" w]
  by (auto simp: HandleGDPRDelete_def Let_def split: prod.splits sum.splits)

section \<open>The counters\<close>

text \<open>What is relied on of a reading: without an error, the rows are those of the table in some order.\<close>

definition pg_reads_counters :: "'d sql_db \<Rightarrow> ('d \<Rightarrow> pg_view) \<Rightarrow> bool" where
  "pg_reads_counters db view \<longleftrightarrow>
     (\<forall>d rows. db_query db SelectMetrics [] d = Inr (rows, None) \<longrightarrow> mset rows = mset (pv_counters (view d)))"

definition pg_increments :: "'d sql_db \<Rightarrow> (string \<times> int) list \<Rightarrow> 'd \<Rightarrow> 'd" where
  "pg_increments db ops d = fold (\<lambda>(name, delta) d. PgIncrementMetric db name delta d) ops d"

definition sum_under :: "string \<Rightarrow> (string \<times> int) list \<Rightarrow> int" where
  "sum_under name ops = sum_list (map snd (filter (\<lambda>(n, d). n = name) ops))"

lemma sum_under_snoc: "sum_under name (ops @ [(n, d)]) = sum_under name ops + (if n = name then d else 0)"
  by (simp add: sum_under_def)

lemma sum_under_absent: "name \<notin> fst ` set ops \<Longrightarrow> sum_under name ops = 0"
  by (induction ops) (auto simp: sum_under_def)

text \<open>The table after the increments \<open>ops\<close>: one row for every name, with the sum.\<close>

definition counts :: "(string \<times> int) list \<Rightarrow> sql_value list list \<Rightarrow> bool" where
  "counts ops rows \<longleftrightarrow> (\<exists>names. distinct names \<and> set names = fst ` set ops \<and>
     rows = map (\<lambda>n. [SqlText n, SqlInt (sum_under n ops)]) names)"

lemma counts_Nil: "counts [] []"
  by (simp add: counts_def)

lemma counts_add:
  assumes "counts ops rows"
  shows "counts (ops @ [(n, d)]) (add_counter [SqlText n, SqlInt d] rows)"
proof -
  obtain names where names: "distinct names" "set names = fst ` set ops"
      "rows = map (\<lambda>n. [SqlText n, SqlInt (sum_under n ops)]) names"
    using assms unfolding counts_def by blast
  have key: "has_key (SqlText n) rows \<longleftrightarrow> n \<in> set names"
    by (auto simp: has_key_def names(3))
  show ?thesis
  proof (cases "n \<in> set names")
    case True
    have "add_counter [SqlText n, SqlInt d] rows =
        map (\<lambda>m. [SqlText m, SqlInt (sum_under m (ops @ [(n, d)]))]) names"
      using True by (simp add: add_counter_def key) (simp add: names(3) sum_under_snoc)
    moreover have "set names = fst ` set (ops @ [(n, d)])" using True names(2) by auto
    ultimately show ?thesis using names(1) unfolding counts_def by blast
  next
    case False
    with names(2) have "sum_under n ops = 0" by (simp add: sum_under_absent)
    then have "add_counter [SqlText n, SqlInt d] rows =
        map (\<lambda>m. [SqlText m, SqlInt (sum_under m (ops @ [(n, d)]))]) (names @ [n])"
      using False by (simp add: add_counter_def key) (auto simp add: names(3) sum_under_snoc)
    moreover have "distinct (names @ [n])" "set (names @ [n]) = fst ` set (ops @ [(n, d)])"
      using False names by auto
    ultimately show ?thesis unfolding counts_def by blast
  qed
qed

lemma pg_increment_view:
  assumes "pg_contract db keep view tx"
  shows "view (PgIncrementMetric db n delta d) \<in>
    {view d, (view d)\<lparr>pv_counters := add_counter [SqlText n, SqlInt delta] (pv_counters (view d))\<rparr>}"
  using pg_exec_cases [OF assms, of UpsertMetric "[SqlText n, SqlInt delta]" d] by (simp add: PgIncrementMetric_def)

text \<open>The table counts a part of the increments, in order: those whose statement took effect.\<close>

lemma pg_increments_count:
  assumes "pg_contract db keep view tx" "pv_counters (view d) = []"
  shows "\<exists>ops'. subseq ops' ops \<and> counts ops' (pv_counters (view (pg_increments db ops d)))"
proof (induction ops rule: rev_induct)
  case Nil
  then show ?case using assms(2) counts_Nil by (auto simp: pg_increments_def)
next
  case (snoc op ops)
  obtain n delta where op: "op = (n, delta)" by (cases op)
  let ?d = "pg_increments db ops d"
  have step: "pg_increments db (ops @ [op]) d = PgIncrementMetric db n delta ?d"
    by (simp add: pg_increments_def op)
  from snoc.IH obtain ops' where ops': "subseq ops' ops" "counts ops' (pv_counters (view ?d))" by blast
  from pg_increment_view [OF assms(1), of n delta ?d] show ?case
  proof (elim insertE emptyE)
    assume "view (PgIncrementMetric db n delta ?d) = view ?d"
    with ops' show ?thesis by (auto simp: step intro: subseq_order.trans)
  next
    assume "view (PgIncrementMetric db n delta ?d) =
      (view ?d)\<lparr>pv_counters := add_counter [SqlText n, SqlInt delta] (pv_counters (view ?d))\<rparr>"
    with counts_add [OF ops'(2), of n delta] ops'(1) show ?thesis
      by (intro exI [of _ "ops' @ [op]"]) (simp add: step [unfolded op] op)
  qed
qed

text \<open>Without a failing statement it counts all of them.\<close>

lemma pg_increments_count_all:
  assumes "pg_contract db keep view tx" "pv_counters (view d) = []"
    and "\<forall>st args d'. \<exists>n d''. db_exec db st args d' = (Inr n, d'')"
  shows "counts ops (pv_counters (view (pg_increments db ops d)))"
proof (induction ops rule: rev_induct)
  case Nil
  then show ?case using assms(2) counts_Nil by (simp add: pg_increments_def)
next
  case (snoc op ops)
  obtain n delta where op: "op = (n, delta)" by (cases op)
  let ?d = "pg_increments db ops d"
  obtain k d'' where ex: "db_exec db UpsertMetric [SqlText n, SqlInt delta] ?d = (Inr k, d'')" using assms(3) by blast
  with pg_contractD(1) [OF assms(1) ex] counts_add [OF snoc.IH, of n delta] show ?case
    by (simp add: pg_increments_def op PgIncrementMetric_def)
qed

lemma metric_set_metric:
  "name \<in> set metric_names \<Longrightarrow> metric name (set_metric n v m) = (if n = name then v else metric name m)"
  by (auto simp: metric_names_def metric_def set_metric_def)

lemma metric_zero [simp]: "metric name zero_metrics = 0"
  by (simp add: metric_def zero_metrics_def)

lemma metric_fold_read:
  assumes "name \<in> set metric_names" "distinct names"
  shows "metric name (fold (read_metric sc) (map (\<lambda>n. [SqlText n, SqlInt (f n)]) names) m) =
    (if name \<in> set names then f name else metric name m)"
  using assms(2)
proof (induction names arbitrary: m)
  case (Cons n names)
  have "read_metric sc [SqlText n, SqlInt (f n)] m = set_metric n (f n) m"
    by (simp add: read_metric_def scan_string_def as_string_def scan_int64_def)
  with Cons show ?case by (auto simp: metric_set_metric [OF assms(1)])
qed simp

lemma metric_read_counts:
  assumes "name \<in> set metric_names" "counts ops table" "mset rows = mset table"
  shows "metric name (fold (read_metric sc) rows zero_metrics) = sum_under name ops"
proof -
  let ?row = "\<lambda>n. [SqlText n, SqlInt (sum_under n ops)]"
  obtain names where names: "distinct names" "set names = fst ` set ops" "table = map ?row names"
    using assms(2) unfolding counts_def by blast
  have "set rows = set table" using assms(3) by (rule mset_eq_setD)
  then have "map (\<lambda>r. ?row (case hd r of SqlText n \<Rightarrow> n | _ \<Rightarrow> [])) rows = rows"
    unfolding names(3) by (intro map_idI) auto
  then have rows: "rows = map ?row (map (\<lambda>r. case hd r of SqlText n \<Rightarrow> n | _ \<Rightarrow> []) rows)" (is "_ = map _ ?ns")
    by (simp add: comp_def)
  have ns: "mset ?ns = mset names"
    using arg_cong [OF assms(3), of "image_mset (\<lambda>r. case hd r of SqlText n \<Rightarrow> n | _ \<Rightarrow> [])"]
    by (simp add: names(3) image_mset.compositionality comp_def)
  then have "distinct ?ns" "set ?ns = set names"
    using names(1) mset_eq_imp_distinct_iff mset_eq_setD by blast+
  then show ?thesis
    using metric_fold_read [OF assms(1), of ?ns sc "\<lambda>n. sum_under n ops" zero_metrics] rows names(2)
      sum_under_absent [of name ops] by auto
qed

lemma metric_PgGetMetrics:
  assumes "db_query db SelectMetrics [] d = Inr rows"
  shows "metric name (PgGetMetrics db sc startTime now d) = metric name (fold (read_metric sc) (fst rows) zero_metrics)"
  using assms by (simp add: PgGetMetrics_def Let_def metric_def)

lemma system_metrics_eqI:
  assumes "\<And>name. name \<in> set metric_names \<Longrightarrow> metric name m = metric name m'" "EventsPerSecond m = EventsPerSecond m'"
  shows "m = m'"
  using assms(1) [of "''total_received''"] assms(1) [of "''legitimate''"] assms(1) [of "''fraudulent''"]
    assms(1) [of "''crm_attempts''"] assms(1) [of "''crm_successes''"] assms(1) [of "''crm_failures''"] assms(2)
  by (cases m; cases m') (simp add: metric_names_def metric_def)

section \<open>Properties\<close>

text \<open>
  A purge over Postgres that answers 200 has deleted every event and the contact of the user and
  no other row; the audit entry is in the log unless writing it failed, which the answer does not
  show. A request that is answered otherwise has changed nothing, or its commit took effect although
  it was reported as failed, in which case the user's rows are gone all the same.
\<close>
theorem pg_purge_answers:
  assumes c: "pg_contract db keep view tx"
    and h: "pg_purge_handler sha256 db now1 now2 r d = (rep, d')"
  shows "(re_status rep = StatusOK \<longrightarrow> (\<exists>u l. purge_request u r \<and>
      pl_UserID l = hashIdentifier sha256 u service_salt \<and> pl_Action l = ''GDPR_PURGE'' \<and>
      view d' \<in> {pg_purged u (view d),
        (pg_purged u (view d))\<lparr>pv_logs := fst (insert_new keep (log_args l) (pv_logs (view d)))\<rparr>})) \<and>
    (re_status rep \<noteq> StatusOK \<longrightarrow> view d' = view d \<or> (\<exists>u. view d' = pg_purged u (view d)))"
proof (cases "re_status rep = StatusOK")
  case True
  let ?l = "\<lambda>u. \<lparr>pl_LogID = ''purge-'' @ show_int (UnixNano now1),
    pl_UserID = hashIdentifier sha256 u service_salt, pl_Action = ''GDPR_PURGE'', pl_Timestamp = now2\<rparr>"
  obtain u n w1 where u: "purge_request u r" and del: "PgDeleteUserEvents db u d = (Inr n, w1)"
    and d': "d' = snd (PgSavePrivacyLog db (?l u) (snd (PgDeleteCRMContact db u w1)))"
    using HandleGDPRDelete_ok [OF h [unfolded pg_purge_handler_def] True] by blast
  have "view w1 = pg_purged u (view d)" using pg_purge_cases [OF c del] by simp
  from pg_delete_contact_purged [OF c this]
  have v: "view (snd (PgDeleteCRMContact db u w1)) = pg_purged u (view d)" .
  from pg_save_log_cases [OF c, of "snd (PgDeleteCRMContact db u w1)" "?l u"]
  have "view d' \<in> {pg_purged u (view d),
      (pg_purged u (view d))\<lparr>pv_logs := fst (insert_new keep (log_args (?l u)) (pv_logs (view d)))\<rparr>}"
    unfolding d' v by (auto simp: pg_purged_def)
  moreover have "pl_UserID (?l u) = hashIdentifier sha256 u service_salt" "pl_Action (?l u) = ''GDPR_PURGE''" by simp_all
  ultimately have "\<exists>u l. purge_request u r \<and> pl_UserID l = hashIdentifier sha256 u service_salt \<and>
      pl_Action l = ''GDPR_PURGE'' \<and> view d' \<in> {pg_purged u (view d),
        (pg_purged u (view d))\<lparr>pv_logs := fst (insert_new keep (log_args l) (pv_logs (view d)))\<rparr>}"
    using u by (intro exI conjI)
  with True show ?thesis by simp
next
  case False
  let ?u = "case decode_body decode_user_id r of None \<Rightarrow> [] | Some u \<Rightarrow> u"
  obtain res w1 where del: "PgDeleteUserEvents db ?u d = (res, w1)" by (cases "PgDeleteUserEvents db ?u d")
  have "d' = d \<or> d' = w1"
    using h False del unfolding pg_purge_handler_def HandleGDPRDelete_def Let_def
    by (cases res) (auto split: if_splits)
  with pg_purge_cases [OF c del] False show ?thesis by auto
qed

text \<open>
  The counters over Postgres tell the increments whose statement took effect: after any increments on
  empty counters, some of which may have failed and been dropped, there is a part of them, in their
  order, whose sums every reading without an error shows. When no statement fails and no sum leaves
  int64, the metrics are those of the memory tracker after the same increments, rate included.
\<close>
theorem pg_counters_tell_increments:
  assumes c: "pg_contract db keep view tx" "pg_reads_counters db view" "pv_counters (view d) = []"
    and q: "db_query db SelectMetrics [] (pg_increments db ops d) = Inr (rows, None)"
  shows "(\<exists>ops'. subseq ops' ops \<and> (\<forall>name \<in> set metric_names.
      metric name (PgGetMetrics db sc start now (pg_increments db ops d)) = sum_under name ops')) \<and>
    ((\<forall>st args d'. \<exists>n d''. db_exec db st args d' = (Inr n, d'')) \<and> (\<forall>name. is_int64 (sum_under name ops)) \<longrightarrow>
      PgGetMetrics db sc start now (pg_increments db ops d) =
        GetMetrics now (fold (\<lambda>(n, d). IncrementMetric n d) ops (NewMemoryTelemetryTracker start)))"
proof (intro conjI impI)
  let ?d = "pg_increments db ops d" and ?m = "PgGetMetrics db sc start now (pg_increments db ops d)"
  have rows: "mset rows = mset (pv_counters (view ?d))" using c(2) q unfolding pg_reads_counters_def by blast
  have metric: "metric name ?m = sum_under name ops'"
    if "name \<in> set metric_names" "counts ops' (pv_counters (view ?d))" for name ops'
    using metric_read_counts [OF that rows] by (simp add: metric_PgGetMetrics [OF q])
  show "\<exists>ops'. subseq ops' ops \<and> (\<forall>name \<in> set metric_names. metric name ?m = sum_under name ops')"
    using pg_increments_count [OF c(1,3), of ops] metric by blast
  assume ok: "(\<forall>st args d'. \<exists>n d''. db_exec db st args d' = (Inr n, d'')) \<and> (\<forall>name. is_int64 (sum_under name ops))"
  let ?t = "fold (\<lambda>(n, d). IncrementMetric n d) ops (NewMemoryTelemetryTracker start)"
  have eq: "metric name ?m = metric name (GetMetrics now ?t)" if n: "name \<in> set metric_names" for name
  proof -
    have "metric name (GetMetrics now ?t) = wrap64 (sum_under name ops)"
      using memory_telemetry.increments_total [OF n, of "NewMemoryTelemetryTracker start" ops]
      by (simp add: counter_GetMetrics memory_telemetry.increments_def memory_telemetry.total_def is_int64_def
          int64_min_def int64_max_def sum_under_def)
    with metric [OF n pg_increments_count_all [OF c(1,3)]] ok show ?thesis by (simp add: wrap64_id)
  qed
  have start: "mt_startTime ?t = start"
    by (induction ops rule: rev_induct) (auto simp: NewMemoryTelemetryTracker_def IncrementMetric_def)
  have "TotalEventsReceived ?m = TotalEventsReceived (GetMetrics now ?t)"
    using eq [of "''total_received''"] by (simp add: metric_def metric_names_def)
  then have "EventsPerSecond ?m = EventsPerSecond (GetMetrics now ?t)"
    using q start by (simp add: PgGetMetrics_def GetMetrics_def Let_def)
  with eq show "?m = GetMetrics now ?t" by (rule system_metrics_eqI)
qed

section \<open>Witnesses\<close>

definition pg_ops :: "(string \<times> int) list" where
  "pg_ops = [(''legitimate'', 2), (''crm_failures'', 1), (''legitimate'', 3)]"

theorem pg_counters_tell_increments_witness:
  "PgGetMetrics table_db plain_scan 0 5 (pg_increments table_db pg_ops (empty_tables, empty_tables)) =
     GetMetrics 5 (fold (\<lambda>(n, d). IncrementMetric n d) pg_ops (NewMemoryTelemetryTracker 0))"
proof -
  let ?d = "pg_increments table_db pg_ops (empty_tables, empty_tables)"
  have q: "db_query table_db SelectMetrics [] ?d = Inr (pv_counters (fst ?d), None)" by (simp add: table_db_def)
  have r: "pg_reads_counters table_db fst" by (simp add: pg_reads_counters_def table_db_def)
  have e: "pv_counters (fst (empty_tables, empty_tables)) = []" by (simp add: empty_tables_def)
  have "db_exec table_db st args d = (Inr (snd (pg_apply keep_micros st args (fst d))), fst (pg_apply keep_micros st args (fst d)), snd d)"
    for st args d
    by (simp only: table_db_def sql_db.simps split: prod.split) simp
  then have "\<forall>st args d. \<exists>n d'. db_exec table_db st args d = (Inr n, d')" by blast
  moreover have "is_int64 (sum_under name pg_ops)" for name
    by (simp add: sum_under_def pg_ops_def is_int64_def int64_min_def int64_max_def)
  ultimately show ?thesis
    using pg_counters_tell_increments [OF table_db_contract r e q] by blast
qed

definition pg_request :: api_request where
  "pg_request = \<lparr>ar_method = ''POST'', ar_query = [], ar_body = Some (JObj [(''user_id'', JStr ''u1'')])\<rparr>"

lemma pg_request_user: "purge_request u pg_request \<longleftrightarrow> u = ''u1''"
  by (auto simp: purge_request_def pg_request_def decode_body_def decode_user_id_def find_field_def)

lemma table_db_purge: "\<exists>n d'. PgDeleteUserEvents table_db u d = (Inr n, d')"
  by (simp add: PgDeleteUserEvents_def table_db_def)

theorem pg_purge_answers_witness:
  "\<exists>d rep d'. PgSaveEvent table_db pg_sample (empty_tables, empty_tables) = (None, d) \<and> length (pv_events (fst d)) = 1 \<and>
     pg_purge_handler id table_db 7 8 pg_request d = (rep, d') \<and> re_status rep = StatusOK \<and> pv_events (fst d') = []"
proof -
  obtain d where d: "PgSaveEvent table_db pg_sample (empty_tables, empty_tables) = (None, d)"
      "pv_events (fst d) = [map keep_micros (event_args pg_sample (encode_payload (Payload (Tracking pg_sample))))]"
    by (simp add: PgSaveEvent_def MarshalPayload_def table_db_def empty_tables_def insert_new_def has_key_def)
  obtain rep d' where h: "pg_purge_handler id table_db 7 8 pg_request d = (rep, d')"
    by (cases "pg_purge_handler id table_db 7 8 pg_request d")
  obtain n w1 where "PgDeleteUserEvents table_db ''u1'' d = (Inr n, w1)" using table_db_purge by blast
  with h have ok: "re_status rep = StatusOK"
    by (auto simp: pg_purge_handler_def HandleGDPRDelete_def pg_request_def decode_body_def decode_user_id_def find_field_def Let_def)
  with pg_purge_answers [OF table_db_contract h] obtain l where
    "fst d' \<in> {pg_purged ''u1'' (fst d), (pg_purged ''u1'' (fst d))\<lparr>pv_logs := fst (insert_new keep_micros (log_args l) (pv_logs (fst d)))\<rparr>}"
    by (auto simp: pg_request_user)
  then have "pv_events (fst d') = without 1 (SqlText ''u1'') (pv_events (fst d))" by (auto simp: pg_purged_def)
  also have "\<dots> = []" by (simp add: without_def d(2) event_args_def pg_sample_def)
  finally have "pv_events (fst d') = []" .
  with d h ok show ?thesis by (intro exI conjI) simp_all
qed

end
