(* ===== verification/PostgresMonolith.thy ===== *)
theory PostgresMonolith
  imports PostgresServices SystemValues
begin

text \<open>
  \<^verbatim>\<open>cmd/monolith/main.go\<close> with a database: the wiring of the handlers and the workers to the Postgres
  repositories, and the steps of that program. Its broker, rules and breaker take the same steps as those
  of the memory configuration, whatever the database answers.
\<close>

section \<open>The state and the wiring\<close>

text \<open>The repositories and the tracker share the connection pool, whose state is \<open>pw_db\<close>.\<close>

record 'd pg_world =
  pw_broker :: in_memory_broker
  pw_db :: 'd
  pw_adapter :: http_crm_adapter

definition NewPgMonolith :: "config \<Rightarrow> 'd \<Rightarrow> rule_state \<times> 'd pg_world" where
  "NewPgMonolith cfg d =
     (NewRuleState,
      \<lparr>pw_broker = NewInMemoryBroker broker_buffer, pw_db = d,
       pw_adapter = NewHTTPCRMAdapter (CRMURL cfg)
         (NewResilientClient (250 * Millisecond) 3 (5 * Second) 2 (20 * Millisecond) True)\<rparr>)"

text \<open>An operation of a component, on the program's state.\<close>

definition on_db :: "('d \<Rightarrow> 'r \<times> 'd) \<Rightarrow> 'd pg_world \<Rightarrow> 'r \<times> 'd pg_world" where
  "on_db f w = (case f (pw_db w) of (r, d) \<Rightarrow> (r, w\<lparr>pw_db := d\<rparr>))"

definition p_increment :: "'d sql_db \<Rightarrow> string \<Rightarrow> int \<Rightarrow> 'd pg_world \<Rightarrow> 'd pg_world" where
  "p_increment db name delta w = w\<lparr>pw_db := PgIncrementMetric db name delta (pw_db w)\<rparr>"

definition p_publish_raw :: "(nat \<Rightarrow> select_env) \<Rightarrow> tracking_event \<Rightarrow> 'd pg_world \<Rightarrow> (go_error option \<times> 'd pg_world) outcome" where
  "p_publish_raw env e w =
     (case PublishRaw env e (pw_broker w) of Ret (r, b) \<Rightarrow> Ret (r, w\<lparr>pw_broker := b\<rparr>) | Panic m \<Rightarrow> Panic m)"

definition p_publish_screened :: "(nat \<Rightarrow> select_env) \<Rightarrow> screened_event \<Rightarrow> 'd pg_world \<Rightarrow> (go_error option \<times> 'd pg_world) outcome" where
  "p_publish_screened env e w =
     (case PublishScreened env e (pw_broker w) of Ret (r, b) \<Rightarrow> Ret (r, w\<lparr>pw_broker := b\<rparr>) | Panic m \<Rightarrow> Panic m)"

definition p_sync :: "crm_env \<Rightarrow> time \<Rightarrow> (nat \<Rightarrow> attempt_env) \<Rightarrow> crm_contact \<Rightarrow> 'd pg_world \<Rightarrow> (go_error option \<times> 'd pg_world) outcome" where
  "p_sync ce now env c w =
     (case SyncContact ce now env c (pw_adapter w) of Ret (r, h) \<Rightarrow> Ret (r, w\<lparr>pw_adapter := h\<rparr>) | Panic m \<Rightarrow> Panic m)"

definition pg_ingest :: "'d sql_db \<Rightarrow> (nat \<Rightarrow> select_env) \<Rightarrow> time \<Rightarrow> api_request \<Rightarrow> 'd pg_world \<Rightarrow> (reply \<times> 'd pg_world) outcome" where
  "pg_ingest db env now = HandleIngest (p_publish_raw env) (p_increment db) now"

definition pg_screen :: "'d sql_db \<Rightarrow> (nat \<Rightarrow> select_env) \<Rightarrow> (nat \<Rightarrow> time) \<Rightarrow> tracking_event \<Rightarrow>
    rule_state \<times> 'd pg_world \<Rightarrow> (rule_state \<times> 'd pg_world) outcome" where
  "pg_screen db env clock =
     ScreenEvent (\<lambda>e. on_db (PgSaveEvent db e)) (p_increment db) (p_publish_screened env) DefaultRules clock"

definition pg_workflow :: "'d sql_db \<Rightarrow> crm_env \<Rightarrow> time \<Rightarrow> (nat \<Rightarrow> attempt_env) \<Rightarrow> time \<Rightarrow> screened_event \<Rightarrow>
    'd pg_world \<Rightarrow> 'd pg_world outcome" where
  "pg_workflow db ce now env =
     ProcessMarketingWorkflow (p_increment db) (p_sync ce now env) (\<lambda>c. on_db (PgSaveCRMContact db c))"

definition pg_purge :: "(string \<Rightarrow> string) \<Rightarrow> 'd sql_db \<Rightarrow> time \<Rightarrow> time \<Rightarrow> api_request \<Rightarrow> 'd pg_world \<Rightarrow> reply \<times> 'd pg_world" where
  "pg_purge sha256 db now1 now2 r = on_db (pg_purge_handler sha256 db now1 now2 r)"

definition pg_export :: "(time \<Rightarrow> string) \<Rightarrow> 'd sql_db \<Rightarrow> scan_env \<Rightarrow> time \<Rightarrow> api_request \<Rightarrow> 'd pg_world \<Rightarrow> reply" where
  "pg_export show_time db sc now r w =
     HandleCCPAExport show_time (PgGetEventsByUserID db sc) (PgGetCRMContact db sc) now r (pw_db w)"

definition pg_metrics :: "'d sql_db \<Rightarrow> scan_env \<Rightarrow> time \<Rightarrow> time \<Rightarrow> api_request \<Rightarrow> 'd pg_world \<Rightarrow> reply" where
  "pg_metrics db sc startTime now r w = HandleMetrics (PgGetMetrics db sc startTime now (pw_db w)) r"

lemmas pg_wiring = on_db_def p_increment_def p_publish_raw_def p_publish_screened_def p_sync_def

section \<open>The steps\<close>

inductive pg_step :: "'d sql_db \<Rightarrow> scan_env \<Rightarrow> rule_state \<times> 'd pg_world \<Rightarrow> system_op \<Rightarrow> rule_state \<times> 'd pg_world \<Rightarrow> bool"
  for db sc where
  pg_ingest_step: "pg_ingest db env now r w = Ret (rep, w') \<Longrightarrow> pg_step db sc (st, w) (SysIngest r rep) (st, w')"
| pg_fraud_subscribe: "SubscribeRaw (pw_broker w) = (s, b) \<Longrightarrow>
    pg_step db sc (st, w) (SysFraudSubscribe s) (st, w\<lparr>pw_broker := b\<rparr>)"
| pg_marketing_subscribe: "SubscribeScreened (pw_broker w) = (s, b) \<Longrightarrow>
    pg_step db sc (st, w) (SysMarketingSubscribe s) (st, w\<lparr>pw_broker := b\<rparr>)"
| pg_screen_step: "ch < length (rawSubs (pw_broker w)) \<Longrightarrow> RecvRaw ch (pw_broker w) = (Received e, b) \<Longrightarrow>
    pg_screen db env clock e (st, w\<lparr>pw_broker := b\<rparr>) = Ret (st', w') \<Longrightarrow>
    pg_step db sc (st, w) (SysScreen ch e) (st', w')"
| pg_skip_step: "ch < length (screenedSubs (pw_broker w)) \<Longrightarrow> RecvScreened ch (pw_broker w) = (Received se, b) \<Longrightarrow>
    IsFraudulent se \<Longrightarrow> pg_step db sc (st, w) (SysWorkflow ch se) (st, w\<lparr>pw_broker := b\<rparr>)"
| pg_workflow_step: "ch < length (screenedSubs (pw_broker w)) \<Longrightarrow> RecvScreened ch (pw_broker w) = (Received se, b) \<Longrightarrow>
    \<not> IsFraudulent se \<Longrightarrow> pg_workflow db ce now aenv now' se (w\<lparr>pw_broker := b\<rparr>) = Ret w' \<Longrightarrow>
    pg_step db sc (st, w) (SysWorkflow ch se) (st, w')"
| pg_purge_step: "pg_purge sha256 db now1 now2 r w = (rep, w') \<Longrightarrow> pg_step db sc (st, w) (SysPurge r rep) (st, w')"
| pg_export_step: "pg_step db sc (st, w) (SysExport r (pg_export show_time db sc now r w)) (st, w)"
| pg_metrics_step: "pg_step db sc (st, w) (SysMetrics r (pg_metrics db sc startTime now r w)) (st, w)"
| pg_close: "Close (pw_broker w) = Ret (None, b) \<Longrightarrow> pg_step db sc (st, w) SysClose (st, w\<lparr>pw_broker := b\<rparr>)"

section \<open>The database does not decide\<close>

text \<open>What the two configurations have in common.\<close>

definition same_core :: "'d pg_world \<Rightarrow> world \<Rightarrow> bool" where
  "same_core w v \<longleftrightarrow> pw_broker w = wd_broker v \<and> pw_adapter w = wd_adapter v"

text \<open>The operations whose answer does not come from the database.\<close>

fun core_op :: "system_op \<Rightarrow> bool" where
  "core_op (SysPurge r rep) = False"
| "core_op (SysExport r rep) = False"
| "core_op (SysMetrics r rep) = False"
| "core_op _ = True"

lemma on_db_frame [simp]: "pw_broker (snd (on_db f w)) = pw_broker w" "pw_adapter (snd (on_db f w)) = pw_adapter w"
  by (simp_all add: on_db_def split_beta)

lemma ingest_core:
  assumes "same_core w v" "pg_ingest db env now r w = Ret (rep, w')"
  shows "\<exists>v'. sys_ingest env now r v = Ret (rep, v') \<and> same_core w' v'"
proof (cases "admitted now r")
  case None
  with assms show ?thesis
    by (auto simp: pg_ingest_def sys_ingest_def HandleIngest_def admitted_def Let_def pg_wiring wiring same_core_def
        split: option.splits if_splits)
next
  case (Some e)
  with assms show ?thesis
    by (auto simp: pg_ingest_def sys_ingest_def HandleIngest_admitted pg_wiring wiring same_core_def
        split: outcome.splits option.splits)
qed

lemma on_db_eq: "on_db f w = (fst (f (pw_db w)), w\<lparr>pw_db := snd (f (pw_db w))\<rparr>)"
  by (simp add: on_db_def split_beta)

lemma pg_screen_cases:
  assumes "pg_screen db env clock e (st, w) = Ret (st', w')"
  obtains se rr b where "screen DefaultRules clock e st = (se, st')" "Tracking se = e"
    "PublishScreened env se (pw_broker w) = Ret (rr, b)"
    "w' = w\<lparr>pw_db := PgIncrementMetric db (verdict_metric se) 1 (snd (PgSaveEvent db se (pw_db w))), pw_broker := b\<rparr>"
proof -
  obtain se st1 where sc: "screen DefaultRules clock e st = (se, st1)" by fastforce
  have "Tracking se = e" using sc by (auto simp: screen_default Let_def)
  moreover obtain rr b where "PublishScreened env se (pw_broker w) = Ret (rr, b)" "st' = st1"
    "w' = w\<lparr>pw_db := PgIncrementMetric db (verdict_metric se) 1 (snd (PgSaveEvent db se (pw_db w))), pw_broker := b\<rparr>"
    using assms sc
    by (auto simp: pg_screen_def ScreenEvent_def pg_wiring verdict_metric_def Let_def split_beta split: outcome.splits)
  ultimately show thesis using sc that by blast
qed

lemma pg_workflow_cases:
  assumes "pg_workflow db ce now env now' se w = Ret w'"
  obtains (no_workflow) "w' = w" "workflow_of (EventType (Tracking se)) = None"
  | (workflow) wf c h r where "workflow_of (EventType (Tracking se)) = Some wf"
      "SyncContact ce now env (new_contact now' wf (Tracking se)) (pw_adapter w) = Ret (r, h)"
      "w' = w\<lparr>pw_adapter := h, pw_db := snd (PgSaveCRMContact db c
         (PgIncrementMetric db (if r = None then ''crm_successes'' else ''crm_failures'') 1
           (PgIncrementMetric db ''crm_attempts'' 1 (pw_db w))))\<rparr>"
proof (cases "workflow_of (EventType (Tracking se))")
  case None
  with assms show thesis by (intro no_workflow) (auto simp: pg_workflow_def ProcessMarketingWorkflow_def)
next
  case (Some wf)
  let ?c = "new_contact now' wf (Tracking se)"
  obtain r h where s: "SyncContact ce now env ?c (pw_adapter w) = Ret (r, h)"
    using assms Some
    by (auto simp: pg_workflow_def ProcessMarketingWorkflow_def pg_wiring Let_def split: outcome.splits)
  show thesis
    using assms Some s
    by (intro workflow [OF Some s, of "?c\<lparr>cc_SyncStatus := (if r = None then ''synced'' else ''failed'')\<rparr>"])
      (cases r; auto simp: pg_workflow_def ProcessMarketingWorkflow_def pg_wiring Let_def split_beta)
qed

lemma screen_core:
  assumes "same_core w v" "pg_screen db env clock e (st, w) = Ret (st', w')"
  shows "\<exists>v'. sys_screen env clock e (st, v) = Ret (st', v') \<and> same_core w' v'"
  using assms(2)
proof (rule pg_screen_cases)
  fix se rr b
  assume "screen DefaultRules clock e st = (se, st')" "PublishScreened env se (pw_broker w) = Ret (rr, b)"
    "w' = w\<lparr>pw_db := PgIncrementMetric db (verdict_metric se) 1 (snd (PgSaveEvent db se (pw_db w))), pw_broker := b\<rparr>"
  with assms(1) show ?thesis
    by (simp add: same_core_def sys_screen_def ScreenEvent_def wiring split_beta Let_def)
qed

lemma workflow_core:
  assumes "same_core w v" "pg_workflow db ce now env now' se w = Ret w'"
  shows "\<exists>v'. sys_workflow ce now env now' se v = Ret v' \<and> same_core w' v'"
  using assms(2)
proof (cases rule: pg_workflow_cases)
  case no_workflow
  with assms(1) show ?thesis by (simp add: sys_workflow_def ProcessMarketingWorkflow_def)
next
  case (workflow wf c h r)
  with assms(1) show ?thesis
    by (cases r) (simp_all add: same_core_def sys_workflow_def ProcessMarketingWorkflow_def wiring split_beta Let_def)
qed

lemma core_step:
  assumes "pg_step db sc (st, w) op (st', w')" "same_core w v"
  shows "if core_op op then \<exists>v'. sys_step (st, v) op (st', v') \<and> same_core w' v' else st' = st \<and> same_core w' v"
  using assms
proof (cases rule: pg_step.cases)
  case (pg_ingest_step env now r rep)
  with ingest_core [OF assms(2)] show ?thesis by (fastforce intro: sys_step.intros)
next
  case (pg_fraud_subscribe s b)
  with assms(2) show ?thesis
    by (auto simp: same_core_def wiring intro!: exI [of _ "v\<lparr>wd_broker := b\<rparr>"] sys_step.sys_fraud_subscribe)
next
  case (pg_marketing_subscribe s b)
  with assms(2) show ?thesis
    by (auto simp: same_core_def wiring intro!: exI [of _ "v\<lparr>wd_broker := b\<rparr>"] sys_step.sys_marketing_subscribe)
next
  case (pg_screen_step ch e b env clock)
  have "same_core (w\<lparr>pw_broker := b\<rparr>) (v\<lparr>wd_broker := b\<rparr>)" using assms(2) by (simp add: same_core_def)
  from screen_core [OF this pg_screen_step(4)] obtain v' where
    v': "sys_screen env clock e (st, v\<lparr>wd_broker := b\<rparr>) = Ret (st', v')" "same_core w' v'" by blast
  have "sys_step (st, v) (SysScreen ch e) (st', v')"
    using pg_screen_step(2,3) assms(2) v'(1)
    by (intro sys_step.sys_screen_step [of ch v e "v\<lparr>wd_broker := b\<rparr>" env clock]) (simp_all add: same_core_def wiring)
  with v'(2) pg_screen_step(1) show ?thesis by auto
next
  case (pg_skip_step ch se b)
  have "sys_step (st, v) (SysWorkflow ch se) (st, v\<lparr>wd_broker := b\<rparr>)"
    using pg_skip_step assms(2) by (intro sys_step.sys_skip_step) (simp_all add: same_core_def wiring)
  with pg_skip_step assms(2) show ?thesis by (auto simp: same_core_def)
next
  case (pg_workflow_step ch se b ce now aenv now')
  have "same_core (w\<lparr>pw_broker := b\<rparr>) (v\<lparr>wd_broker := b\<rparr>)" using assms(2) by (simp add: same_core_def)
  from workflow_core [OF this pg_workflow_step(6)] obtain v' where
    v': "sys_workflow ce now aenv now' se (v\<lparr>wd_broker := b\<rparr>) = Ret v'" "same_core w' v'" by blast
  have "sys_step (st, v) (SysWorkflow ch se) (st, v')"
    using pg_workflow_step assms(2) v'(1)
    by (intro sys_step.sys_workflow_step [of ch v se "v\<lparr>wd_broker := b\<rparr>" ce now aenv now']) (simp_all add: same_core_def wiring)
  with v'(2) pg_workflow_step show ?thesis by auto
next
  case (pg_purge_step sha256 now1 now2 r rep)
  then show ?thesis using assms(2) by (auto simp: pg_purge_def on_db_eq same_core_def)
next
  case (pg_close b)
  then have "sys_step (st, v) SysClose (st, v\<lparr>wd_broker := b\<rparr>)"
    using assms(2) by (intro sys_step.sys_close) (simp add: same_core_def)
  with pg_close assms(2) show ?thesis by (auto simp: same_core_def)
qed (use assms(2) in simp_all)

lemma core_run:
  assumes "run (pg_step db sc) (st0, w0) ops (st, w)" "same_core w0 v0"
  shows "\<exists>v. run sys_step (st0, v0) (filter core_op ops) (st, v) \<and> same_core w v"
  using assms(1)
proof (induction ops arbitrary: st w rule: rev_induct)
  case Nil
  then show ?case using assms(2) by auto
next
  case (snoc op ops)
  then obtain st1 w1 where r: "run (pg_step db sc) (st0, w0) ops (st1, w1)" "pg_step db sc (st1, w1) op (st, w)"
    by (auto simp: run_append)
  obtain v1 where v1: "run sys_step (st0, v0) (filter core_op ops) (st1, v1)" "same_core w1 v1"
    using snoc.IH [OF r(1)] by blast
  from core_step [OF r(2) v1(2)] v1(1) show ?case
    by (cases "core_op op") (auto simp: run_append)
qed

text \<open>Conversely, whatever the memory configuration does, the program does over any database.\<close>

lemma ingest_core_back:
  assumes "same_core w v" "sys_ingest env now r v = Ret (rep, v')"
  shows "\<exists>w'. pg_ingest db env now r w = Ret (rep, w') \<and> same_core w' v'"
proof (cases "admitted now r")
  case None
  with assms show ?thesis
    by (auto simp: pg_ingest_def sys_ingest_def HandleIngest_def admitted_def Let_def pg_wiring wiring same_core_def
        split: option.splits if_splits)
next
  case (Some e)
  with assms show ?thesis
    by (auto simp: pg_ingest_def sys_ingest_def HandleIngest_admitted pg_wiring wiring same_core_def
        split: outcome.splits option.splits)
qed

lemma screen_core_back:
  assumes "same_core w v" "sys_screen env clock e (st, v) = Ret (st', v')"
  shows "\<exists>w'. pg_screen db env clock e (st, w) = Ret (st', w') \<and> same_core w' v'"
  using assms(2)
proof (rule sys_screen_cases)
  fix se rr b
  assume "screen DefaultRules clock e st = (se, st')" "PublishScreened env se (wd_broker v) = Ret (rr, b)"
    "v' = v\<lparr>wd_fraudRepo := snd (SaveEvent se (wd_fraudRepo v)),
      wd_tracker := IncrementMetric (verdict_metric se) 1 (wd_tracker v), wd_broker := b\<rparr>"
  with assms(1) show ?thesis
    by (simp add: same_core_def pg_screen_def ScreenEvent_def pg_wiring split_beta Let_def)
qed

lemma workflow_core_back:
  assumes "same_core w v" "sys_workflow ce now env now' se v = Ret v'"
  shows "\<exists>w'. pg_workflow db ce now env now' se w = Ret w' \<and> same_core w' v'"
  using assms(2)
proof (cases rule: sys_workflow_cases)
  case no_workflow
  with assms(1) show ?thesis by (simp add: pg_workflow_def ProcessMarketingWorkflow_def)
next
  case (workflow wf c h r ok)
  with assms(1) show ?thesis
    by (cases r) (simp_all add: same_core_def pg_workflow_def ProcessMarketingWorkflow_def pg_wiring split_beta Let_def)
qed

lemma core_step_back:
  assumes "sys_step (st, v) op (st', v')" "same_core w v" "core_op op"
  shows "\<exists>w'. pg_step db sc (st, w) op (st', w') \<and> same_core w' v'"
  using assms
proof (cases rule: sys_step.cases)
  case (sys_ingest_step env now r rep)
  with ingest_core_back [OF assms(2)] show ?thesis by (fastforce intro: pg_step.intros)
next
  case (sys_fraud_subscribe s)
  then obtain b where b: "SubscribeRaw (wd_broker v) = (s, b)" "v' = v\<lparr>wd_broker := b\<rparr>"
    by (auto simp: wiring split: prod.splits)
  then have "pg_step db sc (st, w) (SysFraudSubscribe s) (st, w\<lparr>pw_broker := b\<rparr>)"
    using assms(2) by (intro pg_step.pg_fraud_subscribe) (simp add: same_core_def)
  with sys_fraud_subscribe b(2) assms(2) show ?thesis by (auto simp: same_core_def)
next
  case (sys_marketing_subscribe s)
  then obtain b where b: "SubscribeScreened (wd_broker v) = (s, b)" "v' = v\<lparr>wd_broker := b\<rparr>"
    by (auto simp: wiring split: prod.splits)
  then have "pg_step db sc (st, w) (SysMarketingSubscribe s) (st, w\<lparr>pw_broker := b\<rparr>)"
    using assms(2) by (intro pg_step.pg_marketing_subscribe) (simp add: same_core_def)
  with sys_marketing_subscribe b(2) assms(2) show ?thesis by (auto simp: same_core_def)
next
  case (sys_screen_step ch e v1 env clock)
  then obtain b where b: "RecvRaw ch (wd_broker v) = (Received e, b)" "v1 = v\<lparr>wd_broker := b\<rparr>"
    by (auto simp: w_recv_raw_def split: prod.splits)
  have "same_core (w\<lparr>pw_broker := b\<rparr>) v1" using assms(2) by (simp add: same_core_def b(2))
  from screen_core_back [OF this sys_screen_step(4)] obtain w' where
    w': "pg_screen db env clock e (st, w\<lparr>pw_broker := b\<rparr>) = Ret (st', w')" "same_core w' v'" by blast
  have "pg_step db sc (st, w) (SysScreen ch e) (st', w')"
    using sys_screen_step(2) b(1) assms(2) w'(1)
    by (intro pg_step.pg_screen_step [of ch w e b db env clock]) (simp_all add: same_core_def)
  with w'(2) sys_screen_step(1) show ?thesis by auto
next
  case (sys_skip_step ch se)
  then obtain b where b: "RecvScreened ch (wd_broker v) = (Received se, b)" "v' = v\<lparr>wd_broker := b\<rparr>"
    by (auto simp: w_recv_screened_def split: prod.splits)
  have "pg_step db sc (st, w) (SysWorkflow ch se) (st, w\<lparr>pw_broker := b\<rparr>)"
    using sys_skip_step b(1) assms(2) by (intro pg_step.pg_skip_step) (simp_all add: same_core_def)
  with sys_skip_step(1,2) b(2) assms(2) show ?thesis by (auto simp: same_core_def)
next
  case (sys_workflow_step ch se v1 ce now aenv now')
  then obtain b where b: "RecvScreened ch (wd_broker v) = (Received se, b)" "v1 = v\<lparr>wd_broker := b\<rparr>"
    by (auto simp: w_recv_screened_def split: prod.splits)
  have "same_core (w\<lparr>pw_broker := b\<rparr>) v1" using assms(2) by (simp add: same_core_def b(2))
  from workflow_core_back [OF this sys_workflow_step(6)] obtain w' where
    w': "pg_workflow db ce now aenv now' se (w\<lparr>pw_broker := b\<rparr>) = Ret w'" "same_core w' v'" by blast
  have "pg_step db sc (st, w) (SysWorkflow ch se) (st, w')"
    using sys_workflow_step(3,5) b(1) assms(2) w'(1)
    by (intro pg_step.pg_workflow_step [of ch w se b db ce now aenv now']) (simp_all add: same_core_def)
  with w'(2) sys_workflow_step(1,2) show ?thesis by auto
next
  case (sys_close b)
  then have "pg_step db sc (st, w) SysClose (st, w\<lparr>pw_broker := b\<rparr>)"
    using assms(2) by (intro pg_step.pg_close) (simp add: same_core_def)
  with sys_close assms(2) show ?thesis by (auto simp: same_core_def)
qed simp_all

lemma core_run_back:
  assumes "run sys_step (st0, v0) ops (st, v)" "same_core w0 v0" "\<forall>op \<in> set ops. core_op op"
  shows "\<exists>w. run (pg_step db sc) (st0, w0) ops (st, w) \<and> same_core w v"
  using assms(1,3)
proof (induction ops arbitrary: st v rule: rev_induct)
  case Nil
  then show ?case using assms(2) by auto
next
  case (snoc op ops)
  then obtain st1 v1 where r: "run sys_step (st0, v0) ops (st1, v1)" "sys_step (st1, v1) op (st, v)"
    by (auto simp: run_append)
  obtain w1 where "run (pg_step db sc) (st0, w0) ops (st1, w1)" "same_core w1 v1"
    using snoc.IH [OF r(1)] snoc.prems(2) by auto
  with core_step_back [OF r(2)] snoc.prems(2) show ?case by (fastforce simp: run_append)
qed

lemma same_core_New: "same_core (snd (NewPgMonolith cfg d)) (snd (NewMonolith cfg now))"
  by (simp add: same_core_def NewPgMonolith_def NewMonolith_def)

lemma core_run_New:
  assumes "run (pg_step db sc) (NewPgMonolith cfg d) ops (st, w)"
  shows "\<exists>v. run sys_step (NewMonolith cfg now) (filter core_op ops) (st, v) \<and> same_core w v"
proof -
  have "NewPgMonolith cfg d = (NewRuleState, snd (NewPgMonolith cfg d))" "NewMonolith cfg now = (NewRuleState, snd (NewMonolith cfg now))"
    by (simp_all add: NewPgMonolith_def NewMonolith_def)
  with core_run [OF _ same_core_New [of cfg d now]] assms show ?thesis by metis
qed

lemma core_run_back_New:
  assumes "run sys_step (NewMonolith cfg now) ops (st, v)" "\<forall>op \<in> set ops. core_op op"
  shows "\<exists>w. run (pg_step db sc) (NewPgMonolith cfg d) ops (st, w) \<and> same_core w v"
proof -
  have "NewPgMonolith cfg d = (NewRuleState, snd (NewPgMonolith cfg d))" "NewMonolith cfg now = (NewRuleState, snd (NewMonolith cfg now))"
    by (simp_all add: NewPgMonolith_def NewMonolith_def)
  with core_run_back [OF _ same_core_New [of cfg d now] assms(2)] assms(1) show ?thesis by metis
qed

section \<open>What the tables hold\<close>

definition row_of :: "(sql_value \<Rightarrow> sql_value) \<Rightarrow> screened_event \<Rightarrow> sql_value list" where
  "row_of keep se = map keep (event_args se (encode_payload (Payload (Tracking se))))"

definition rows_good :: "(sql_value \<Rightarrow> sql_value) \<Rightarrow> pg_view \<Rightarrow> bool" where
  "rows_good keep v \<longleftrightarrow> (\<forall>r \<in> set (pv_events v). \<exists>se. good_screened se \<and> r = row_of keep se)"

lemma rows_good_mono: "rows_good keep v \<Longrightarrow> set (pv_events v') \<subseteq> set (pv_events v) \<Longrightarrow> rows_good keep v'"
  unfolding rows_good_def by blast

lemma pg_purged_events [simp]: "pv_events (pg_purged u v) = without 1 (SqlText u) (pv_events v)"
  by (simp add: pg_purged_def)

lemma set_without: "set (without i k rows) \<subseteq> set rows"
  by (auto simp: without_def)

text \<open>No operation but the saving of an event adds to the table of events.\<close>

lemma events_shrink:
  assumes "pg_contract db keep view tx"
  shows "set (pv_events (view (PgIncrementMetric db n delta d))) \<subseteq> set (pv_events (view d))"
    and "set (pv_events (view (snd (PgSaveCRMContact db c d)))) \<subseteq> set (pv_events (view d))"
    and "set (pv_events (view (snd (PgDeleteCRMContact db u d)))) \<subseteq> set (pv_events (view d))"
    and "set (pv_events (view (snd (PgSavePrivacyLog db l d)))) \<subseteq> set (pv_events (view d))"
    and "set (pv_events (view (snd (PgDeleteUserEvents db u d)))) \<subseteq> set (pv_events (view d))"
proof -
  show "set (pv_events (view (PgIncrementMetric db n delta d))) \<subseteq> set (pv_events (view d))"
    using pg_increment_view [OF assms, of n delta d] by auto
  have save: "snd (PgSaveCRMContact db c d) = snd (db_exec db UpsertContact (contact_args c) d)"
    by (simp add: PgSaveCRMContact_def split: prod.splits sum.splits)
  show "set (pv_events (view (snd (PgSaveCRMContact db c d)))) \<subseteq> set (pv_events (view d))"
    using pg_exec_cases [OF assms, of UpsertContact "contact_args c" d] by (auto simp: save)
  show "set (pv_events (view (snd (PgDeleteCRMContact db u d)))) \<subseteq> set (pv_events (view d))"
    using pg_exec_cases [OF assms, of DeleteContact "[SqlText u]" d] by (auto simp: snd_of_exec)
  show "set (pv_events (view (snd (PgSavePrivacyLog db l d)))) \<subseteq> set (pv_events (view d))"
    using pg_save_log_cases [OF assms, of d l] by auto
  obtain res d' where del: "PgDeleteUserEvents db u d = (res, d')" by (cases "PgDeleteUserEvents db u d")
  with pg_purge_cases [OF assms del]
  show "set (pv_events (view (snd (PgDeleteUserEvents db u d)))) \<subseteq> set (pv_events (view d))" by (auto simp: without_def)
qed

lemma save_rows:
  assumes "pg_contract db keep view tx"
  shows "set (pv_events (view (snd (PgSaveEvent db se d)))) \<subseteq> insert (row_of keep se) (set (pv_events (view d)))"
proof -
  have "snd (PgSaveEvent db se d) = snd (db_exec db InsertEvent (event_args se (encode_payload (Payload (Tracking se)))) d)"
    by (simp add: PgSaveEvent_def MarshalPayload_def split: prod.splits sum.splits)
  then show ?thesis
    using pg_exec_cases [OF assms, of InsertEvent "event_args se (encode_payload (Payload (Tracking se)))" d]
    by (auto simp: row_of_def insert_new_def split: if_splits)
qed

lemma HandleGDPRDelete_state:
  assumes "HandleGDPRDelete sha256 deleteEvents deleteContact saveLog now1 now2 r w = (rep, w')"
  shows "w' = w \<or> (\<exists>u. w' = snd (deleteEvents u w)) \<or>
    (\<exists>u l. w' = snd (saveLog l (snd (deleteContact u (snd (deleteEvents u w))))))"
  using assms
  by (auto simp: HandleGDPRDelete_def Let_def split: if_splits prod.splits sum.splits) (metis snd_conv)+

lemma pg_ingest_db:
  assumes "pg_ingest db env now r w = Ret (rep, w')"
  shows "pw_db w' = pw_db w \<or> pw_db w' = PgIncrementMetric db ''total_received'' 1 (pw_db w)"
proof (cases "admitted now r")
  case None
  then show ?thesis
    by (cases rule: HandleIngest_refused [where 'w = "'a pg_world"]) (use assms in \<open>auto simp: pg_ingest_def p_increment_def\<close>)
next
  case (Some e)
  with assms show ?thesis
    by (auto simp: pg_ingest_def HandleIngest_admitted pg_wiring split: outcome.splits option.splits)
qed

lemma rows_good_increment:
  "pg_contract db keep view tx \<Longrightarrow> rows_good keep (view d) \<Longrightarrow> rows_good keep (view (PgIncrementMetric db n delta d))"
  by (rule rows_good_mono [OF _ events_shrink(1)])

lemma rows_good_ingest:
  assumes "pg_contract db keep view tx" "pg_ingest db env now r w = Ret (rep, w')" "rows_good keep (view (pw_db w))"
  shows "rows_good keep (view (pw_db w'))"
  using pg_ingest_db [OF assms(2)]
proof
  assume "pw_db w' = pw_db w"
  with assms(3) show ?thesis by simp
next
  assume "pw_db w' = PgIncrementMetric db ''total_received'' 1 (pw_db w)"
  with rows_good_increment [OF assms(1,3)] show ?thesis by simp
qed

lemma rows_good_purge:
  assumes "pg_contract db keep view tx" "pg_purge sha256 db now1 now2 r w = (rep, w')" "rows_good keep (view (pw_db w))"
  shows "rows_good keep (view (pw_db w'))"
proof -
  obtain d' where h: "pg_purge_handler sha256 db now1 now2 r (pw_db w) = (rep, d')" "w' = w\<lparr>pw_db := d'\<rparr>"
    using assms(2) by (auto simp: pg_purge_def on_db_def split: prod.splits)
  note shrink = rows_good_mono [OF _ events_shrink(3) [OF assms(1)]] rows_good_mono [OF _ events_shrink(4) [OF assms(1)]]
    rows_good_mono [OF _ events_shrink(5) [OF assms(1)]]
  from HandleGDPRDelete_state [OF h(1) [unfolded pg_purge_handler_def]] assms(3) have "rows_good keep (view d')"
    by (auto intro: shrink)
  then show ?thesis by (simp add: h(2))
qed

lemma rows_good_save:
  assumes "pg_contract db keep view tx" "good_screened se" "rows_good keep (view d)"
  shows "rows_good keep (view (snd (PgSaveEvent db se d)))"
  using save_rows [OF assms(1), of se d] assms(2,3) unfolding rows_good_def by blast

lemma rows_good_step:
  assumes c: "pg_contract db keep view tx" and "pg_step db sc (st, w) op (st', w')"
    and core: "same_core w v" "world_holds good_event good_screened v" and rows: "rows_good keep (view (pw_db w))"
  shows "rows_good keep (view (pw_db w'))"
  using assms(2)
proof (cases rule: pg_step.cases)
  case (pg_ingest_step env now r rep)
  with rows_good_ingest [OF c _ rows] show ?thesis by simp
next
  case (pg_screen_step ch e b env clock)
  have "w_recv_raw ch v = (Received e, v\<lparr>wd_broker := b\<rparr>)" "ch < length (rawSubs (wd_broker v))"
    using pg_screen_step(2,3) core(1) by (simp_all add: same_core_def w_recv_raw_def)
  with good.world_holds_recv_raw core(2) have e: "good_event e" by blast
  from pg_screen_step(4) show ?thesis
  proof (rule pg_screen_cases)
    fix se rr b' assume se: "screen DefaultRules clock e st = (se, st')"
      and w': "w' = w\<lparr>pw_broker := b, pw_db := PgIncrementMetric db (verdict_metric se) 1
        (snd (PgSaveEvent db se (pw_db (w\<lparr>pw_broker := b\<rparr>)))), pw_broker := b'\<rparr>"
    from rows_good_increment [OF c rows_good_save [OF c good.screened_Q [OF e se] rows]] show ?thesis by (simp add: w')
  qed
next
  case (pg_workflow_step ch se b ce now aenv now')
  from pg_workflow_step(6) show ?thesis
  proof (cases rule: pg_workflow_cases)
    case (workflow wf ct h r)
    have "rows_good keep (view (PgIncrementMetric db (if r = None then ''crm_successes'' else ''crm_failures'') 1
        (PgIncrementMetric db ''crm_attempts'' 1 (pw_db w))))"
      by (intro rows_good_increment [OF c] rows)
    from rows_good_mono [OF this events_shrink(2) [OF c]] show ?thesis by (simp add: workflow(3))
  qed (use rows in simp)
next
  case (pg_purge_step sha256 now1 now2 r rep)
  with rows_good_purge [OF c _ rows] show ?thesis by simp
qed (use rows in simp_all)

lemma rows_good_run:
  assumes c: "pg_contract db keep view tx" and "pv_events (view d) = []"
  shows "run (pg_step db sc) (NewPgMonolith cfg d) ops (st, w) \<Longrightarrow> rows_good keep (view (pw_db w))"
proof (induction ops arbitrary: st w rule: rev_induct)
  case Nil
  then show ?case using assms(2) by (auto simp: NewPgMonolith_def rows_good_def)
next
  case (snoc op ops)
  then obtain st1 w1 where r: "run (pg_step db sc) (NewPgMonolith cfg d) ops (st1, w1)" "pg_step db sc (st1, w1) op (st, w)"
    by (auto simp: run_append)
  obtain v where v: "run sys_step (NewMonolith cfg 0) (filter core_op ops) (st1, v)" "same_core w1 v"
    using core_run_New [OF r(1)] by blast
  have "world_holds good_event good_screened v" using good.world_holds_run [OF v(1)] by simp
  from rows_good_step [OF c r(2) v(2) this snoc.IH [OF r(1)]] show ?case .
qed

section \<open>What is read back\<close>

lemma scan_event_payload:
  assumes "scan_event sc r = Inr e"
  shows "go_payload (Payload (Tracking e))"
proof -
  obtain ev p where cols: "scan_columns sc r = Some (ev, p)"
    using assms by (cases "scan_columns sc r") (auto simp: scan_event_def)
  then have "Payload (Tracking ev) = None" by (auto simp: scan_columns_def split: list.splits bind_splits)
  then have ev: "go_payload (Payload (Tracking ev))" by (simp add: go_payload_def)
  show ?thesis
  proof (cases p)
    case None
    with assms cols ev show ?thesis by (simp add: scan_event_def)
  next
    case (Some doc)
    with assms cols obtain d t where "decode_map Payload_update d (Tracking ev) = Some t" "e = ev\<lparr>Tracking := t\<rparr>"
      by (cases doc) (auto simp: scan_event_def split: option.splits)
    with decode_map_go_payload ev show ?thesis by auto
  qed
qed

lemma scan_good_row:
  assumes k: "keep_ok keep rnd" and se: "good_screened se"
  obtains e where "scan_event sc (row_of keep se) = Inr e" "good_screened e" "UserID (Tracking e) = UserID (Tracking se)"
proof -
  have "go_payload (Payload (Tracking se))"
    using se by (simp add: good_screened_def verdict_in_type_def event_in_type_def)
  from scan_stored_event [OF k this] obtain e where e: "scan_event sc (row_of keep se) = Inr e" "stored_as rnd se e"
    by (auto simp: row_of_def)
  define t p where "t = rnd (ScreenedAt se)" and "p = Payload (Tracking e)"
  have eq: "e = se\<lparr>ScreenedAt := t, Tracking := (Tracking se)\<lparr>Timestamp := rnd (Timestamp (Tracking se)), Payload := p\<rparr>\<rparr>"
    using e(2) unfolding stored_as_def t_def p_def by blast
  have "go_payload p" using scan_event_payload [OF e(1)] by (simp add: p_def)
  with se have "good_screened e"
    by (simp add: eq good_screened_def verdict_in_type_def event_in_type_def conforming_def)
  moreover have "UserID (Tracking e) = UserID (Tracking se)" by (simp add: eq)
  ultimately show thesis using e(1) that by blast
qed

lemma read_rows_all:
  assumes "\<forall>r \<in> set rs. \<exists>x. scan r = Inr x \<and> Q x"
  shows "\<exists>xs. read_rows scan rs acc = Inr (acc @ xs) \<and> length xs = length rs \<and> (\<forall>x \<in> set xs. Q x)"
  using assms
proof (induction rs arbitrary: acc)
  case (Cons r rs)
  then obtain x where x: "scan r = Inr x" "Q x" by auto
  from Cons.IH [of "acc @ [x]"] Cons.prems obtain xs where
    "read_rows scan rs (acc @ [x]) = Inr ((acc @ [x]) @ xs)" "length xs = length rs" "\<forall>x \<in> set xs. Q x" by auto
  with x show ?case by (intro exI [of _ "x # xs"]) simp
qed simp

section \<open>Properties\<close>


text \<open>A database on which every statement fails.\<close>

definition dead_db :: "unit sql_db" where
  "dead_db = \<lparr>db_exec = (\<lambda>st args d. (Inl (NewError ''connection refused''), d)), db_query = (\<lambda>st args d. Inl (NewError ''connection refused'')),
     db_begin = (\<lambda>d. (Some (NewError ''connection refused''), d)), tx_exec = (\<lambda>st args d. (Inl (NewError ''connection refused''), d)),
     tx_commit = (\<lambda>d. (Some (NewError ''connection refused''), d)), tx_rollback = (\<lambda>d. d)\<rparr>"


text \<open>
  C15: Over Postgres no stored event is ever unreadable or out of order of the gate: after any run from an
  empty table of events, whatever failed on the way, a query of a user's events that succeeds is scanned without an
  error, one event per row, and each of them is the user's, conforms (identity, consent, masked address) and
  has a verdict of the rules.
\<close>
theorem pg_reads_only_good_events:
  assumes "pg_contract db keep view tx" "keep_ok keep rnd" "pv_events (view d) = []"
    and "run (pg_step db sc) (NewPgMonolith cfg d) ops (st, w)"
    and "db_query db SelectEvents [SqlText u] (pw_db w) = Inr (rows, None)"
  shows "\<exists>evs. PgGetEventsByUserID db sc u (pw_db w) = Inr evs \<and> length evs = length rows \<and>
    (\<forall>se \<in> set evs. good_screened se \<and> UserID (Tracking se) = u)"
proof -
  have good: "rows_good keep (view (pw_db w))" by (rule rows_good_run [OF assms(1,3,4)])
  have "mset rows = mset (filter (\<lambda>r. r ! 1 = SqlText u) (pv_events (view (pw_db w))))"
    using pg_contractD(9) [OF assms(1,5)] by simp
  from mset_eq_setD [OF this] have mem: "r \<in> set (pv_events (view (pw_db w)))" "r ! 1 = SqlText u" if "r \<in> set rows" for r
    using that by auto
  have "\<exists>e. scan_event sc r = Inr e \<and> good_screened e \<and> UserID (Tracking e) = u" if r: "r \<in> set rows" for r
  proof -
    obtain se where se: "good_screened se" "r = row_of keep se" using good mem(1) [OF r] unfolding rows_good_def by blast
    have "UserID (Tracking se) = u"
      using mem(2) [OF r] assms(2) by (simp add: se(2) row_of_def event_args_def keep_ok_def)
    with scan_good_row [OF assms(2) se(1)] se(2) show ?thesis by metis
  qed
  with read_rows_all [of rows "scan_event sc" "\<lambda>e. good_screened e \<and> UserID (Tracking e) = u" "[]"] show ?thesis
    by (auto simp: PgGetEventsByUserID_def rows_result_def assms(5))
qed

text \<open>The sample run on tables that work: the event is in the table.\<close>

theorem pg_reads_only_good_events_witness:
  "\<exists>st w evs. run (pg_step table_db plain_scan) (NewPgMonolith cfg0 (empty_tables, empty_tables)) screened_ops (st, w) \<and>
     PgGetEventsByUserID table_db plain_scan ''u1'' (pw_db w) = Inr evs \<and> (\<forall>se \<in> set evs. good_screened se)"
proof -
  let ?d = "(empty_tables, empty_tables)"
  obtain st v where v: "run sys_step (NewMonolith cfg0 0) screened_ops (st, v)" using sample_screened by blast
  have "\<forall>op \<in> set screened_ops. core_op op" by (simp add: screened_ops_def sample_ops_def)
  from core_run_back_New [OF v this, of table_db plain_scan ?d] obtain w where
    r: "run (pg_step table_db plain_scan) (NewPgMonolith cfg0 ?d) screened_ops (st, w)" by blast
  have e: "pv_events (fst ?d) = []" by (simp add: empty_tables_def)
  obtain rows where q: "db_query table_db SelectEvents [SqlText ''u1''] (pw_db w) = Inr (rows, None)"
    by (simp add: table_db_def)
  from pg_reads_only_good_events [OF table_db_contract keep_micros_ok e r q] r show ?thesis by blast
qed

end
