(* ===== verification/Schema.thy ===== *)
theory Schema
  imports PostgresMonolith
begin

text \<open>
  \<^verbatim>\<open>pkg/db/migrations/0001_init.sql\<close>: the tables with the types of their columns, which rows fit them, and
  which of the rows the repositories send do.
\<close>

section \<open>The tables\<close>

datatype column_type = VARCHAR nat | TEXT | JSONB | TIMESTAMPTZ | BOOLEAN | DOUBLE_PRECISION | INT32 | BIGINT

record column =
  co_name :: string
  co_type :: column_type
  co_not_null :: bool

abbreviation col :: "string \<Rightarrow> column_type \<Rightarrow> column" where
  "col n t \<equiv> \<lparr>co_name = n, co_type = t, co_not_null = False\<rparr>"

abbreviation req :: "string \<Rightarrow> column_type \<Rightarrow> column" where
  "req n t \<equiv> \<lparr>co_name = n, co_type = t, co_not_null = True\<rparr>"

definition events_table :: "column list" where
  "events_table =
     [req ''event_id'' (VARCHAR 255), req ''user_id'' (VARCHAR 255), req ''event_type'' (VARCHAR 100),
      col ''ip_address'' (VARCHAR 100), col ''user_agent'' TEXT, col ''payload'' JSONB, req ''timestamp'' TIMESTAMPTZ,
      req ''gdpr_consent'' BOOLEAN, req ''is_fraudulent'' BOOLEAN, req ''fraud_score'' DOUBLE_PRECISION,
      col ''fraud_reason'' TEXT, req ''screened_at'' TIMESTAMPTZ]"

definition contacts_table :: "column list" where
  "contacts_table =
     [req ''user_id'' (VARCHAR 255), req ''email'' (VARCHAR 255), req ''workflow_triggered'' TEXT,
      req ''sync_status'' (VARCHAR 50), req ''synced_at'' TIMESTAMPTZ, req ''retry_count'' INT32]"

definition logs_table :: "column list" where
  "logs_table =
     [req ''log_id'' (VARCHAR 255), req ''user_id'' (VARCHAR 255), req ''action'' (VARCHAR 100), req ''timestamp'' TIMESTAMPTZ]"

definition counters_table :: "column list" where
  "counters_table = [req ''metric_name'' (VARCHAR 100), req ''counter_value'' BIGINT]"

text \<open>
  The columns of the statements that write rows, in the order of their \<^verbatim>\<open>VALUES\<close>; each names all the columns of its
  table, in the table's order.
\<close>

fun written_columns :: "sql_statement \<Rightarrow> column list option" where
  "written_columns InsertEvent = Some events_table"
| "written_columns UpsertContact = Some contacts_table"
| "written_columns InsertLog = Some logs_table"
| "written_columns UpsertMetric = Some counters_table"
| "written_columns _ = None"

section \<open>Values that fit\<close>

text \<open>
  A text of Postgres has no zero byte, and \<^verbatim>\<open>VARCHAR(n)\<close> counts characters, that is, in UTF-8, the bytes that do
  not continue one; what exceeds it may only be spaces.
\<close>

definition continues :: "char \<Rightarrow> bool" where
  "continues c \<longleftrightarrow> (let n = of_char c :: nat in 128 \<le> n \<and> n < 192)"

fun drop_chars :: "nat \<Rightarrow> string \<Rightarrow> string" where
  "drop_chars 0 s = s"
| "drop_chars (Suc n) [] = []"
| "drop_chars (Suc n) (c # s) = drop_chars n (dropWhile continues s)"

definition too_long :: "nat \<Rightarrow> string \<Rightarrow> bool" where
  "too_long n s \<longleftrightarrow> (\<exists>c \<in> set (drop_chars n s). c \<noteq> CHR '' '')"

definition no_zero :: "string \<Rightarrow> bool" where
  "no_zero s \<longleftrightarrow> CHR 0x00 \<notin> set s"

fun json_no_zero :: "json \<Rightarrow> bool" where
  "json_no_zero (JStr s) \<longleftrightarrow> no_zero s"
| "json_no_zero (JArr xs) \<longleftrightarrow> (\<forall>x \<in> set xs. json_no_zero x)"
| "json_no_zero (JObj kvs) \<longleftrightarrow> (\<forall>kv \<in> set kvs. no_zero (fst kv) \<and> json_no_zero (snd kv))"
| "json_no_zero _ \<longleftrightarrow> True"

fun fits :: "column_type \<Rightarrow> sql_value \<Rightarrow> bool" where
  "fits (VARCHAR n) (SqlText s) \<longleftrightarrow> no_zero s \<and> \<not> too_long n s"
| "fits TEXT (SqlText s) \<longleftrightarrow> no_zero s"
| "fits JSONB (SqlJson (Some d)) \<longleftrightarrow> json_no_zero d"
| "fits TIMESTAMPTZ (SqlTime t) \<longleftrightarrow> True"
| "fits BOOLEAN (SqlBool b) \<longleftrightarrow> True"
| "fits DOUBLE_PRECISION (SqlFloat x) \<longleftrightarrow> f64 x = x \<and> \<not> f64_overflow x"
| "fits INT32 (SqlInt i) \<longleftrightarrow> -(2 ^ 31) \<le> i \<and> i < 2 ^ 31"
| "fits BIGINT (SqlInt i) \<longleftrightarrow> is_int64 i"
| "fits t v \<longleftrightarrow> False"

definition fits_column :: "column \<Rightarrow> sql_value \<Rightarrow> bool" where
  "fits_column c v \<longleftrightarrow> (if v = SqlNull then \<not> co_not_null c else fits (co_type c) v)"

definition row_fits :: "column list \<Rightarrow> sql_value list \<Rightarrow> bool" where
  "row_fits cols args \<longleftrightarrow> list_all2 fits_column cols args"

text \<open>What the server does with a row that does not fit: it refuses the statement.\<close>

definition schema_enforced :: "'d sql_db \<Rightarrow> ('d \<Rightarrow> pg_view) \<Rightarrow> bool" where
  "schema_enforced db view \<longleftrightarrow>
     (\<forall>st cols args d. written_columns st = Some cols \<and> \<not> row_fits cols args \<longrightarrow>
        (\<exists>err d'. db_exec db st args d = (Inl err, d') \<and> view d' = view d))"

section \<open>Short texts\<close>

lemma drop_chars_short: "length s \<le> n \<Longrightarrow> drop_chars n s = []"
proof (induction n s rule: drop_chars.induct)
  case (3 n c s)
  have "length (dropWhile continues s) \<le> n" using 3(2) length_dropWhile_le [of continues s] by simp
  with 3(1) show ?case by simp
qed simp_all

lemma short_enough [simp]: "length s \<le> n \<Longrightarrow> \<not> too_long n s"
  by (simp add: too_long_def drop_chars_short)

text \<open>On ASCII a character is a byte.\<close>

lemma drop_chars_ascii: "\<forall>c \<in> set s. \<not> continues c \<Longrightarrow> drop_chars n s = drop n s"
proof (induction n s rule: drop_chars.induct)
  case (3 n c s)
  then have "dropWhile continues s = s" by (cases s) auto
  with 3 show ?case by simp
qed simp_all

lemma plain_no_zero: "\<forall>c \<in> set s. plain_char c \<Longrightarrow> no_zero s"
  by (auto simp: no_zero_def plain_char_def)

lemma no_zero_simps [simp]:
  "no_zero []" "no_zero (c # s) \<longleftrightarrow> c \<noteq> CHR 0x00 \<and> no_zero s" "no_zero (s @ t) \<longleftrightarrow> no_zero s \<and> no_zero t"
  by (auto simp: no_zero_def)

lemma set_Join: "set (Join xs sep) \<subseteq> \<Union> (set (map set xs)) \<union> set sep"
  by (induction xs sep rule: Join.induct) auto

lemma length_Join: "\<forall>x \<in> set xs. length x \<le> k \<Longrightarrow> length (Join xs sep) \<le> length xs * (k + length sep)"
  by (induction xs sep rule: Join.induct) auto

lemma length_show_nat: "n < 10 ^ k \<Longrightarrow> 0 < k \<Longrightarrow> length (show_nat n) \<le> k"
proof (induction n arbitrary: k rule: show_nat.induct)
  case (1 n)
  show ?case
  proof (cases "n < 10")
    case True
    with 1 show ?thesis by (simp add: show_nat_small)
  next
    case False
    then obtain j where j: "k = Suc j" "0 < j" using 1(2,3) by (cases k) (auto, cases "k - 1", auto)
    then have "n div 10 < 10 ^ j" using 1(2) by (simp add: less_mult_imp_div_less mult.commute)
    with 1(1) [OF False, of j] j False show ?thesis by (simp add: show_nat_big)
  qed
qed

lemma length_show_hex: "n < 16 ^ k \<Longrightarrow> 0 < k \<Longrightarrow> length (show_hex n) \<le> k"
  using show_hex_digits [of n] by auto

section \<open>Masked addresses fit\<close>

lemma plain_show_nat: "c \<in> set (show_nat n) \<Longrightarrow> plain_char c"
  using show_nat_digits [of c n] digit_char_simps(6) by auto

lemma plain_show_hex: "c \<in> set (show_hex n) \<Longrightarrow> plain_char c"
  using show_hex_chars [of c n] hex_char_plain(4) by auto

lemma string4_short:
  assumes "byte_list 4 bs"
  shows "length (string4 bs) \<le> 100" "\<forall>c \<in> set (string4 bs). plain_char c"
proof -
  have "\<forall>x \<in> set (map show_nat bs). length x \<le> 3"
    using assms length_show_nat [of _ 3] by (fastforce simp: byte_list_def list_all_iff)
  from length_Join [OF this, of "''.''"] show "length (string4 bs) \<le> 100"
    using assms by (simp add: string4_def byte_list_def)
  have "plain_char CHR ''.''" by (simp add: plain_char_def)
  then show "\<forall>c \<in> set (string4 bs). plain_char c"
    using set_Join [of "map show_nat bs" "''.''"] plain_show_nat by (auto simp: string4_def)
qed

lemma joined_groups:
  assumes "length gs \<le> 8" "list_all (\<lambda>g. g < 65536) gs"
  shows "length (Join (map show_hex gs) '':'') \<le> 40" "\<forall>c \<in> set (Join (map show_hex gs) '':''). plain_char c"
proof -
  have "\<forall>x \<in> set (map show_hex gs). length x \<le> 4"
    using assms(2) length_show_hex [of _ 4] by (auto simp: list_all_iff)
  from length_Join [OF this, of "'':''"] show "length (Join (map show_hex gs) '':'') \<le> 40"
    using assms(1) by simp
  have "plain_char CHR '':''" by (simp add: plain_char_def)
  then show "\<forall>c \<in> set (Join (map show_hex gs) '':''). plain_char c"
    using set_Join [of "map show_hex gs" "'':''"] plain_show_hex by auto
qed

lemma string6_short:
  assumes "byte_list 16 bs"
  shows "length (string6 bs) \<le> 100" "\<forall>c \<in> set (string6 bs). plain_char c"
proof -
  let ?gs = "groups bs"
  have gs: "length ?gs = 8" "list_all (\<lambda>g. g < 65536) ?gs"
    using assms by (auto simp: byte_list_def length_groups intro: groups_bound)
  have part: "length (take s ?gs) \<le> 8" "length (drop e ?gs) \<le> 8"
    "list_all (\<lambda>g. g < 65536) (take s ?gs)" "list_all (\<lambda>g. g < 65536) (drop e ?gs)" for s e
    using gs by (auto simp: list_all_iff dest: in_set_takeD in_set_dropD)
  have colon: "plain_char CHR '':''" by (simp add: plain_char_def)
  have "length (string6 bs) \<le> 100 \<and> (\<forall>c \<in> set (string6 bs). plain_char c)"
  proof (cases "longest_run ?gs")
    case None
    with joined_groups [of ?gs] gs show ?thesis by (simp add: string6_def)
  next
    case (Some se)
    obtain s e where se: "longest_run ?gs = Some (s, e)" using Some by (cases se) auto
    from joined_groups [OF part(1,3)] joined_groups [OF part(2,4)] colon show ?thesis
      by (fastforce simp: string6_def se Let_def intro: order_trans [OF add_mono])
  qed
  then show "length (string6 bs) \<le> 100" "\<forall>c \<in> set (string6 bs). plain_char c" by simp_all
qed

lemma AnonymizeIP_short: "length (AnonymizeIP s) \<le> 100" "\<forall>c \<in> set (AnonymizeIP s). plain_char c"
proof -
  have "length (AnonymizeIP s) \<le> 100 \<and> (\<forall>c \<in> set (AnonymizeIP s). plain_char c)"
  proof (cases "ParseIP (TrimSpace s)")
    case None
    then show ?thesis by (simp add: AnonymizeIP_def plain_char_def)
  next
    case (Some ip)
    show ?thesis
    proof (cases "take 12 ip = v4_prefix")
      case True
      with string4_short [OF AnonymizeIP_v4(2) [OF Some True]] AnonymizeIP_v4(1) [OF Some True] show ?thesis by simp
    next
      case False
      have "byte_list 16 ip" using ParseIP_bytes [OF Some] .
      then have "byte_list 16 (take 8 ip @ replicate 8 0)"
        by (auto simp: byte_list_def list_all_iff dest: in_set_takeD)
      then have "byte_list 16 (mask_ip ip)" using False by (simp add: mask_ip_def)
      from string6_short [OF this] AnonymizeIP_v6 [OF Some False] show ?thesis by simp
    qed
  qed
  then show "length (AnonymizeIP s) \<le> 100" "\<forall>c \<in> set (AnonymizeIP s). plain_char c" by simp_all
qed

section \<open>Which rows fit\<close>

definition storable_event :: "screened_event \<Rightarrow> bool" where
  "storable_event se \<longleftrightarrow>
     no_zero (EventID (Tracking se)) \<and> \<not> too_long 255 (EventID (Tracking se)) \<and>
     no_zero (UserID (Tracking se)) \<and> \<not> too_long 255 (UserID (Tracking se)) \<and>
     no_zero (EventType (Tracking se)) \<and> \<not> too_long 100 (EventType (Tracking se)) \<and>
     no_zero (UserAgent (Tracking se)) \<and> json_no_zero (encode_payload (Payload (Tracking se))) \<and> no_zero (FraudReason se)"

lemma good_event_fits:
  assumes "good_screened se"
  shows "row_fits events_table (event_args se (encode_payload (Payload (Tracking se)))) \<longleftrightarrow> storable_event se"
proof -
  have "AnonymizeIP (IPAddress (Tracking se)) = IPAddress (Tracking se)"
    using assms by (simp add: good_screened_def conforming_def)
  with AnonymizeIP_short [of "IPAddress (Tracking se)"]
  have ip: "no_zero (IPAddress (Tracking se))" "\<not> too_long 100 (IPAddress (Tracking se))"
    using plain_no_zero short_enough by auto
  have "f64 (FraudScore se) = FraudScore se" "\<not> f64_overflow (FraudScore se)"
    using assms by (simp_all add: good_screened_def verdict_in_type_def f64_overflow_def)
  with ip show ?thesis
    by (auto simp: row_fits_def events_table_def event_args_def fits_column_def storable_event_def)
qed

definition storable_contact :: "tracking_event \<Rightarrow> bool" where
  "storable_contact e \<longleftrightarrow> no_zero (UserID e) \<and> \<not> too_long 255 (UserID e) \<and> no_zero (email_of e) \<and> \<not> too_long 255 (email_of e)"

lemma new_contact_fits:
  assumes "workflow_of (EventType e) = Some workflow" "status \<in> {''synced'', ''failed''}"
  shows "row_fits contacts_table (contact_args ((new_contact now workflow e)\<lparr>cc_SyncStatus := status\<rparr>)) \<longleftrightarrow> storable_contact e"
proof -
  have "no_zero workflow" using assms(1) by (auto simp: workflow_of_def split: if_splits)
  moreover have "no_zero status \<and> \<not> too_long 50 status" using assms(2) by auto
  ultimately show ?thesis
    by (auto simp: row_fits_def contacts_table_def contact_args_def fits_column_def new_contact_def storable_contact_def)
qed

lemma counter_fits:
  assumes "name \<in> set metric_names" "is_int64 delta"
  shows "row_fits counters_table [SqlText name, SqlInt delta]"
  using assms
  by (auto simp: row_fits_def counters_table_def fits_column_def metric_names_def)

text \<open>An audit entry always fits when SHA-256 gives its 32 bytes.\<close>

lemma length_show_int:
  assumes "is_int64 i"
  shows "length (show_int i) \<le> 20"
proof -
  have "nat \<bar>i\<bar> < 10 ^ 19" using assms by (auto simp: is_int64_def int64_min_def int64_max_def nat_less_iff)
  then have "length (show_nat (nat \<bar>i\<bar>)) \<le> 19" by (intro length_show_nat) simp_all
  then show ?thesis by (auto simp: show_int_def split: if_splits)
qed

lemma plain_show_int: "\<forall>c \<in> set (show_int i). plain_char c"
  using plain_show_nat by (auto simp: show_int_def plain_char_def)


lemma encoded_hash:
  "length (EncodeToString bs) = 2 * length bs" "\<forall>c \<in> set (EncodeToString bs). plain_char c"
proof -
  show "length (EncodeToString bs) = 2 * length bs"
    by (induction bs) (simp_all add: EncodeToString_def)
  have digit: "plain_char (hex_digit n)" if "n < 16" for n
    using that by (auto simp: plain_char_def hex_digit_def)
  have "(of_char c :: nat) div 16 < 16" for c :: char
    using nat_of_char_less_256 [of c] by (simp add: less_mult_imp_div_less)
  then show "\<forall>c \<in> set (EncodeToString bs). plain_char c"
    by (auto simp: EncodeToString_def intro!: digit)
qed

lemma audit_log_fits:
  assumes "\<forall>s. length (sha256 s) = 32"
  shows "row_fits logs_table (log_args (audit_log sha256 now1 now2 u))"
proof -
  have "length (show_int (UnixNano now1)) \<le> 20" by (rule length_show_int) (simp add: UnixNano_def is_int64_wrap64)
  moreover have "no_zero (show_int (UnixNano now1))" by (rule plain_no_zero [OF plain_show_int])
  moreover have "length (hashIdentifier sha256 u service_salt) = 64"
    using assms by (simp add: hashIdentifier_def encoded_hash(1))
  moreover have "no_zero (hashIdentifier sha256 u service_salt)"
    unfolding hashIdentifier_def by (rule plain_no_zero [OF encoded_hash(2)])
  ultimately show ?thesis
    by (simp add: row_fits_def logs_table_def log_args_def audit_log_def fits_column_def)
qed

section \<open>Rows that do not fit\<close>

lemma save_unstorable:
  assumes "schema_enforced db view" "good_screened se" "\<not> storable_event se"
  shows "\<exists>err d'. PgSaveEvent db se d = (Some err, d') \<and> view d' = view d"
proof -
  let ?args = "event_args se (encode_payload (Payload (Tracking se)))"
  have "written_columns InsertEvent = Some events_table \<and> \<not> row_fits events_table ?args"
    using good_event_fits [OF assms(2)] assms(3) by simp
  with assms(1) obtain err d' where "db_exec db InsertEvent ?args d = (Inl err, d')" "view d' = view d"
    unfolding schema_enforced_def by blast
  then show ?thesis by (simp add: PgSaveEvent_def MarshalPayload_def)
qed

lemma increment_events [simp]:
  assumes "pg_contract db keep view tx"
  shows "pv_events (view (PgIncrementMetric db n delta d)) = pv_events (view d)"
  using pg_increment_view [OF assms, of n delta d] by auto

section \<open>Properties\<close>



section \<open>Witnesses\<close>


text \<open>The table database with the schema enforced.\<close>

definition refusing :: "go_error \<Rightarrow> (sql_statement \<Rightarrow> sql_value list \<Rightarrow> bool) \<Rightarrow> 'd sql_db \<Rightarrow> 'd sql_db" where
  "refusing err ok db = db\<lparr>db_exec := (\<lambda>st args d. if ok st args then db_exec db st args d else (Inl err, d))\<rparr>"

lemma refusing_contract:
  assumes "pg_contract db keep view tx"
  shows "pg_contract (refusing err ok db) keep view tx"
proof -
  let ?db = "refusing err ok db"
  have same: "db_query ?db = db_query db" "db_begin ?db = db_begin db" "tx_exec ?db = tx_exec db"
    "tx_commit ?db = tx_commit db" "tx_rollback ?db = tx_rollback db"
    by (simp_all add: refusing_def)
  have "case res of Inr n \<Rightarrow> (view d', n) = pg_apply keep st args (view d)
      | Inl err \<Rightarrow> view d' \<in> {view d, fst (pg_apply keep st args (view d))}"
    if "db_exec ?db st args d = (res, d')" for st args d res d'
  proof (cases "ok st args")
    case True
    with that have "db_exec db st args d = (res, d')" by (simp add: refusing_def)
    with assms show ?thesis unfolding pg_contract_def by blast
  next
    case False
    with that show ?thesis by (auto simp: refusing_def)
  qed
  with assms show ?thesis unfolding pg_contract_def same by blast
qed

definition strict_db :: "(pg_view \<times> pg_view) sql_db" where
  "strict_db = refusing (NewError ''value too long'')
     (\<lambda>st args. case written_columns st of Some cols \<Rightarrow> row_fits cols args | None \<Rightarrow> True) table_db"

lemma strict_db_ok: "pg_contract strict_db keep_micros fst snd" "schema_enforced strict_db fst"
proof -
  show "pg_contract strict_db keep_micros fst snd"
    unfolding strict_db_def by (rule refusing_contract [OF table_db_contract])
  show "schema_enforced strict_db fst" by (auto simp: schema_enforced_def strict_db_def refusing_def)
qed

definition long_request :: api_request where
  "long_request = \<lparr>ar_method = ''POST'', ar_query = [],
     ar_body = Some (JObj [(''event_id'', JStr ''e1''), (''user_id'', JStr (replicate 256 CHR ''u'')), (''event_type'', JStr ''signup'')])\<rparr>"

lemma long_admitted: "\<exists>e. admitted 5 long_request = Some e \<and> UserID e = replicate 256 CHR ''u''"
  by (simp add: admitted_def long_request_def decode_body_def decode_tracking_event_def tracking_fields_def find_field_def
      zero_tracking_event_def CheckGDPRConsent_def IsZero_def)

lemma long_user: "too_long 255 (replicate 256 CHR ''u'')"
proof -
  have "\<forall>c \<in> set (replicate 256 CHR ''u''). \<not> continues c" by (simp add: continues_def)
  then show ?thesis by (simp add: too_long_def drop_chars_ascii)
qed


end
