(* ===== verification/MockDb.thy ===== *)
theory MockDb
  imports PostgresServices
begin

text \<open>
  \<^verbatim>\<open>pkg/mockdb/mockdb.go\<close>: the SQL driver the tests register to inject faults, as a database in the
  sense of \<^verbatim>\<open>SqlDb\<close>. The package's variables are a record of faults; the driver has no other state
  than the index of a reader. Above it, \<^verbatim>\<open>database/sql\<close> prepares a statement and then runs it, and
  reads rows until the driver's \<^verbatim>\<open>Next\<close> gives an error, \<^verbatim>\<open>io.EOF\<close> being the end.
\<close>

section \<open>The driver\<close>

text \<open>
  \<^verbatim>\<open>strings.Contains(strings.ToLower(query), table)\<close>: the text of a statement names one table, and none
  has the name of another table anywhere else in its text.
\<close>

definition mentions :: "sql_statement \<Rightarrow> string \<Rightarrow> bool" where
  "mentions st table \<longleftrightarrow> table_of st = table"

record mock_faults =
  SimError :: "go_error option"
  NextError :: "go_error option"
  CommitError :: "go_error option"
  FailCRMDelete :: bool
  ExecError :: "go_error option"
  InvalidJSONPayload :: bool
  TriggerScanError :: bool

definition EOF :: go_error where
  "EOF = NewError ''EOF''"

definition mock_Prepare :: "mock_faults \<Rightarrow> go_error option" where
  "mock_Prepare f = SimError f"

definition mock_Begin :: "mock_faults \<Rightarrow> go_error option" where
  "mock_Begin f = SimError f"

definition mock_Exec :: "mock_faults \<Rightarrow> sql_statement \<Rightarrow> go_error option" where
  "mock_Exec f st =
     (case SimError f of
        Some err \<Rightarrow> Some err
      | None \<Rightarrow>
          (case ExecError f of
             Some err \<Rightarrow> Some err
           | None \<Rightarrow>
               if FailCRMDelete f \<and> mentions st ''crm_contacts'' then Some (NewError ''mock crm contacts delete error'')
               else None))"

definition mock_Query :: "mock_faults \<Rightarrow> go_error option" where
  "mock_Query f = SimError f"

definition mock_Commit :: "mock_faults \<Rightarrow> go_error option" where
  "mock_Commit f = CommitError f"

definition mock_RowsAffected :: int where
  "mock_RowsAffected = 1"

definition mock_Columns :: "sql_statement \<Rightarrow> string list" where
  "mock_Columns st =
     (if mentions st ''metrics_counters'' then [''metric_name'', ''counter_value'']
      else if mentions st ''crm_contacts'' then
        [''user_id'', ''email'', ''workflow_triggered'', ''sync_status'', ''synced_at'', ''retry_count'']
      else if mentions st ''privacy_logs'' then [''log_id'', ''user_id'', ''action'', ''timestamp'']
      else [''event_id'', ''user_id'', ''event_type'', ''ip_address'', ''user_agent'', ''payload'',
            ''timestamp'', ''gdpr_consent'', ''is_fraudulent'', ''fraud_score'', ''fraud_reason'', ''screened_at''])"

definition mock_names :: "string list" where
  "mock_names = [''total_received'', ''legitimate'', ''fraudulent'', ''crm_attempts'', ''crm_successes'', ''crm_failures'']"

definition bad_scan_value :: sql_value where
  "bad_scan_value = SqlText ''bad-scan-value''"

text \<open>\<^verbatim>\<open>Next\<close> at an index: an error, or a row; a row advances the index. \<open>now\<close> is the clock.\<close>

definition mock_Next :: "mock_faults \<Rightarrow> time \<Rightarrow> sql_statement \<Rightarrow> nat \<Rightarrow> go_error + sql_value list" where
  "mock_Next f now st index =
     (case NextError f of
        Some err \<Rightarrow> Inl err
      | None \<Rightarrow>
          if mentions st ''metrics_counters'' then
            if TriggerScanError f then
              if index > 0 then Inl EOF else Inr [SqlText ''total_received'', bad_scan_value]
            else if index \<ge> length mock_names then Inl EOF
            else Inr [SqlText (mock_names ! index), SqlInt 10]
          else if index > 0 then Inl EOF
          else if TriggerScanError f then Inr (map (\<lambda>c. bad_scan_value) (mock_Columns st))
          else if mentions st ''crm_contacts'' then
            Inr [SqlText ''usr_test'', SqlText ''test@example.com'', SqlText ''onboarding'', SqlText ''synced'',
                 SqlTime now, SqlInt 0]
          else if mentions st ''privacy_logs'' then
            Inr [SqlText ''log_1'', SqlText ''usr_test'', SqlText ''GDPR_PURGE'', SqlTime now]
          else
            Inr [SqlText ''ev_1'', SqlText ''usr_test'', SqlText ''signup'', SqlText ''1.2.3.4'', SqlText ''Mozilla'',
                 SqlJson (if InvalidJSONPayload f then None else Some (JObj [(''email'', JStr ''test@example.com'')])),
                 SqlTime now, SqlBool True, SqlBool False, SqlFloat 0, SqlText [], SqlTime now])"

lemma mock_Next_ends: "mock_Next f now st index = Inr r \<Longrightarrow> index < 6"
  by (auto simp: mock_Next_def mock_names_def split: option.splits if_splits)

text \<open>\<^verbatim>\<open>sql.Rows\<close> over this driver.\<close>

function mock_rows :: "mock_faults \<Rightarrow> time \<Rightarrow> sql_statement \<Rightarrow> nat \<Rightarrow> sql_rows" where
  "mock_rows f now st index =
     (case mock_Next f now st index of
        Inl err \<Rightarrow> ([], if err = EOF then None else Some err)
      | Inr r \<Rightarrow> (case mock_rows f now st (Suc index) of (rs, e) \<Rightarrow> (r # rs, e)))"
  by pat_completeness auto
termination
  by (relation "measure (\<lambda>(f, now, st, index). 7 - index)") (auto dest: mock_Next_ends)

declare mock_rows.simps [simp del]

definition mock_run :: "mock_faults \<Rightarrow> sql_statement \<Rightarrow> go_error + int" where
  "mock_run f st =
     (case mock_Prepare f of
        Some err \<Rightarrow> Inl err
      | None \<Rightarrow> (case mock_Exec f st of Some err \<Rightarrow> Inl err | None \<Rightarrow> Inr mock_RowsAffected))"

definition mock_db :: "mock_faults \<Rightarrow> time \<Rightarrow> unit sql_db" where
  "mock_db f now =
     \<lparr>db_exec = (\<lambda>st args d. (mock_run f st, d)),
      db_query = (\<lambda>st args d.
        case mock_Prepare f of
          Some err \<Rightarrow> Inl err
        | None \<Rightarrow> (case mock_Query f of Some err \<Rightarrow> Inl err | None \<Rightarrow> Inr (mock_rows f now st 0))),
      db_begin = (\<lambda>d. (mock_Begin f, d)),
      tx_exec = (\<lambda>st args d. (mock_run f st, d)),
      tx_commit = (\<lambda>d. (mock_Commit f, d)),
      tx_rollback = (\<lambda>d. d)\<rparr>"

definition no_faults :: mock_faults where
  "no_faults = \<lparr>SimError = None, NextError = None, CommitError = None, FailCRMDelete = False, ExecError = None,
     InvalidJSONPayload = False, TriggerScanError = False\<rparr>"

lemmas mock_defs = mock_db_def mock_run_def mock_Prepare_def mock_Begin_def mock_Exec_def mock_Query_def mock_Commit_def
  mock_RowsAffected_def

section \<open>What the faults do to the repositories\<close>

lemma mock_run_Inr: "mock_run f st = Inr n \<longleftrightarrow>
    n = 1 \<and> SimError f = None \<and> ExecError f = None \<and> \<not> (FailCRMDelete f \<and> table_of st = ''crm_contacts'')"
  by (auto simp: mock_defs mentions_def split: option.splits)

lemma mock_run_cases: "mock_run f st = Inr 1 \<or> (\<exists>err. mock_run f st = Inl err)"
  by (cases "mock_run f st") (use mock_run_Inr in auto)

lemma mock_rows_fault: "NextError f = Some err \<Longrightarrow> mock_rows f now st i = ([], if err = EOF then None else Some err)"
  by (simp add: mock_rows.simps mock_Next_def)

lemma mock_rows_one:
  assumes "NextError f = None" "table_of st \<noteq> ''metrics_counters''"
  shows "\<exists>r. mock_Next f now st 0 = Inr r \<and> mock_rows f now st 0 = ([r], None)"
proof -
  have "mock_rows f now st 1 = ([], None)"
    using assms by (simp add: mock_rows.simps mock_Next_def mentions_def)
  moreover have "\<exists>r. mock_Next f now st 0 = Inr r"
    using assms by (cases "TriggerScanError f"; cases "table_of st = ''crm_contacts''"; cases "table_of st = ''privacy_logs''")
      (simp_all add: mock_Next_def mentions_def)
  then obtain r where "mock_Next f now st 0 = Inr r" by blast
  ultimately show ?thesis by (simp add: mock_rows.simps [of f now st 0])
qed

lemmas read_simps = rows_result_def scan_event_def scan_columns_def scan_contact_def scan_log_def scan_string_def as_string_def
  scan_time_def scan_bool_def scan_float_def scan_bytes_def scan_int64_def

text \<open>A reader gets its rows, or what the faults leave of them.\<close>

lemma mock_query_eq:
  "db_query (mock_db f now) st args () =
     (case SimError f of Some err \<Rightarrow> Inl err | None \<Rightarrow> Inr (mock_rows f now st 0))"
  by (simp add: mock_defs split: option.split)

lemma mock_get_events:
  "(\<exists>evs. PgGetEventsByUserID (mock_db f now) sc u () = Inr evs) \<longleftrightarrow>
     SimError f = None \<and> (NextError f = Some EOF \<or> NextError f = None \<and> \<not> TriggerScanError f \<and> \<not> InvalidJSONPayload f)"
proof (cases "NextError f")
  case None
  obtain r where r: "mock_Next f now SelectEvents 0 = Inr r" "mock_rows f now SelectEvents 0 = ([r], None)"
    using mock_rows_one [OF None, of SelectEvents] by auto
  then show ?thesis
    using None r(1)
    by (cases "TriggerScanError f"; cases "InvalidJSONPayload f"; cases "SimError f")
      (auto simp: PgGetEventsByUserID_def mock_query_eq read_simps mock_Next_def mentions_def mock_Columns_def bad_scan_value_def
        zero_tracking_event_def)
qed (auto simp: PgGetEventsByUserID_def mock_query_eq mock_rows_fault rows_result_def split: option.splits)

lemma mock_get_contact:
  "(\<exists>c. PgGetCRMContact (mock_db f now) sc u () = Inr c) \<longleftrightarrow>
     SimError f = None \<and> NextError f = None \<and> \<not> TriggerScanError f"
proof (cases "NextError f")
  case None
  obtain r where r: "mock_Next f now SelectContact 0 = Inr r" "mock_rows f now SelectContact 0 = ([r], None)"
    using mock_rows_one [OF None, of SelectContact] by auto
  then show ?thesis
    using None r(1)
    by (cases "TriggerScanError f"; cases "SimError f")
      (auto simp: PgGetCRMContact_def query_row_def mock_query_eq read_simps mock_Next_def mentions_def mock_Columns_def
        bad_scan_value_def split: if_splits)
qed (auto simp: PgGetCRMContact_def query_row_def mock_query_eq mock_rows_fault split: option.splits if_splits)

lemma mock_get_logs:
  "(\<exists>ls. PgGetPrivacyLogsByUserID (mock_db f now) sc u () = Inr ls) \<longleftrightarrow>
     SimError f = None \<and> (NextError f = Some EOF \<or> NextError f = None \<and> \<not> TriggerScanError f)"
proof (cases "NextError f")
  case None
  obtain r where r: "mock_Next f now SelectLogs 0 = Inr r" "mock_rows f now SelectLogs 0 = ([r], None)"
    using mock_rows_one [OF None, of SelectLogs] by auto
  then show ?thesis
    using None r(1)
    by (cases "TriggerScanError f"; cases "SimError f")
      (auto simp: PgGetPrivacyLogsByUserID_def mock_query_eq read_simps mock_Next_def mentions_def mock_Columns_def
        bad_scan_value_def)
qed (auto simp: PgGetPrivacyLogsByUserID_def mock_query_eq mock_rows_fault rows_result_def split: option.splits)

lemma mock_rows_metrics:
  assumes "NextError f = None"
  shows "mock_rows f now SelectMetrics 0 =
    (if TriggerScanError f then [[SqlText ''total_received'', bad_scan_value]]
     else map (\<lambda>n. [SqlText n, SqlInt 10]) mock_names, None)"
proof (cases "TriggerScanError f")
  case True
  have "mock_rows f now SelectMetrics 1 = ([], None)"
    using assms True by (simp add: mock_rows.simps mock_Next_def mentions_def)
  with assms True show ?thesis
    by (simp add: mock_rows.simps [of f now SelectMetrics 0]) (simp add: mock_Next_def mentions_def)
next
  case False
  have step: "mock_rows f now SelectMetrics i =
      (if i \<ge> 6 then ([], None)
       else case mock_rows f now SelectMetrics (Suc i) of (rs, e) \<Rightarrow> ([SqlText (mock_names ! i), SqlInt 10] # rs, e))" for i
    using assms False by (subst mock_rows.simps) (simp add: mock_Next_def mentions_def mock_names_def)
  have "mock_rows f now SelectMetrics (6 - k) = (map (\<lambda>n. [SqlText n, SqlInt 10]) (drop (6 - k) mock_names), None)"
    if "k \<le> 6" for k
    using that
  proof (induction k)
    case 0
    then show ?case by (simp add: step [of 6] mock_names_def)
  next
    case (Suc k)
    then have "Suc (6 - Suc k) = 6 - k" "6 - Suc k < length mock_names" by (simp_all add: mock_names_def)
    with Suc show ?case by (subst step) (simp add: Cons_nth_drop_Suc [symmetric])
  qed
  from this [of 6] False show ?thesis by simp
qed

lemma mock_metrics:
  assumes "name \<in> set metric_names"
  shows "metric name (PgGetMetrics (mock_db f now) sc start t ()) =
    (if SimError f = None \<and> NextError f = None \<and> \<not> TriggerScanError f then 10 else 0)"
proof (cases "SimError f")
  case None
  have bad: "scan_int64 sc bad_scan_value = None"
    by (simp add: bad_scan_value_def scan_int64_def as_string_def parse_int64_def) code_simp
  have m: "metric name (PgGetMetrics (mock_db f now) sc start t ()) =
      metric name (fold (read_metric sc) (fst (mock_rows f now SelectMetrics 0)) zero_metrics)"
    using metric_PgGetMetrics [of "mock_db f now" "()" "mock_rows f now SelectMetrics 0"] None
    by (simp add: mock_query_eq)
  show ?thesis
  proof (cases "NextError f")
    case n: None
    have "metric name (fold (read_metric sc) (map (\<lambda>n. [SqlText n, SqlInt 10]) mock_names) zero_metrics) = 10"
      using metric_fold_read [OF assms, of mock_names sc "\<lambda>n. 10" zero_metrics] assms
      by (simp add: mock_names_def metric_names_def)
    moreover have "read_metric sc [SqlText ''total_received'', bad_scan_value] zero_metrics = zero_metrics"
      by (simp add: read_metric_def bad split: option.split)
    ultimately show ?thesis using None n by (simp add: m mock_rows_metrics [OF n])
  qed (simp add: m mock_rows_fault None)
qed (simp add: PgGetMetrics_def mock_query_eq)

section \<open>Properties\<close>

text \<open>
  Every fault a test injects surfaces: over the mock driver each operation of the repositories
  succeeds exactly when none of the faults that concern it is set. The counters have no way to report
  one: with a fault set they read zero.
\<close>
theorem mock_faults_surface:
  "(fst (PgSaveEvent (mock_db f now) e ()) = None \<longleftrightarrow> SimError f = None \<and> ExecError f = None) \<and>
   ((\<exists>evs. PgGetEventsByUserID (mock_db f now) sc u () = Inr evs) \<longleftrightarrow> SimError f = None \<and>
      (NextError f = Some EOF \<or> NextError f = None \<and> \<not> TriggerScanError f \<and> \<not> InvalidJSONPayload f)) \<and>
   (fst (PgDeleteUserEvents (mock_db f now) u ()) = Inr 2 \<longleftrightarrow>
      SimError f = None \<and> ExecError f = None \<and> \<not> FailCRMDelete f \<and> CommitError f = None) \<and>
   (fst (PgSaveCRMContact (mock_db f now) c ()) = None \<longleftrightarrow>
      SimError f = None \<and> ExecError f = None \<and> \<not> FailCRMDelete f) \<and>
   ((\<exists>c. PgGetCRMContact (mock_db f now) sc u () = Inr c) \<longleftrightarrow>
      SimError f = None \<and> NextError f = None \<and> \<not> TriggerScanError f) \<and>
   (fst (PgDeleteCRMContact (mock_db f now) u ()) = None \<longleftrightarrow>
      SimError f = None \<and> ExecError f = None \<and> \<not> FailCRMDelete f) \<and>
   (fst (PgSavePrivacyLog (mock_db f now) l ()) = None \<longleftrightarrow> SimError f = None \<and> ExecError f = None) \<and>
   ((\<exists>ls. PgGetPrivacyLogsByUserID (mock_db f now) sc u () = Inr ls) \<longleftrightarrow> SimError f = None \<and>
      (NextError f = Some EOF \<or> NextError f = None \<and> \<not> TriggerScanError f)) \<and>
   metric ''total_received'' (PgGetMetrics (mock_db f now) sc start t ()) =
     (if SimError f = None \<and> NextError f = None \<and> \<not> TriggerScanError f then 10 else 0)"
proof (intro conjI)
  show "fst (PgSaveEvent (mock_db f now) e ()) = None \<longleftrightarrow> SimError f = None \<and> ExecError f = None"
    "fst (PgSavePrivacyLog (mock_db f now) l ()) = None \<longleftrightarrow> SimError f = None \<and> ExecError f = None"
    by (simp_all add: PgSaveEvent_def PgSavePrivacyLog_def MarshalPayload_def mock_defs mentions_def split: option.split)
  show "fst (PgSaveCRMContact (mock_db f now) c ()) = None \<longleftrightarrow> SimError f = None \<and> ExecError f = None \<and> \<not> FailCRMDelete f"
    "fst (PgDeleteCRMContact (mock_db f now) u ()) = None \<longleftrightarrow> SimError f = None \<and> ExecError f = None \<and> \<not> FailCRMDelete f"
    by (simp_all add: PgSaveCRMContact_def PgDeleteCRMContact_def mock_defs mentions_def split: option.split)
  show "fst (PgDeleteUserEvents (mock_db f now) u ()) = Inr 2 \<longleftrightarrow>
      SimError f = None \<and> ExecError f = None \<and> \<not> FailCRMDelete f \<and> CommitError f = None"
    by (auto simp: PgDeleteUserEvents_def mock_defs mentions_def wrap64_def split: option.splits)
qed (simp_all add: mock_get_events mock_get_contact mock_get_logs mock_metrics metric_names_def)

text \<open>The driver is no database: it forgets what is saved, so no tables explain its answers.\<close>

lemma mock_is_no_postgres: "\<not> pg_contract (mock_db no_faults now) keep view tx"
proof
  assume c: "pg_contract (mock_db no_faults now) keep view tx"
  have ok: "db_exec (mock_db no_faults now) st args () = (Inr 1, ())" for st args
    by (simp add: mock_defs no_faults_def)
  have eq: "(view (), 1) = pg_apply keep InsertLog [SqlNull] (view ())"
    by (rule pg_contractD(1) [OF c ok])
  have "\<not> has_key SqlNull (pv_logs (view ()))"
    using arg_cong [OF eq, of snd] by (auto simp: insert_new_def)
  then have "length (pv_logs (view ())) = length (pv_logs (view ())) + 1"
    using arg_cong [OF eq, of "\<lambda>p. length (pv_logs (fst p))"] by (simp add: insert_new_def)
  then show False by simp
qed

end
