(* ===== verification/RedisBroker.thy ===== *)
theory RedisBroker
  imports Broker EventsJson
begin

text \<open>
  \<^verbatim>\<open>pkg/broker/redis.go\<close>: the broker over Redis publish/subscribe. The client library and the
  server are not part of the sources: the answers of \<^verbatim>\<open>redis.ParseURL\<close>, \<^verbatim>\<open>Ping\<close>, \<^verbatim>\<open>Publish\<close> and
  \<^verbatim>\<open>client.Close\<close> are arguments, and a message arrives at a subscription in a step of its own. A
  message is the JSON document it holds, or \<^const>\<open>None\<close> for a text that is not JSON.
\<close>

section \<open>The connection\<close>

definition PingRetries :: int where "PingRetries = 10"
definition PingDelay :: duration where "PingDelay = 1 * Second"

text \<open>The loop over the attempts from \<open>a\<close>, \<open>n\<close> of them left: \<^verbatim>\<open>pingErr\<close> and the sleeps.\<close>

fun ping_loop :: "(nat \<Rightarrow> go_error option) \<Rightarrow> nat \<Rightarrow> nat \<Rightarrow> go_error option \<Rightarrow> duration list \<Rightarrow> go_error option \<times> duration list" where
  "ping_loop ping a 0 pingErr sleeps = (pingErr, sleeps)"
| "ping_loop ping a (Suc n) pingErr sleeps =
     (case ping a of
        None \<Rightarrow> (None, sleeps)
      | Some err \<Rightarrow> ping_loop ping (Suc a) n (Some err) (sleeps @ [PingDelay]))"

section \<open>Subscriptions\<close>

text \<open>
  A subscription: the messages waiting in \<^verbatim>\<open>redisCh\<close> and whether it is closed, what the
  goroutine that forwards them is doing, and the Go channel the subscriber was given.
\<close>

datatype 'e forwarder = Waiting | Holding 'e | Stopped

record 'e redis_sub =
  rs_inbox :: "json option list"
  rs_ended :: bool
  rs_task :: "'e forwarder"
  rs_chan :: "'e chan"

definition new_sub :: "int \<Rightarrow> 'e redis_sub" where
  "new_sub n = \<lparr>rs_inbox = [], rs_ended = False, rs_task = Waiting, rs_chan = make_chan n\<rparr>"

text \<open>The deferred calls of the goroutine: \<^verbatim>\<open>close(ch)\<close>, then \<^verbatim>\<open>pubsub.Close()\<close>.\<close>

definition stop_forwarder :: "'e redis_sub \<Rightarrow> 'e redis_sub outcome" where
  "stop_forwarder s =
     (if ch_closed (rs_chan s) then Panic ''close of closed channel''
      else Ret (s\<lparr>rs_task := Stopped, rs_chan := (rs_chan s)\<lparr>ch_closed := True\<rparr>, rs_ended := True\<rparr>))"

text \<open>\<^verbatim>\<open>json.Unmarshal\<close>: a message that is no JSON or does not fit the struct is logged and skipped.\<close>

definition unmarshal :: "(json \<Rightarrow> 'e option) \<Rightarrow> json option \<Rightarrow> 'e option" where
  "unmarshal d m = (case m of None \<Rightarrow> None | Some doc \<Rightarrow> d doc)"

text \<open>
  The next thing the goroutine does, \<^const>\<open>None\<close> while both cases of its \<^verbatim>\<open>select\<close> block. \<open>env\<close>
  says whether the context is done and which ready case the runtime picks.
\<close>

definition forward_step :: "(json \<Rightarrow> 'e option) \<Rightarrow> select_env \<Rightarrow> 'e redis_sub \<Rightarrow> 'e redis_sub outcome option" where
  "forward_step d env s =
     (case rs_task s of
        Stopped \<Rightarrow> None
      | Waiting \<Rightarrow>
          if se_done env \<noteq> None \<and> (rs_inbox s = [] \<and> \<not> rs_ended s \<or> \<not> se_pick_send env) then Some (stop_forwarder s)
          else (case rs_inbox s of
                  m # q \<Rightarrow>
                    Some (Ret (s\<lparr>rs_inbox := q,
                      rs_task := (case unmarshal d m of None \<Rightarrow> Waiting | Some ev \<Rightarrow> Holding ev)\<rparr>))
                | [] \<Rightarrow> if rs_ended s then Some (stop_forwarder s) else None)
      | Holding ev \<Rightarrow>
          if send_ready (rs_chan s) \<and> (se_done env = None \<or> se_pick_send env) then
            if ch_closed (rs_chan s) then Some (Panic ''send on closed channel'')
            else Some (Ret (s\<lparr>rs_task := Waiting, rs_chan := (rs_chan s)\<lparr>ch_buf := ch_buf (rs_chan s) @ [ev]\<rparr>\<rparr>))
          else if se_done env \<noteq> None then Some (stop_forwarder s)
          else None)"

section \<open>The broker\<close>

text \<open>\<^verbatim>\<open>pubsubs\<close> holds the subscriptions of both topics; here they are two lists.\<close>

record redis_broker =
  rb_raw :: "tracking_event redis_sub list"
  rb_screened :: "screened_event redis_sub list"
  rb_closed :: bool
  rb_bufferSize :: int

definition NewRedisBroker :: "go_error option \<Rightarrow> (nat \<Rightarrow> go_error option) \<Rightarrow> int \<Rightarrow> (go_error + redis_broker) \<times> duration list" where
  "NewRedisBroker parseErr ping n =
     (case parseErr of
        Some err \<Rightarrow> (Inl (Wrapped ''failed to parse redis URL'' err), [])
      | None \<Rightarrow>
          (case ping_loop ping 0 (nat PingRetries) None [] of
             (Some err, sleeps) \<Rightarrow> (Inl (Wrapped ''failed to ping redis'' err), sleeps)
           | (None, sleeps) \<Rightarrow>
               (Inr \<lparr>rb_raw = [], rb_screened = [], rb_closed = False,
                     rb_bufferSize = (if n \<le> 0 then 10000 else n)\<rparr>, sleeps)))"

text \<open>
  \<^verbatim>\<open>json.Marshal\<close> of an event. It fails when an instant has no RFC 3339 text (a year beyond
  9999); \<open>show_time\<close> answers with that error or with the text.
\<close>

type_synonym time_text = "time \<Rightarrow> go_error + string"

definition text_of :: "time_text \<Rightarrow> time \<Rightarrow> string" where
  "text_of show_time t = (case show_time t of Inl err \<Rightarrow> [] | Inr s \<Rightarrow> s)"

definition MarshalRaw :: "time_text \<Rightarrow> tracking_event \<Rightarrow> go_error + json" where
  "MarshalRaw show_time e =
     (case show_time (Timestamp e) of
        Inl err \<Rightarrow> Inl err
      | Inr s \<Rightarrow> Inr (encode_tracking_event (text_of show_time) e))"

definition MarshalScreened :: "time_text \<Rightarrow> screened_event \<Rightarrow> go_error + json" where
  "MarshalScreened show_time se =
     (case (show_time (Timestamp (Tracking se)), show_time (ScreenedAt se)) of
        (Inl err, _) \<Rightarrow> Inl err
      | (_, Inl err) \<Rightarrow> Inl err
      | (Inr _, Inr _) \<Rightarrow> Inr (encode_screened_event (text_of show_time) se))"

text \<open>A publication: the error it returns, and the message it has handed to the client, if any.\<close>

definition RedisPublishRaw ::
  "time_text \<Rightarrow> go_error option \<Rightarrow> tracking_event \<Rightarrow> redis_broker \<Rightarrow> go_error option \<times> json option" where
  "RedisPublishRaw show_time result event r =
     (if rb_closed r then (Some broker_is_closed, None)
      else case MarshalRaw show_time event of
        Inl err \<Rightarrow> (Some (Wrapped ''failed to marshal raw event'' err), None)
      | Inr data \<Rightarrow> (result, Some data))"

definition RedisPublishScreened ::
  "time_text \<Rightarrow> go_error option \<Rightarrow> screened_event \<Rightarrow> redis_broker \<Rightarrow> go_error option \<times> json option" where
  "RedisPublishScreened show_time result event r =
     (if rb_closed r then (Some broker_is_closed, None)
      else case MarshalScreened show_time event of
        Inl err \<Rightarrow> (Some (Wrapped ''failed to marshal screened event'' err), None)
      | Inr data \<Rightarrow> (result, Some data))"

definition RedisSubscribeRaw :: "redis_broker \<Rightarrow> (go_error + nat) \<times> redis_broker" where
  "RedisSubscribeRaw r =
     (if rb_closed r then (Inl broker_is_closed, r)
      else (Inr (length (rb_raw r)), r\<lparr>rb_raw := rb_raw r @ [new_sub (rb_bufferSize r)]\<rparr>))"

definition RedisSubscribeScreened :: "redis_broker \<Rightarrow> (go_error + nat) \<times> redis_broker" where
  "RedisSubscribeScreened r =
     (if rb_closed r then (Inl broker_is_closed, r)
      else (Inr (length (rb_screened r)), r\<lparr>rb_screened := rb_screened r @ [new_sub (rb_bufferSize r)]\<rparr>))"

text \<open>\<^verbatim>\<open>Close\<close> ends every subscription; what waits in \<^verbatim>\<open>redisCh\<close> can still be taken.\<close>

definition RedisClose :: "go_error option \<Rightarrow> redis_broker \<Rightarrow> go_error option \<times> redis_broker" where
  "RedisClose result r =
     (if rb_closed r then (None, r)
      else (result, r\<lparr>rb_closed := True, rb_raw := map (rs_ended_update (\<lambda>_. True)) (rb_raw r),
                      rb_screened := map (rs_ended_update (\<lambda>_. True)) (rb_screened r)\<rparr>))"

section \<open>Runs\<close>

text \<open>
  The steps of one subscription, labelled with the messages that arrive and the events the
  subscriber takes: a message arrives while \<^verbatim>\<open>redisCh\<close> is open, the goroutine does its
  next thing, the subscriber receives from its channel.
\<close>

fun received_events :: "'e received \<Rightarrow> 'e list" where
  "received_events (Received e) = [e]"
| "received_events _ = []"

inductive sub_step :: "(json \<Rightarrow> 'e option) \<Rightarrow> 'e redis_sub \<Rightarrow> json option list \<times> 'e list \<Rightarrow> 'e redis_sub \<Rightarrow> bool" for d where
  sub_arrive: "\<not> rs_ended s \<Longrightarrow> sub_step d s ([m], []) (s\<lparr>rs_inbox := rs_inbox s @ [m]\<rparr>)"
| sub_forward: "forward_step d env s = Some (Ret s') \<Longrightarrow> sub_step d s ([], []) s'"
| sub_receive: "chan_recv (rs_chan s) = (v, ch) \<Longrightarrow> sub_step d s ([], received_events v) (s\<lparr>rs_chan := ch\<rparr>)"

datatype redis_op =
    RdPublishRaw tracking_event "go_error option" "json option"
  | RdPublishScreened screened_event "go_error option" "json option"
  | RdSubscribeRaw "go_error + nat"
  | RdSubscribeScreened "go_error + nat"
  | RdRaw nat "json option list \<times> tracking_event list"
  | RdScreened nat "json option list \<times> screened_event list"
  | RdClose "go_error option"

inductive redis_step :: "time_text \<Rightarrow> redis_broker \<Rightarrow> redis_op \<Rightarrow> redis_broker \<Rightarrow> bool" for show_time where
  rd_publish_raw: "RedisPublishRaw show_time result e r = (ans, msg) \<Longrightarrow> redis_step show_time r (RdPublishRaw e ans msg) r"
| rd_publish_screened:
    "RedisPublishScreened show_time result se r = (ans, msg) \<Longrightarrow> redis_step show_time r (RdPublishScreened se ans msg) r"
| rd_subscribe_raw: "RedisSubscribeRaw r = (a, r') \<Longrightarrow> redis_step show_time r (RdSubscribeRaw a) r'"
| rd_subscribe_screened: "RedisSubscribeScreened r = (a, r') \<Longrightarrow> redis_step show_time r (RdSubscribeScreened a) r'"
| rd_raw: "i < length (rb_raw r) \<Longrightarrow> sub_step decode_tracking_event (rb_raw r ! i) l s \<Longrightarrow>
    redis_step show_time r (RdRaw i l) (r\<lparr>rb_raw := (rb_raw r)[i := s]\<rparr>)"
| rd_screened: "i < length (rb_screened r) \<Longrightarrow> sub_step decode_screened_event (rb_screened r ! i) l' s' \<Longrightarrow>
    redis_step show_time r (RdScreened i l') (r\<lparr>rb_screened := (rb_screened r)[i := s']\<rparr>)"
| rd_close: "RedisClose result r = (ans, r') \<Longrightarrow> redis_step show_time r (RdClose ans) r'"

inductive_simps redis_step_simps:
  "redis_step show_time r (RdPublishRaw e ans msg) r'" "redis_step show_time r (RdPublishScreened se ans msg) r'"
  "redis_step show_time r (RdSubscribeRaw a) r'" "redis_step show_time r (RdSubscribeScreened a) r'"
  "redis_step show_time r (RdRaw i l) r'" "redis_step show_time r (RdScreened i l') r'"
  "redis_step show_time r (RdClose ans) r'"

section \<open>One subscription\<close>

text \<open>The goroutine has returned exactly when it has closed the channel; the channel respects its capacity.\<close>

definition sub_wf :: "int \<Rightarrow> 'e redis_sub \<Rightarrow> bool" where
  "sub_wf n s \<longleftrightarrow> (ch_closed (rs_chan s) \<longleftrightarrow> rs_task s = Stopped) \<and> (rs_task s = Stopped \<longrightarrow> rs_ended s) \<and>
     ch_cap (rs_chan s) = nat n \<and> length (ch_buf (rs_chan s)) \<le> nat n"

definition decoded :: "(json \<Rightarrow> 'e option) \<Rightarrow> json option list \<Rightarrow> 'e list" where
  "decoded d ms = List.map_filter (unmarshal d) ms"

definition held :: "'e forwarder \<Rightarrow> 'e list" where
  "held t = (case t of Holding e \<Rightarrow> [e] | _ \<Rightarrow> [])"

text \<open>What is still on its way to the subscriber.\<close>

definition in_flight :: "(json \<Rightarrow> 'e option) \<Rightarrow> 'e redis_sub \<Rightarrow> 'e list" where
  "in_flight d s = ch_buf (rs_chan s) @ held (rs_task s) @ (if rs_task s = Stopped then [] else decoded d (rs_inbox s))"

lemma decoded_simps [simp]:
  "decoded d [] = []" "decoded d (ms @ ms') = decoded d ms @ decoded d ms'"
  "decoded d (m # ms) = (case unmarshal d m of None \<Rightarrow> decoded d ms | Some e \<Rightarrow> e # decoded d ms)"
  by (simp_all add: decoded_def List.map_filter_def split: option.splits)

lemma held_simps [simp]: "held Waiting = []" "held Stopped = []" "held (Holding e) = [e]"
  by (simp_all add: held_def)

lemma new_sub_ok: "sub_wf n (new_sub n)" "in_flight d (new_sub n) = []"
  by (simp_all add: sub_wf_def new_sub_def make_chan_def in_flight_def)

text \<open>The goroutine never panics, keeps the order, and loses events only by returning.\<close>

lemma forward_step_ok:
  assumes "sub_wf n s" "forward_step d env s = Some out"
  shows "\<exists>s'. out = Ret s' \<and> sub_wf n s' \<and> rs_task s \<noteq> Stopped \<and> prefix (in_flight d s') (in_flight d s) \<and>
    (rs_task s' \<noteq> Stopped \<longrightarrow> in_flight d s' = in_flight d s)"
proof -
  have wf: "ch_closed (rs_chan s) \<longleftrightarrow> rs_task s = Stopped" "ch_cap (rs_chan s) = nat n" "length (ch_buf (rs_chan s)) \<le> nat n"
    using assms(1) by (auto simp: sub_wf_def)
  have live: "rs_task s \<noteq> Stopped" using assms(2) by (auto simp: forward_step_def)
  then have stop: "stop_forwarder s = Ret (s\<lparr>rs_task := Stopped, rs_chan := (rs_chan s)\<lparr>ch_closed := True\<rparr>, rs_ended := True\<rparr>)"
    by (simp add: stop_forwarder_def wf)
  show ?thesis
  proof (cases "out = stop_forwarder s")
    case True
    with live wf show ?thesis by (simp add: stop sub_wf_def in_flight_def)
  next
    case False
    show ?thesis
    proof (cases "rs_task s")
      case Waiting
      with assms(2) False wf show ?thesis
        by (cases "rs_inbox s")
          (auto simp: forward_step_def sub_wf_def in_flight_def split: if_splits option.splits)
    next
      case (Holding e)
      with assms(2) False wf show ?thesis
        by (auto simp: forward_step_def sub_wf_def in_flight_def send_ready_def split: if_splits)
    qed (use live in simp)
  qed
qed

lemma sub_step_ok:
  assumes "sub_step d s (a, t) s'" "sub_wf n s"
  shows "sub_wf n s' \<and> prefix (t @ in_flight d s') (in_flight d s @ decoded d a) \<and>
    (rs_task s' \<noteq> Stopped \<longrightarrow> t @ in_flight d s' = in_flight d s @ decoded d a) \<and>
    (rs_task s = Stopped \<longrightarrow> rs_task s' = Stopped \<and> a = [])"
  using assms(1)
proof (cases rule: sub_step.cases)
  case (sub_arrive m)
  with assms(2) show ?thesis by (auto simp: sub_wf_def in_flight_def)
next
  case (sub_forward env)
  from forward_step_ok [OF assms(2) sub_forward(3)] sub_forward(1,2) show ?thesis by auto
next
  case (sub_receive v ch)
  with assms(2) show ?thesis
    by (cases "ch_buf (rs_chan s)") (auto simp: sub_wf_def in_flight_def split: if_splits)
qed

text \<open>The history of a subscription: what arrived, what was taken, and what is still on its way.\<close>

definition sub_history :: "(json \<Rightarrow> 'e option) \<Rightarrow> int \<Rightarrow> json option list \<Rightarrow> 'e list \<Rightarrow> 'e redis_sub \<Rightarrow> bool" where
  "sub_history d n arr tak s \<longleftrightarrow> sub_wf n s \<and> prefix (tak @ in_flight d s) (decoded d arr) \<and>
     (rs_task s \<noteq> Stopped \<longrightarrow> tak @ in_flight d s = decoded d arr)"

lemma sub_history_step:
  assumes "sub_history d n arr tak s" "sub_step d s (a, t) s'"
  shows "sub_history d n (arr @ a) (tak @ t) s'"
proof (cases "rs_task s = Stopped")
  case True
  have wf: "sub_wf n s" using assms(1) by (simp add: sub_history_def)
  have st: "sub_wf n s'" "prefix (t @ in_flight d s') (in_flight d s)" "rs_task s' = Stopped" "a = []"
    using sub_step_ok [OF assms(2) wf] True by auto
  have "prefix (tak @ t @ in_flight d s') (tak @ in_flight d s)" using st(2) by simp
  also have "prefix (tak @ in_flight d s) (decoded d arr)" using assms(1) by (simp add: sub_history_def)
  finally show ?thesis using st by (simp add: sub_history_def)
next
  case False
  then have "tak @ in_flight d s = decoded d arr" using assms(1) by (simp add: sub_history_def)
  then have "decoded d (arr @ a) = tak @ in_flight d s @ decoded d a" by simp
  with sub_step_ok [OF assms(2), of n] assms(1) show ?thesis by (auto simp: sub_history_def)
qed

lemma sub_history_end: "sub_history d n arr tak s \<Longrightarrow> sub_history d n arr tak (s\<lparr>rs_ended := True\<rparr>)"
  by (auto simp: sub_history_def sub_wf_def in_flight_def)

section \<open>All subscriptions of a broker\<close>

fun raw_label :: "nat \<Rightarrow> redis_op \<Rightarrow> json option list \<times> tracking_event list" where
  "raw_label i (RdRaw j l) = (if i = j then l else ([], []))"
| "raw_label i _ = ([], [])"

fun screened_label :: "nat \<Rightarrow> redis_op \<Rightarrow> json option list \<times> screened_event list" where
  "screened_label i (RdScreened j l) = (if i = j then l else ([], []))"
| "screened_label i _ = ([], [])"

text \<open>What arrived at a subscription and what its subscriber has taken.\<close>

definition arrived :: "(nat \<Rightarrow> redis_op \<Rightarrow> json option list \<times> 'e list) \<Rightarrow> nat \<Rightarrow> redis_op list \<Rightarrow> json option list" where
  "arrived label i ops = concat (map (fst \<circ> label i) ops)"

definition taken_by :: "(nat \<Rightarrow> redis_op \<Rightarrow> json option list \<times> 'e list) \<Rightarrow> nat \<Rightarrow> redis_op list \<Rightarrow> 'e list" where
  "taken_by label i ops = concat (map (snd \<circ> label i) ops)"

lemma history_simps [simp]:
  "arrived label i [] = []" "taken_by label i [] = []"
  "arrived label i (ops @ [op]) = arrived label i ops @ fst (label i op)"
  "taken_by label i (ops @ [op]) = taken_by label i ops @ snd (label i op)"
  by (simp_all add: arrived_def taken_by_def)

definition histories ::
  "(nat \<Rightarrow> redis_op \<Rightarrow> json option list \<times> 'e list) \<Rightarrow> (json \<Rightarrow> 'e option) \<Rightarrow> int \<Rightarrow> redis_op list \<Rightarrow> 'e redis_sub list \<Rightarrow> bool" where
  "histories label d n ops subs \<longleftrightarrow>
     (\<forall>i. if i < length subs then sub_history d n (arrived label i ops) (taken_by label i ops) (subs ! i)
          else arrived label i ops = [] \<and> taken_by label i ops = [])"

lemma histories_idle:
  "histories label d n ops subs \<Longrightarrow> (\<And>i. label i op = ([], [])) \<Longrightarrow> histories label d n (ops @ [op]) subs"
  by (simp add: histories_def)

lemma histories_new:
  assumes "histories label d n ops subs" "\<And>i. label i op = ([], [])"
  shows "histories label d n (ops @ [op]) (subs @ [new_sub n])"
proof -
  have "sub_history d n [] [] (new_sub n)" by (simp add: sub_history_def new_sub_ok)
  with assms show ?thesis
    by (auto simp: histories_def nth_append less_Suc_eq not_less)
qed

lemma histories_end:
  "histories label d n ops subs \<Longrightarrow> (\<And>i. label i op = ([], [])) \<Longrightarrow>
   histories label d n (ops @ [op]) (map (rs_ended_update (\<lambda>_. True)) subs)"
  by (auto simp: histories_def intro: sub_history_end)

lemma histories_sub:
  assumes "histories label d n ops subs" "i < length subs" "sub_step d (subs ! i) l s"
    and "\<And>j. label j op = (if j = i then l else ([], []))"
  shows "histories label d n (ops @ [op]) (subs[i := s])"
proof -
  have "sub_history d n (arrived label i ops @ fst l) (taken_by label i ops @ snd l) s"
    using assms(1-3) sub_history_step [of d n _ _ "subs ! i" "fst l" "snd l" s] by (auto simp: histories_def)
  with assms(1,2,4) show ?thesis
    by (auto simp: histories_def nth_list_update)
qed

definition redis_history :: "int \<Rightarrow> redis_op list \<Rightarrow> redis_broker \<Rightarrow> bool" where
  "redis_history n ops r \<longleftrightarrow> rb_bufferSize r = n \<and> histories raw_label decode_tracking_event n ops (rb_raw r) \<and>
     histories screened_label decode_screened_event n ops (rb_screened r)"

lemma redis_history_step:
  assumes "redis_history n ops r" "redis_step show_time r op r'"
  shows "redis_history n (ops @ [op]) r'"
  using assms(2,1)
proof (induction rule: redis_step.induct)
  case (rd_subscribe_raw r a r')
  then show ?case
    by (auto simp: redis_history_def RedisSubscribeRaw_def histories_idle histories_new split: if_splits)
next
  case (rd_subscribe_screened r a r')
  then show ?case
    by (auto simp: redis_history_def RedisSubscribeScreened_def histories_idle histories_new split: if_splits)
next
  case (rd_raw i r l s)
  then show ?case by (auto simp: redis_history_def histories_idle intro!: histories_sub)
next
  case (rd_screened i r l' s')
  then show ?case by (auto simp: redis_history_def histories_idle intro!: histories_sub)
next
  case (rd_close result r ans r')
  then show ?case
    by (auto simp: redis_history_def RedisClose_def histories_idle histories_end split: if_splits)
qed (auto simp: redis_history_def histories_idle)

lemma redis_history_run:
  assumes "NewRedisBroker parseErr ping n = (Inr r0, sleeps)" "run (redis_step show_time) r0 ops r"
  shows "redis_history (rb_bufferSize r0) ops r"
proof -
  have "rb_raw r0 = []" "rb_screened r0 = []"
    using assms(1) by (auto simp: NewRedisBroker_def split: option.splits prod.splits)
  then have "redis_history (rb_bufferSize r0) [] r0"
    by (simp add: redis_history_def histories_def)
  then show ?thesis
    using run_history [OF assms(2), of "redis_history (rb_bufferSize r0)"] redis_history_step by blast
qed

section \<open>What Redis promises, and what subscribers get\<close>

text \<open>The events of a run whose message was handed to the client, with that message.\<close>

fun raw_sent :: "redis_op \<Rightarrow> (tracking_event \<times> json) list" where
  "raw_sent (RdPublishRaw e ans (Some doc)) = [(e, doc)]"
| "raw_sent _ = []"

fun screened_sent :: "redis_op \<Rightarrow> (screened_event \<times> json) list" where
  "screened_sent (RdPublishScreened se ans (Some doc)) = [(se, doc)]"
| "screened_sent _ = []"

definition sent_by :: "(redis_op \<Rightarrow> ('e \<times> json) list) \<Rightarrow> redis_op list \<Rightarrow> ('e \<times> json) list" where
  "sent_by f ops = concat (map f ops)"

text \<open>
  Redis publish/subscribe delivers at most once and in the order of publication: what arrives at a
  subscription is a subsequence of the messages published on its channel.
\<close>

definition at_most_once_in_order :: "nat \<Rightarrow> redis_op list \<Rightarrow> bool" where
  "at_most_once_in_order i ops \<longleftrightarrow>
     subseq (arrived raw_label i ops) (map (Some \<circ> snd) (sent_by raw_sent ops)) \<and>
     subseq (arrived screened_label i ops) (map (Some \<circ> snd) (sent_by screened_sent ops))"

lemma decoded_subseq: "subseq xs ys \<Longrightarrow> subseq (decoded d xs) (decoded d ys)"
  unfolding decoded_def List.map_filter_def by (intro subseq_map subseq_filter)

lemma decoded_sent:
  "\<forall>ed \<in> set eds. d (snd ed) = Some (f (fst ed)) \<Longrightarrow> decoded d (map (Some \<circ> snd) eds) = map (f \<circ> fst) eds"
  by (induction eds) (simp_all add: unmarshal_def)

lemma delivered:
  assumes "histories label d n ops subs" "subseq (arrived label i ops) (map (Some \<circ> snd) eds)"
    and "\<forall>ed \<in> set eds. d (snd ed) = Some (f (fst ed))"
  shows "subseq (taken_by label i ops @ buffered (map rs_chan subs) i) (map (f \<circ> fst) eds)"
proof -
  have "subseq (decoded d (arrived label i ops)) (map (f \<circ> fst) eds)"
    using decoded_subseq [OF assms(2), of d] decoded_sent [OF assms(3)] by simp
  moreover have "subseq (taken_by label i ops @ buffered (map rs_chan subs) i) (decoded d (arrived label i ops))"
  proof (cases "i < length subs")
    case True
    then have "prefix (taken_by label i ops @ in_flight d (subs ! i)) (decoded d (arrived label i ops))"
      using spec [OF assms(1) [unfolded histories_def], of i] by (simp add: sub_history_def)
    moreover have "prefix (taken_by label i ops @ ch_buf (rs_chan (subs ! i))) (taken_by label i ops @ in_flight d (subs ! i))"
      by (simp add: in_flight_def)
    ultimately have "prefix (taken_by label i ops @ ch_buf (rs_chan (subs ! i))) (decoded d (arrived label i ops))"
      by (rule prefix_order.trans [rotated])
    with True show ?thesis by (simp add: buffered_def prefix_imp_subseq)
  next
    case False
    with assms(1) show ?thesis by (auto simp: histories_def buffered_def)
  qed
  ultimately show ?thesis by (rule subseq_order.trans [rotated])
qed

text \<open>What was handed to the client is read back as the event it was made from.\<close>

lemma sent_messages:
  assumes "run (redis_step show_time) r0 ops r"
  shows "ed \<in> set (sent_by raw_sent ops) \<Longrightarrow> MarshalRaw show_time (fst ed) = Inr (snd ed)"
    and "sd \<in> set (sent_by screened_sent ops) \<Longrightarrow> MarshalScreened show_time (fst sd) = Inr (snd sd)"
  using assms
proof (induction rule: run.induct)
  case (run_cons s op s1 ops s')
  from run_cons.hyps(1) have "ed \<in> set (raw_sent op) \<Longrightarrow> MarshalRaw show_time (fst ed) = Inr (snd ed)"
    and "sd \<in> set (screened_sent op) \<Longrightarrow> MarshalScreened show_time (fst sd) = Inr (snd sd)"
    by (cases rule: redis_step.cases;
        force simp: RedisPublishRaw_def RedisPublishScreened_def split: if_splits sum.splits option.splits)+
  with run_cons.IH show
    "ed \<in> set (sent_by raw_sent (op # ops)) \<Longrightarrow> MarshalRaw show_time (fst ed) = Inr (snd ed)"
    "sd \<in> set (sent_by screened_sent (op # ops)) \<Longrightarrow> MarshalScreened show_time (fst sd) = Inr (snd sd)"
    by (auto simp: sent_by_def)
qed (simp_all add: sent_by_def)

lemma MarshalRaw_read_back:
  "MarshalRaw show_time e = Inr doc \<Longrightarrow> time_text_ok (text_of show_time) (Timestamp e) \<Longrightarrow> go_payload (Payload e) \<Longrightarrow>
   decode_tracking_event doc = Some (canonical_event e)"
  by (auto simp: MarshalRaw_def decode_encode_tracking split: sum.splits)

definition canonical_screened :: "screened_event \<Rightarrow> screened_event" where
  "canonical_screened se = se\<lparr>Tracking := canonical_event (Tracking se)\<rparr>"

lemma MarshalScreened_read_back:
  "MarshalScreened show_time se = Inr doc \<Longrightarrow> screened_ok (text_of show_time) se \<Longrightarrow>
   decode_screened_event doc = Some (canonical_screened se)"
  by (auto simp: MarshalScreened_def decode_encode_screened canonical_screened_def split: sum.splits)

section \<open>Properties\<close>

text \<open>
  C31: The Redis broker delivers in order, on both topics: if Redis delivers at most once and in
  order, and the published events have instants with an RFC 3339 text and payloads decoded from JSON,
  then what a subscriber has received followed by what waits in its channel is a subsequence of
  the published events, each unchanged but for the order of its payload's keys.
\<close>
theorem redis_delivers_in_order:
  assumes "NewRedisBroker parseErr ping n = (Inr r0, sleeps)" "run (redis_step show_time) r0 ops r"
    and "at_most_once_in_order i ops"
    and "\<forall>ed \<in> set (sent_by raw_sent ops). time_text_ok (text_of show_time) (Timestamp (fst ed)) \<and> go_payload (Payload (fst ed))"
    and "\<forall>sd \<in> set (sent_by screened_sent ops). screened_ok (text_of show_time) (fst sd)"
  shows "subseq (taken_by raw_label i ops @ buffered (map rs_chan (rb_raw r)) i)
      (map (canonical_event \<circ> fst) (sent_by raw_sent ops)) \<and>
    subseq (taken_by screened_label i ops @ buffered (map rs_chan (rb_screened r)) i)
      (map (canonical_screened \<circ> fst) (sent_by screened_sent ops))"
proof -
  have h: "histories raw_label decode_tracking_event (rb_bufferSize r0) ops (rb_raw r)"
    "histories screened_label decode_screened_event (rb_bufferSize r0) ops (rb_screened r)"
    using redis_history_run [OF assms(1,2)] by (simp_all add: redis_history_def)
  have "\<forall>ed \<in> set (sent_by raw_sent ops). decode_tracking_event (snd ed) = Some (canonical_event (fst ed))"
    using sent_messages(1) [OF assms(2)] assms(4) MarshalRaw_read_back by blast
  moreover have "\<forall>sd \<in> set (sent_by screened_sent ops). decode_screened_event (snd sd) = Some (canonical_screened (fst sd))"
    using sent_messages(2) [OF assms(2)] assms(5) MarshalScreened_read_back by blast
  ultimately show ?thesis
    using delivered [OF h(1) _, of i "sent_by raw_sent ops" canonical_event]
      delivered [OF h(2) _, of i "sent_by screened_sent ops" canonical_screened] assms(3)
    unfolding at_most_once_in_order_def by blast
qed

text \<open>One event through Redis: published, arrived, taken by the goroutine, handed on.\<close>

definition utc_zero :: time_text where
  "utc_zero t = Inr ''0001-01-01T00:00:00Z''"

definition redis_sample :: tracking_event where
  "redis_sample = zero_tracking_event\<lparr>UserID := ''u'', Payload := Some [(''b'', JNull), (''a'', JBool True)]\<rparr>"

definition redis_document :: json where
  "redis_document = encode_tracking_event (text_of utc_zero) redis_sample"

definition redis_ops :: "redis_op list" where
  "redis_ops = [RdSubscribeRaw (Inr 0), RdPublishRaw redis_sample None (Some redis_document),
     RdRaw 0 ([Some redis_document], []), RdRaw 0 ([], []), RdRaw 0 ([], [])]"

lemma redis_sample_ok: "time_text_ok (text_of utc_zero) (Timestamp redis_sample)" "go_payload (Payload redis_sample)"
  by code_simp+

lemma redis_sample_decodes: "decode_tracking_event redis_document = Some (canonical_event redis_sample)"
  unfolding redis_document_def by (rule decode_encode_tracking) (fact redis_sample_ok)+

lemma redis_run:
  "\<exists>r. run (redis_step utc_zero) \<lparr>rb_raw = [], rb_screened = [], rb_closed = False, rb_bufferSize = 10000\<rparr> redis_ops r \<and>
     map (ch_buf \<circ> rs_chan) (rb_raw r) = [[canonical_event redis_sample]]"
proof -
  let ?r0 = "\<lparr>rb_raw = [], rb_screened = [], rb_closed = False, rb_bufferSize = 10000\<rparr> :: redis_broker"
  let ?s0 = "new_sub 10000 :: tracking_event redis_sub"
  let ?s1 = "?s0\<lparr>rs_inbox := [Some redis_document]\<rparr>"
  let ?s2 = "?s0\<lparr>rs_task := Holding (canonical_event redis_sample)\<rparr>"
  let ?s3 = "?s0\<lparr>rs_chan := (rs_chan ?s0)\<lparr>ch_buf := [canonical_event redis_sample]\<rparr>\<rparr>"
  let ?idle = "\<lparr>se_done = None, se_pick_send = True\<rparr>"
  have s1: "sub_step decode_tracking_event ?s0 ([Some redis_document], []) ?s1"
    using sub_arrive [of ?s0 decode_tracking_event "Some redis_document"] by (simp add: new_sub_def)
  have "forward_step decode_tracking_event ?idle ?s1 = Some (Ret ?s2)"
    by (simp add: forward_step_def new_sub_def unmarshal_def redis_sample_decodes)
  then have s2: "sub_step decode_tracking_event ?s1 ([], []) ?s2" by (rule sub_forward)
  have "forward_step decode_tracking_event ?idle ?s2 = Some (Ret ?s3)"
    by (simp add: forward_step_def new_sub_def make_chan_def send_ready_def)
  then have s3: "sub_step decode_tracking_event ?s2 ([], []) ?s3" by (rule sub_forward)
  have sub: "RedisSubscribeRaw ?r0 = (Inr 0, ?r0\<lparr>rb_raw := [?s0]\<rparr>)" by (simp add: RedisSubscribeRaw_def)
  have pub: "RedisPublishRaw utc_zero None redis_sample (?r0\<lparr>rb_raw := [?s0]\<rparr>) = (None, Some redis_document)"
    by (simp add: RedisPublishRaw_def MarshalRaw_def utc_zero_def redis_document_def)
  have raw: "redis_step utc_zero (?r0\<lparr>rb_raw := [s]\<rparr>) (RdRaw 0 l) (?r0\<lparr>rb_raw := [s']\<rparr>)"
    if "sub_step decode_tracking_event s l s'" for s l s'
    using rd_raw [of 0 "?r0\<lparr>rb_raw := [s]\<rparr>" l s' utc_zero] that by simp
  have "run (redis_step utc_zero) ?r0 redis_ops (?r0\<lparr>rb_raw := [?s3]\<rparr>)"
  proof -
    have "run (redis_step utc_zero) (?r0\<lparr>rb_raw := [?s3]\<rparr>) [] (?r0\<lparr>rb_raw := [?s3]\<rparr>)" by (rule run_nil)
    from run_cons [OF rd_subscribe_raw [OF sub] run_cons [OF rd_publish_raw [OF pub]
      run_cons [OF raw [OF s1] run_cons [OF raw [OF s2] run_cons [OF raw [OF s3] this]]]]]
    show ?thesis unfolding redis_ops_def .
  qed
  then show ?thesis by (intro exI conjI) auto
qed

theorem redis_delivers_in_order_witness:
  "\<exists>r. run (redis_step utc_zero) \<lparr>rb_raw = [], rb_screened = [], rb_closed = False, rb_bufferSize = 10000\<rparr> redis_ops r \<and>
     buffered (map rs_chan (rb_raw r)) 0 = [canonical_event redis_sample] \<and>
     subseq (taken_by raw_label 0 redis_ops @ buffered (map rs_chan (rb_raw r)) 0) [canonical_event redis_sample]"
proof -
  let ?r0 = "\<lparr>rb_raw = [], rb_screened = [], rb_closed = False, rb_bufferSize = 10000\<rparr> :: redis_broker"
  obtain r where r: "run (redis_step utc_zero) ?r0 redis_ops r"
      "map (ch_buf \<circ> rs_chan) (rb_raw r) = [[canonical_event redis_sample]]"
    using redis_run by (elim exE conjE)
  have "nat PingRetries = Suc 9" by (simp add: PingRetries_def)
  then have new: "NewRedisBroker None (\<lambda>k. None) 0 = (Inr ?r0, [])"
    unfolding NewRedisBroker_def by (simp only: ping_loop.simps option.case prod.case if_True order_refl)
  have sent: "sent_by raw_sent redis_ops = [(redis_sample, redis_document)]" "sent_by screened_sent redis_ops = []"
    unfolding redis_ops_def sent_by_def by simp_all
  have "at_most_once_in_order 0 redis_ops"
    unfolding at_most_once_in_order_def sent by (simp_all add: redis_ops_def arrived_def)
  from redis_delivers_in_order [OF new r(1) this] sent redis_sample_ok
  have "subseq (taken_by raw_label 0 redis_ops @ buffered (map rs_chan (rb_raw r)) 0) [canonical_event redis_sample]"
    by simp
  moreover have "buffered (map rs_chan (rb_raw r)) 0 = [canonical_event redis_sample]"
    using r(2) by (cases "rb_raw r") (simp_all add: buffered_def)
  ultimately show ?thesis using r(1) by (intro exI [of _ r] conjI)
qed

lemma ping_loop_error:
  "fst (ping_loop ping a m err sl) = None \<longleftrightarrow> (\<exists>k \<in> {a..<a + m}. ping k = None) \<or> m = 0 \<and> err = None"
proof (induction m arbitrary: a err sl)
  case (Suc m)
  have "{a..<a + Suc m} = insert a {Suc a..<Suc a + m}" by auto
  then have "(\<exists>k \<in> {a..<a + Suc m}. ping k = None) \<longleftrightarrow> ping a = None \<or> (\<exists>k \<in> {Suc a..<Suc a + m}. ping k = None)"
    by (simp only: bex_simps)
  then show ?case using Suc [of "Suc a"] by (cases "ping a") simp_all
qed simp

lemma ping_loop_sleeps:
  "snd (ping_loop ping a m err sl) = sl @ replicate (length (takeWhile (\<lambda>k. ping k \<noteq> None) [a..<a + m])) PingDelay"
proof (induction m arbitrary: a err sl)
  case (Suc m)
  have "[a..<a + Suc m] = a # [Suc a..<Suc a + m]" by (simp add: upt_conv_Cons del: upt_Suc)
  with Suc [of "Suc a"] show ?case by (cases "ping a") (simp_all del: upt_Suc)
qed simp

text \<open>
  Connecting is bounded: the broker is built exactly when the URL parses and one of the first
  ten pings answers, and it then has slept once for every ping that failed before; otherwise it
  has slept ten times, after the last failure too.
\<close>
theorem redis_connects_iff:
  "(case NewRedisBroker parseErr ping n of (res, sleeps) \<Rightarrow>
     ((\<exists>r. res = Inr r) \<longleftrightarrow> parseErr = None \<and> (\<exists>k < 10. ping k = None)) \<and>
     sleeps = (if parseErr \<noteq> None then [] else replicate (length (takeWhile (\<lambda>k. ping k \<noteq> None) [0..<10])) PingDelay))"
proof -
  have "(\<exists>k \<in> {0..<0 + 10}. ping k = None) \<longleftrightarrow> (\<exists>k < 10. ping k = None)" by auto
  then show ?thesis
    using ping_loop_error [of ping 0 10 None "[]"] ping_loop_sleeps [of ping 0 10 None "[]"]
    by (cases "ping_loop ping 0 10 None []"; cases "fst (ping_loop ping 0 10 None [])")
      (simp_all add: NewRedisBroker_def PingRetries_def split: option.splits)
qed

end
