(* ===== verification/Deployments.thy ===== *)
theory Deployments
  imports SystemWorkers RedisBroker
begin

text \<open>
  The programs of \<^verbatim>\<open>cmd/\<close> besides the memory monolith: how the monolith chooses its database and its
  broker (\<^verbatim>\<open>cmd/monolith/helpers.go\<close>), the orchestrator, and the four standalone services, each with a
  broker, a tracker and repositories of its own.
\<close>

section \<open>The start of the monolith\<close>

text \<open>A start-up that ends with \<^verbatim>\<open>os.Exit\<close>, or goes on.\<close>

datatype 'a boot = Exits int | Boots 'a

text \<open>
  What the process finds: \<^verbatim>\<open>sql.Open\<close> and \<^verbatim>\<open>Ping\<close> for a driver and a URL, which files are missing and what
  the others hold, the execution of a migration, and the answers of Redis.
\<close>

record boot_env =
  be_open :: "string \<Rightarrow> string \<Rightarrow> go_error option"
  be_ping :: "string \<Rightarrow> string \<Rightarrow> go_error option"
  be_missing :: "string \<Rightarrow> bool"
  be_read :: "string \<Rightarrow> go_error + string"
  be_exec :: "string \<Rightarrow> string \<Rightarrow> string \<Rightarrow> go_error option"
  be_redis_url :: "string \<Rightarrow> go_error option"
  be_redis_ping :: "nat \<Rightarrow> go_error option"

definition migration_path :: "boot_env \<Rightarrow> string" where
  "migration_path be =
     (if be_missing be ''pkg/db/migrations/0001_init.sql'' then ''../../pkg/db/migrations/0001_init.sql''
      else ''pkg/db/migrations/0001_init.sql'')"

text \<open>The driver and the URL of the connection, or \<^const>\<open>None\<close> for the memory repositories.\<close>

definition initDatabase :: "environment \<Rightarrow> boot_env \<Rightarrow> config \<Rightarrow> (string \<times> string) option boot" where
  "initDatabase env be cfg =
     (case database_driver env cfg of
        None \<Rightarrow> Boots None
      | Some driver \<Rightarrow>
          if be_open be driver (DatabaseURL cfg) \<noteq> None then Exits 1
          else if be_ping be driver (DatabaseURL cfg) \<noteq> None then Exits 1
          else case be_read be (migration_path be) of
            Inl err \<Rightarrow> Exits 1
          | Inr content \<Rightarrow>
              if be_exec be driver (DatabaseURL cfg) content \<noteq> None then Exits 1
              else Boots (Some (driver, DatabaseURL cfg)))"

datatype broker_choice = RedisChoice redis_broker | MemoryChoice in_memory_broker

definition initBroker :: "boot_env \<Rightarrow> config \<Rightarrow> broker_choice boot" where
  "initBroker be cfg =
     (if uses_redis cfg then
        (case fst (NewRedisBroker (be_redis_url be (RedisURL cfg)) (be_redis_ping be) broker_buffer) of
           Inl err \<Rightarrow> Exits 1
         | Inr b \<Rightarrow> Boots (RedisChoice b))
      else Boots (MemoryChoice (NewInMemoryBroker broker_buffer)))"

definition boot_monolith :: "environment \<Rightarrow> boot_env \<Rightarrow> ((string \<times> string) option \<times> broker_choice) boot" where
  "boot_monolith env be =
     (let cfg = LoadConfig env in
      case initDatabase env be cfg of
        Exits c \<Rightarrow> Exits c
      | Boots db \<Rightarrow> (case initBroker be cfg of Exits c \<Rightarrow> Exits c | Boots b \<Rightarrow> Boots (db, b)))"

section \<open>The orchestrator\<close>

definition orchestrator_adapter :: http_crm_adapter where
  "orchestrator_adapter = NewHTTPCRMAdapter ''http://localhost:8084/crm/sync''
     (NewResilientClient (250 * Millisecond) 3 (5 * Second) 2 (20 * Millisecond) True)"

definition NewOrchestrator :: "time \<Rightarrow> system" where
  "NewOrchestrator now =
     (NewRuleState,
      \<lparr>wd_broker = NewInMemoryBroker 10000,
       wd_tracker = NewMemoryTelemetryTracker now,
       wd_fraudRepo = NewMemoryFraudRepository (Some crm_deleter),
       wd_mktRepo = NewMemoryMarketingRepository,
       wd_adapter = orchestrator_adapter\<rparr>)"

section \<open>The standalone gateway\<close>

type_synonym ingest_service = "in_memory_broker \<times> memory_tracker"

definition NewIngestService :: "time \<Rightarrow> ingest_service" where
  "NewIngestService now = (NewInMemoryBroker 10000, NewMemoryTelemetryTracker now)"

definition serve_ingest :: "(nat \<Rightarrow> select_env) \<Rightarrow> time \<Rightarrow> api_request \<Rightarrow> ingest_service \<Rightarrow> (reply \<times> ingest_service) outcome" where
  "serve_ingest env now =
     HandleIngest
       (\<lambda>e (b, t). case PublishRaw env e b of Ret (r, b') \<Rightarrow> Ret (r, b', t) | Panic m \<Rightarrow> Panic m)
       (\<lambda>name d (b, t). (b, IncrementMetric name d t)) now"

inductive ingest_step :: "ingest_service \<Rightarrow> api_request \<times> reply \<Rightarrow> ingest_service \<Rightarrow> bool" where
  "serve_ingest env now r s = Ret (rep, s') \<Longrightarrow> ingest_step s (r, rep) s'"

section \<open>The standalone fraud worker\<close>

type_synonym fraud_service = "in_memory_broker \<times> unit memory_fraud_repo \<times> memory_tracker"

text \<open>\<^verbatim>\<open>BE_CRASHER=1\<close> closes the broker before the worker subscribes.\<close>

definition NewFraudStandalone :: "environment \<Rightarrow> time \<Rightarrow> (rule_state \<times> fraud_service) outcome" where
  "NewFraudStandalone env now =
     (let b = NewInMemoryBroker 10000 in
      case (if env ''BE_CRASHER'' = Some ''1'' then Close b else Ret (None, b)) of
        Panic m \<Rightarrow> Panic m
      | Ret (_, b) \<Rightarrow> Ret (NewRuleState, b, NewMemoryFraudRepository None, NewMemoryTelemetryTracker now))"

definition run_fraud :: "(nat \<Rightarrow> select_env) \<Rightarrow> turn list \<Rightarrow> rule_state \<times> fraud_service \<Rightarrow> (rule_state \<times> fraud_service) worker_result" where
  "run_fraud env =
     Start
       (\<lambda>(b, m, t). case SubscribeRaw b of (r, b') \<Rightarrow> (r, b', m, t))
       (\<lambda>ch (b, m, t). case RecvRaw ch b of (r, b') \<Rightarrow> (r, b', m, t))
       (\<lambda>e (b, m, t). case SaveEvent e m of (r, m') \<Rightarrow> (r, b, m', t))
       (\<lambda>name d (b, m, t). (b, m, IncrementMetric name d t))
       (\<lambda>e (b, m, t). case PublishScreened env e b of Ret (r, b') \<Rightarrow> Ret (r, b', m, t) | Panic p \<Rightarrow> Panic p)
       DefaultRules"

text \<open>The exit code of the process once \<open>Start\<close> has returned.\<close>

definition exit_code :: "'s worker_result \<Rightarrow> int option" where
  "exit_code r = (case r of Returned None _ \<Rightarrow> Some 0 | Returned (Some err) _ \<Rightarrow> Some 1 | Running _ \<Rightarrow> None | Crashed _ \<Rightarrow> Some 2)"

section \<open>The standalone marketing service\<close>

definition NewMarketingStandalone :: "config \<Rightarrow> time \<Rightarrow> world" where
  "NewMarketingStandalone cfg now =
     \<lparr>wd_broker = NewInMemoryBroker 10000,
      wd_tracker = NewMemoryTelemetryTracker now,
      wd_fraudRepo = NewMemoryFraudRepository (Some crm_deleter),
      wd_mktRepo = NewMemoryMarketingRepository,
      wd_adapter = NewHTTPCRMAdapter (CRMURL cfg)
        (NewResilientClient (200 * Millisecond) 3 (5 * Second) 2 (20 * Millisecond) True)\<rparr>"

text \<open>
  Its goroutine: \<^verbatim>\<open>BE_CRASHER_CONSUMER=1\<close> closes the broker first, and an error of \<^verbatim>\<open>StartConsumer\<close> ends the
  process; a consumer that returns nil leaves it running.
\<close>

definition run_marketing ::
  "environment \<Rightarrow> crm_env \<Rightarrow> (turn \<Rightarrow> nat \<Rightarrow> attempt_env) \<Rightarrow> turn list \<Rightarrow> world \<Rightarrow> world worker_result" where
  "run_marketing env ce aenv turns w =
     (case (if env ''BE_CRASHER_CONSUMER'' = Some ''1'' then Close (wd_broker w) else Ret (None, wd_broker w)) of
        Panic m \<Rightarrow> Crashed m
      | Ret (_, b) \<Rightarrow>
          StartConsumer w_subscribe_screened w_recv_screened w_increment (\<lambda>t. w_sync ce (tn_clock t 1) (aenv t)) w_save_contact
            turns (w\<lparr>wd_broker := b\<rparr>))"

definition consumer_exit :: "'s worker_result \<Rightarrow> int option" where
  "consumer_exit r = (case r of Returned (Some err) _ \<Rightarrow> Some 1 | Crashed _ \<Rightarrow> Some 2 | _ \<Rightarrow> None)"

text \<open>The steps of the program that this service takes: its worker, its two handlers, and the closing of its broker.\<close>

fun marketing_op :: "system_op \<Rightarrow> bool" where
  "marketing_op (SysMarketingSubscribe s) = True"
| "marketing_op (SysWorkflow ch e) = True"
| "marketing_op (SysPurge r rep) = True"
| "marketing_op (SysExport r rep) = True"
| "marketing_op SysClose = True"
| "marketing_op _ = False"

section \<open>The standalone dashboard\<close>

definition NewAnalyticsStandalone :: "time \<Rightarrow> memory_tracker" where
  "NewAnalyticsStandalone now = NewMemoryTelemetryTracker now"

section \<open>Services on their own\<close>

lemma fst_serve_ingest:
  assumes "serve_ingest env now r (b, t) = Ret (rep, b', t')" "rawSubs b = []" "\<not> br_closed b"
  shows "b' = b" and "t' = count_received rep t"
proof -
  have pub: "PublishRaw env e b = Ret (None, b)" for e
    using assms(2,3) by (simp add: PublishRaw_def)
  have "b' = b \<and> t' = count_received rep t"
  proof (cases "admitted now r")
    case None
    show ?thesis
    proof (rule HandleIngest_refused [OF None, where 'w = ingest_service])
      fix rep' assume rep': "re_status rep' \<in> {StatusBadRequest, StatusMethodNotAllowed}" "rep' \<noteq> consent_refusal"
        and "\<And>publish increment (w :: ingest_service). HandleIngest publish increment now r w = Ret (rep', w)"
      with assms(1) have "rep = rep'" "b' = b" "t' = t" by (simp_all add: serve_ingest_def)
      with rep' None show ?thesis by (auto simp: count_received_def counted_reply_def status_defs)
    next
      assume "\<And>publish increment (w :: ingest_service).
        HandleIngest publish increment now r w = Ret (consent_refusal, increment ''total_received'' 1 w)"
      with assms(1) None show ?thesis by (simp add: serve_ingest_def count_received_def counted_reply_def)
    qed
  next
    case (Some e')
    with assms(1) show ?thesis
      by (auto simp: serve_ingest_def HandleIngest_admitted pub count_received_def counted_reply_def)
  qed
  then show "b' = b" "t' = count_received rep t" by auto
qed

definition replies_counted :: "(api_request \<times> reply) list \<Rightarrow> int" where
  "replies_counted ops = int (length (filter (\<lambda>(r, rep). counted_reply rep) ops))"

lemma ingest_run:
  assumes "run ingest_step (NewIngestService t0) ops (b, t)"
  shows "b = NewInMemoryBroker 10000 \<and>
    t = fold (\<lambda>(r, rep). count_received rep) ops (NewMemoryTelemetryTracker t0)"
  using assms
proof (induction ops arbitrary: b t rule: rev_induct)
  case Nil
  then show ?case by (simp add: NewIngestService_def)
next
  case (snoc op ops)
  obtain r rep where op: "op = (r, rep)" by (cases op)
  from snoc.prems obtain b1 t1 where r: "run ingest_step (NewIngestService t0) ops (b1, t1)" "ingest_step (b1, t1) op (b, t)"
    by (auto simp: run_append)
  from r(2) obtain env now where "serve_ingest env now r (b1, t1) = Ret (rep, b, t)"
    by (auto simp: op elim: ingest_step.cases)
  with fst_serve_ingest [OF this] snoc.IH [OF r(1)] show ?case
    by (simp add: NewInMemoryBroker_def op)
qed

lemma counter_replies:
  "is_int64 (counter ''total_received'' t) \<Longrightarrow>
   counter ''total_received'' (fold (\<lambda>(r, rep). count_received rep) ops t) =
     wrap64 (counter ''total_received'' t + replies_counted ops)"
proof (induction ops arbitrary: t)
  case (Cons op ops)
  obtain r rep where op: "op = (r, rep)" by (cases op)
  show ?case
  proof (cases "counted_reply rep")
    case True
    then have "is_int64 (counter ''total_received'' (count_received rep t))"
      by (simp add: count_received_def counter_increment add64_def is_int64_wrap64)
    with Cons.IH [OF this] True show ?thesis
      using wrap64_add_left [of "counter ''total_received'' t + 1" "replies_counted ops"]
      by (simp add: op replies_counted_def count_received_def counter_increment add64_def algebra_simps)
  next
    case False
    with Cons show ?thesis by (simp add: op replies_counted_def count_received_def)
  qed
qed (simp add: replies_counted_def wrap64_id)

section \<open>Properties\<close>

text \<open>
  The monolith starts exactly when what its configuration names is there: with a Postgres
  database the connection, the ping, the schema file and its execution succeed, and with Redis the URL
  parses and one of ten pings answers. Otherwise the process ends with code 1. Without any
  configuration it starts on the memory repositories and the memory broker.
\<close>
theorem monolith_boots_iff:
  "(\<forall>c. boot_monolith env be = Exits c \<longrightarrow> c = 1) \<and>
   ((\<exists>db b. boot_monolith env be = Boots (db, b)) \<longleftrightarrow>
     (\<forall>driver. database_driver env (LoadConfig env) = Some driver \<longrightarrow>
        be_open be driver (DatabaseURL (LoadConfig env)) = None \<and> be_ping be driver (DatabaseURL (LoadConfig env)) = None \<and>
        (\<exists>content. be_read be (migration_path be) = Inr content \<and>
           be_exec be driver (DatabaseURL (LoadConfig env)) content = None)) \<and>
     (BrokerType (LoadConfig env) = ''redis'' \<longrightarrow>
        be_redis_url be (RedisURL (LoadConfig env)) = None \<and> (\<exists>k < 10. be_redis_ping be k = None))) \<and>
   boot_monolith (\<lambda>_. None) be = Boots (None, MemoryChoice (NewInMemoryBroker 10000))"
proof (intro conjI allI impI)
  let ?cfg = "LoadConfig env"
  let ?redis = "NewRedisBroker (be_redis_url be (RedisURL ?cfg)) (be_redis_ping be) broker_buffer"
  have redis: "(\<exists>r. fst ?redis = Inr r) \<longleftrightarrow> be_redis_url be (RedisURL ?cfg) = None \<and> (\<exists>k < 10. be_redis_ping be k = None)"
    using redis_connects_iff by (simp add: split_beta)
  show "c = 1" if "boot_monolith env be = Exits c" for c
    using that by (auto simp: boot_monolith_def initDatabase_def initBroker_def Let_def split: option.splits sum.splits if_splits)
  have db: "(\<exists>db. initDatabase env be ?cfg = Boots db) \<longleftrightarrow>
    (\<forall>driver. database_driver env ?cfg = Some driver \<longrightarrow>
        be_open be driver (DatabaseURL ?cfg) = None \<and> be_ping be driver (DatabaseURL ?cfg) = None \<and>
        (\<exists>content. be_read be (migration_path be) = Inr content \<and> be_exec be driver (DatabaseURL ?cfg) content = None))"
    by (auto simp: initDatabase_def split: option.splits sum.splits)
  have br: "(\<exists>b. initBroker be ?cfg = Boots b) \<longleftrightarrow> (BrokerType ?cfg = ''redis'' \<longrightarrow> (\<exists>r. fst ?redis = Inr r))"
    by (auto simp: initBroker_def uses_redis_def split: sum.splits)
  have "(\<exists>db b. boot_monolith env be = Boots (db, b)) \<longleftrightarrow>
      (\<exists>db. initDatabase env be ?cfg = Boots db) \<and> (\<exists>b. initBroker be ?cfg = Boots b)"
    by (auto simp: boot_monolith_def Let_def split: boot.splits)
  then show "(\<exists>db b. boot_monolith env be = Boots (db, b)) \<longleftrightarrow>
     (\<forall>driver. database_driver env (LoadConfig env) = Some driver \<longrightarrow>
        be_open be driver (DatabaseURL (LoadConfig env)) = None \<and> be_ping be driver (DatabaseURL (LoadConfig env)) = None \<and>
        (\<exists>content. be_read be (migration_path be) = Inr content \<and>
           be_exec be driver (DatabaseURL (LoadConfig env)) content = None)) \<and>
     (BrokerType (LoadConfig env) = ''redis'' \<longrightarrow>
        be_redis_url be (RedisURL (LoadConfig env)) = None \<and> (\<exists>k < 10. be_redis_ping be k = None))"
    unfolding db br redis by blast
  show "boot_monolith (\<lambda>_. None) be = Boots (None, MemoryChoice (NewInMemoryBroker 10000))"
    by (simp add: boot_monolith_def initDatabase_def initBroker_def database_driver_def uses_redis_def LoadConfig_def
        getEnv_def broker_buffer_def)
qed

text \<open>
  The orchestrator is the monolith without a configuration: the same broker, repositories,
  breaker and CRM address.
\<close>
theorem orchestrator_is_default_monolith:
  "NewOrchestrator now = NewMonolith (LoadConfig (\<lambda>_. None)) now"
  by (simp add: NewOrchestrator_def orchestrator_adapter_def NewMonolith_def LoadConfig_def getEnv_def broker_buffer_def)

text \<open>
  The standalone gateway accepts events and loses them: in every reachable state its broker has
  no subscriber, every further admissible request is answered 202 and leaves the broker as it is, and
  the counter has counted the requests all the same.
\<close>
theorem standalone_ingest_loses_events:
  assumes "run ingest_step (NewIngestService t0) ops (b, t)"
  shows "rawSubs b = [] \<and> screenedSubs b = [] \<and> counter ''total_received'' t = wrap64 (replies_counted ops) \<and>
    (\<forall>env now r e. admitted now r = Some e \<longrightarrow>
       (\<exists>rep t'. serve_ingest env now r (b, t) = Ret (rep, b, t') \<and> re_status rep = StatusAccepted))"
proof -
  have b: "b = NewInMemoryBroker 10000" and t: "t = fold (\<lambda>(r, rep). count_received rep) ops (NewMemoryTelemetryTracker t0)"
    using ingest_run [OF assms] by auto
  have "PublishRaw env e b = Ret (None, b)" for env e by (simp add: b PublishRaw_def NewInMemoryBroker_def)
  then have "\<exists>rep t'. serve_ingest env now r (b, t) = Ret (rep, b, t') \<and> re_status rep = StatusAccepted"
    if "admitted now r = Some e" for env now r e
    by (simp add: serve_ingest_def HandleIngest_admitted [OF that])
  moreover have "counter ''total_received'' t = wrap64 (replies_counted ops)"
    using counter_replies [of "NewMemoryTelemetryTracker t0" ops] by (simp add: t is_int64_def int64_min_def int64_max_def)
  ultimately show ?thesis by (simp add: b NewInMemoryBroker_def)
qed

lemma idle:
  fixes handle :: "turn \<Rightarrow> 'e \<Rightarrow> 's \<Rightarrow> 's outcome"
  assumes "\<forall>t \<in> set turns. tn_done t = None" "recv s = (NotReady, s)"
  shows "consume recv handle turns s = Running s"
  using assms by (induction turns) simp_all

text \<open>
  The standalone fraud worker never sees an event: its broker is its own, so it waits in its
  \<^verbatim>\<open>select\<close> for ever with its repository and its counters as at the start. Started with
  \<^verbatim>\<open>BE_CRASHER=1\<close> it cannot subscribe and the process exits with code 1.
\<close>
theorem standalone_fraud_idles:
  assumes "NewFraudStandalone penv now = Ret s" "\<forall>t \<in> set turns. tn_done t = None"
  shows "if penv ''BE_CRASHER'' = Some ''1'' then exit_code (run_fraud env turns s) = Some 1
    else \<exists>b. run_fraud env turns s = Running (NewRuleState, b, NewMemoryFraudRepository None, NewMemoryTelemetryTracker now)"
proof (cases "penv ''BE_CRASHER'' = Some ''1''")
  case True
  with assms(1) show ?thesis
    by (auto simp: NewFraudStandalone_def Close_def NewInMemoryBroker_def Let_def run_fraud_def Start_def SubscribeRaw_def exit_code_def)
next
  case False
  let ?b = "(NewInMemoryBroker 10000)\<lparr>rawSubs := [make_chan 10000]\<rparr>"
  let ?w = "(NewRuleState, ?b, NewMemoryFraudRepository None :: unit memory_fraud_repo, NewMemoryTelemetryTracker now)"
  have "s = (NewRuleState, NewInMemoryBroker 10000, NewMemoryFraudRepository None, NewMemoryTelemetryTracker now)"
    using assms(1) False by (simp add: NewFraudStandalone_def Let_def)
  moreover have "SubscribeRaw (NewInMemoryBroker 10000) = (Inr 0, ?b)"
    by (simp add: SubscribeRaw_def NewInMemoryBroker_def)
  moreover have "RecvRaw 0 ?b = (NotReady, ?b)"
    by (simp add: RecvRaw_def make_chan_def)
  ultimately have "run_fraud env turns s = Running ?w"
    unfolding run_fraud_def Start_def by (simp add: idle [OF assms(2)])
  with False show ?thesis by auto
qed

section \<open>The marketing service on its own\<close>

definition no_user_data :: "world \<Rightarrow> bool" where
  "no_user_data w \<longleftrightarrow> fr_events (wd_fraudRepo w) = Map.empty \<and> fr_crmDeleter (wd_fraudRepo w) = Some crm_deleter \<and>
     mr_crm (wd_mktRepo w) = Map.empty \<and> (\<forall>ch \<in> set (screenedSubs (wd_broker w)). ch_buf ch = [])"

lemma no_user_data_purged: "no_user_data w \<Longrightarrow> no_user_data (purged u l w)"
  by (simp add: no_user_data_def purged_def wiring DeleteUserEvents_def DeleteCRMContact_def SavePrivacyLog_def crm_deleter_def Let_def)

lemma no_user_data_purge: "sys_purge sha256 now1 now2 r w = (rep, w') \<Longrightarrow> no_user_data w \<Longrightarrow> no_user_data w'"
  by (erule sys_purge_cases) (simp_all add: no_user_data_purged)

lemma close_all_buf: "close_all chs = Ret chs' \<Longrightarrow> map ch_buf chs' = map ch_buf chs"
  by (induction chs arbitrary: chs') (auto split: if_splits outcome.splits)

lemma Close_screened_buf:
  assumes "Close b = Ret (r, b')"
  shows "map ch_buf (screenedSubs b') = map ch_buf (screenedSubs b)"
  using assms by (auto simp: Close_def dest: close_all_buf split: if_splits outcome.splits)

lemma no_user_data_step:
  assumes "sys_step s op s'" "marketing_op op" "no_user_data (snd s)"
  shows "no_user_data (snd s')"
  using assms
proof (induction rule: sys_step.induct)
  case (sys_marketing_subscribe w s w' st)
  then show ?case by (auto simp: w_subscribe_screened_def SubscribeScreened_def no_user_data_def make_chan_def split: if_splits)
next
  case (sys_skip_step ch w se w1 st)
  then have "ch_buf (screenedSubs (wd_broker w) ! ch) = []" by (simp add: no_user_data_def)
  with sys_skip_step show ?case by (auto simp: w_recv_screened_def RecvScreened_def split: prod.splits if_splits)
next
  case (sys_workflow_step ch w se w1 ce now aenv now' w' st)
  then have "ch_buf (screenedSubs (wd_broker w) ! ch) = []" by (simp add: no_user_data_def)
  with sys_workflow_step show ?case by (auto simp: w_recv_screened_def RecvScreened_def split: prod.splits if_splits)
next
  case (sys_purge_step sha256 now1 now2 r w rep w' st)
  then show ?case using no_user_data_purge by simp
next
  case (sys_close w b st)
  have "\<forall>ch \<in> set (screenedSubs b). ch_buf ch = []"
    using Close_screened_buf [OF sys_close(1)] sys_close(3) by (metis (no_types, lifting) image_iff list.set_map no_user_data_def snd_conv)
  with sys_close show ?case by (simp add: no_user_data_def)
qed simp_all

text \<open>
  The standalone marketing service never has data to act on: whatever requests it serves and
  whatever its worker does, there is no event and no contact of any user. A purge is answered 200 all
  the same and reports one scrubbed record, which is the contact that was not there.
\<close>
theorem standalone_marketing_is_empty:
  assumes "run sys_step (st0, NewMarketingStandalone cfg now) ops (st, w)" "\<forall>op \<in> set ops. marketing_op op"
  shows "(\<forall>u. w_get_events u w = Inr [] \<and> repo_contact u (wd_mktRepo w) = None) \<and>
    (\<forall>sha256 now1 now2 r u. purge_request u r \<longrightarrow>
       fst (sys_purge sha256 now1 now2 r w) = json_reply StatusOK
         (BText (''{\"status\": \"purged\", \"user_id_hashed\": \"'' @ hashIdentifier sha256 u service_salt @
            ''\", \"records_scrubbed\": 1}'')))"
proof -
  have "no_user_data (snd s')" if "run sys_step s ops s'" "no_user_data (snd s)" "\<forall>op \<in> set ops. marketing_op op" for s s'
    using that by (induction rule: run.induct) (auto intro: no_user_data_step)
  moreover have "no_user_data (NewMarketingStandalone cfg now)"
    by (simp add: no_user_data_def NewMarketingStandalone_def NewMemoryFraudRepository_def NewMemoryMarketingRepository_def
        NewInMemoryBroker_def)
  ultimately have n: "no_user_data w" using assms by fastforce
  have "fst (sys_purge sha256 now1 now2 r w) = json_reply StatusOK
         (BText (''{\"status\": \"purged\", \"user_id_hashed\": \"'' @ hashIdentifier sha256 u service_salt @
            ''\", \"records_scrubbed\": 1}''))"
    if "purge_request u r" for sha256 now1 now2 r u
  proof -
    have "fst (w_delete_events u w) = Inr 1"
      using n by (simp add: no_user_data_def w_delete_events_def DeleteUserEvents_def Let_def slice_at_def split: prod.splits)
    then obtain w1 where "w_delete_events u w = (Inr 1, w1)" by (metis prod.collapse)
    moreover have "show_int 1 = ''1''" by code_simp
    ultimately show ?thesis
      using that by (simp add: purge_request_def sys_purge_def HandleGDPRDelete_def Let_def)
  qed
  with n show ?thesis by (simp add: no_user_data_def w_get_events_def GetEventsByUserID_def)
qed

text \<open>Its consumer idles for the same reason, and ends the process with code 1 when its broker was closed first.\<close>

theorem standalone_marketing_idles:
  assumes "\<forall>t \<in> set turns. tn_done t = None"
  shows "if penv ''BE_CRASHER_CONSUMER'' = Some ''1''
    then consumer_exit (run_marketing penv ce aenv turns (NewMarketingStandalone cfg now)) = Some 1
    else \<exists>w. run_marketing penv ce aenv turns (NewMarketingStandalone cfg now) = Running w \<and>
      wd_mktRepo w = NewMemoryMarketingRepository \<and> wd_tracker w = NewMemoryTelemetryTracker now"
proof (cases "penv ''BE_CRASHER_CONSUMER'' = Some ''1''")
  case True
  then show ?thesis
    by (simp add: run_marketing_def NewMarketingStandalone_def Close_def NewInMemoryBroker_def StartConsumer_def
        w_subscribe_screened_def SubscribeScreened_def consumer_exit_def Let_def)
next
  case False
  let ?w = "NewMarketingStandalone cfg now"
  let ?b = "(NewInMemoryBroker 10000)\<lparr>screenedSubs := [make_chan 10000]\<rparr>"
  have "w_subscribe_screened ?w = (Inr 0, ?w\<lparr>wd_broker := ?b\<rparr>)"
    by (simp add: w_subscribe_screened_def SubscribeScreened_def NewInMemoryBroker_def NewMarketingStandalone_def)
  moreover have "marketing_recv 0 (?w\<lparr>wd_broker := ?b\<rparr>) = (NotReady, ?w\<lparr>wd_broker := ?b\<rparr>)"
    by (simp add: marketing_recv_def w_recv_screened_def RecvScreened_def make_chan_def)
  ultimately have "run_marketing penv ce aenv turns ?w = Running (?w\<lparr>wd_broker := ?b\<rparr>)"
    using False by (simp add: run_marketing_def StartConsumer_consumes idle [OF assms] del: One_nat_def)
  with False show ?thesis by (simp add: NewMarketingStandalone_def)
qed

section \<open>Witnesses\<close>

definition all_up :: boot_env where
  "all_up = \<lparr>be_open = (\<lambda>d u. None), be_ping = (\<lambda>d u. None), be_missing = (\<lambda>p. False), be_read = (\<lambda>p. Inr []),
     be_exec = (\<lambda>d u c. None), be_redis_url = (\<lambda>u. None), be_redis_ping = (\<lambda>k. None)\<rparr>"

theorem monolith_boots_iff_witness:
  "(\<exists>db b. boot_monolith [''DATABASE_TYPE'' \<mapsto> ''postgres'', ''BROKER_TYPE'' \<mapsto> ''redis''] all_up = Boots (db, b)) \<and>
   (\<nexists>db b. boot_monolith [''DATABASE_TYPE'' \<mapsto> ''postgres''] (all_up\<lparr>be_ping := \<lambda>d u. Some Canceled\<rparr>) = Boots (db, b))"
proof -
  have "\<exists>k < (10 :: nat). True" by (intro exI [of _ 0]) simp
  then show ?thesis
    using monolith_boots_iff [of "[''DATABASE_TYPE'' \<mapsto> ''postgres'', ''BROKER_TYPE'' \<mapsto> ''redis'']" all_up]
      monolith_boots_iff [of "[''DATABASE_TYPE'' \<mapsto> ''postgres'']" "all_up\<lparr>be_ping := \<lambda>d u. Some Canceled\<rparr>"]
    by (auto simp: all_up_def database_driver_def LoadConfig_def getEnv_def)
qed

definition plain_post :: api_request where
  "plain_post = \<lparr>ar_method = ''POST'', ar_query = [],
     ar_body = Some (JObj [(''event_id'', JStr ''e1''), (''user_id'', JStr ''u1''), (''event_type'', JStr ''signup'')])\<rparr>"

lemma plain_post_admitted: "\<exists>e. admitted 5 plain_post = Some e"
  by (simp add: admitted_def plain_post_def decode_body_def decode_tracking_event_def tracking_fields_def find_field_def
      zero_tracking_event_def CheckGDPRConsent_def)

theorem standalone_ingest_loses_events_witness:
  "\<exists>rep t'. run ingest_step (NewIngestService 0) [(plain_post, rep)] (NewInMemoryBroker 10000, t') \<and>
     re_status rep = StatusAccepted \<and> rawSubs (NewInMemoryBroker 10000) = [] \<and> counter ''total_received'' t' = 1"
proof -
  obtain e where e: "admitted 5 plain_post = Some e" using plain_post_admitted by blast
  obtain rep t' where r: "serve_ingest env 5 plain_post (NewInMemoryBroker 10000, NewMemoryTelemetryTracker 0) =
      Ret (rep, NewInMemoryBroker 10000, t')" "re_status rep = StatusAccepted" for env
    using standalone_ingest_loses_events [of 0 "[]" "NewInMemoryBroker 10000" "NewMemoryTelemetryTracker 0"] e
    by (simp add: NewIngestService_def serve_ingest_def HandleIngest_admitted PublishRaw_def NewInMemoryBroker_def)
  have run: "run ingest_step (NewIngestService 0) [(plain_post, rep)] (NewInMemoryBroker 10000, t')"
    by (simp add: NewIngestService_def ingest_step.intros [OF r(1)])
  have "replies_counted [(plain_post, rep)] = 1" using r(2) by (simp add: replies_counted_def counted_reply_def)
  with standalone_ingest_loses_events [OF run] r(2) run show ?thesis by (auto simp: wrap64_def)
qed

theorem standalone_fraud_idles_witness:
  "\<exists>s b. NewFraudStandalone (\<lambda>_. None) 0 = Ret s \<and>
     run_fraud env [\<lparr>tn_done = None, tn_pick_done = False, tn_clock = (\<lambda>_. 3)\<rparr>] s =
       Running (NewRuleState, b, NewMemoryFraudRepository None, NewMemoryTelemetryTracker 0)"
proof -
  obtain s where s: "NewFraudStandalone (\<lambda>_. None) 0 = Ret s" by (simp add: NewFraudStandalone_def Let_def)
  with standalone_fraud_idles [OF s, of "[\<lparr>tn_done = None, tn_pick_done = False, tn_clock = (\<lambda>_. 3)\<rparr>]" env]
  show ?thesis by simp
qed

definition plain_purge :: api_request where
  "plain_purge = \<lparr>ar_method = ''POST'', ar_query = [], ar_body = Some (JObj [(''user_id'', JStr ''u1'')])\<rparr>"

theorem standalone_marketing_is_empty_witness:
  "\<exists>s w. run sys_step (NewRuleState, NewMarketingStandalone (LoadConfig (\<lambda>_. None)) 0) [SysMarketingSubscribe s] (NewRuleState, w) \<and>
     re_status (fst (sys_purge id 7 8 plain_purge w)) = StatusOK \<and> w_get_events ''u1'' w = Inr []"
proof -
  obtain s w where "w_subscribe_screened (NewMarketingStandalone (LoadConfig (\<lambda>_. None)) 0) = (s, w)"
    by (cases "w_subscribe_screened (NewMarketingStandalone (LoadConfig (\<lambda>_. None)) 0)")
  then have run: "run sys_step (NewRuleState, NewMarketingStandalone (LoadConfig (\<lambda>_. None)) 0)
      [SysMarketingSubscribe s] (NewRuleState, w)"
    by (simp add: sys_marketing_subscribe)
  have ops: "\<forall>op \<in> set [SysMarketingSubscribe s]. marketing_op op" by simp
  have "purge_request ''u1'' plain_purge"
    by (simp add: purge_request_def plain_purge_def decode_body_def decode_user_id_def find_field_def)
  then obtain t where "fst (sys_purge id 7 8 plain_purge w) = json_reply StatusOK t"
    using standalone_marketing_is_empty [OF run ops] by blast
  moreover have "w_get_events ''u1'' w = Inr []" using standalone_marketing_is_empty [OF run ops] by blast
  ultimately show ?thesis using run by (intro exI conjI) simp_all
qed

end
