(* ===== verification/RedisMonolith.thy ===== *)
theory RedisMonolith
  imports SystemValues Deployments
begin

text \<open>
  \<^verbatim>\<open>cmd/monolith/main.go\<close> with \<^verbatim>\<open>BROKER_TYPE=redis\<close> and the memory repositories: the same handlers and workers over
  the Redis broker, with the goroutines that forward its messages. Redis may lose, reorder and repeat messages;
  all it is trusted with is that what arrives on a channel was published there by this program.
\<close>

section \<open>The state and the wiring\<close>

text \<open>\<open>rw_raw_sent\<close> and \<open>rw_screened_sent\<close> are the documents handed to the client for the two channels of Redis.\<close>

record redis_world =
  rw_broker :: redis_broker
  rw_raw_sent :: "json list"
  rw_screened_sent :: "json list"
  rw_tracker :: memory_tracker
  rw_fraudRepo :: "memory_marketing_repo memory_fraud_repo"
  rw_mktRepo :: memory_marketing_repo
  rw_adapter :: http_crm_adapter

type_synonym redis_system = "rule_state \<times> redis_world"

definition NewRedisMonolith :: "config \<Rightarrow> redis_broker \<Rightarrow> time \<Rightarrow> redis_system" where
  "NewRedisMonolith cfg b now =
     (NewRuleState,
      \<lparr>rw_broker = b, rw_raw_sent = [], rw_screened_sent = [],
       rw_tracker = NewMemoryTelemetryTracker now,
       rw_fraudRepo = NewMemoryFraudRepository (Some crm_deleter),
       rw_mktRepo = NewMemoryMarketingRepository,
       rw_adapter = NewHTTPCRMAdapter (CRMURL cfg)
         (NewResilientClient (250 * Millisecond) 3 (5 * Second) 2 (20 * Millisecond) True)\<rparr>)"

definition message_of :: "json option \<Rightarrow> json list" where
  "message_of m = (case m of None \<Rightarrow> [] | Some doc \<Rightarrow> [doc])"

definition r_increment :: "string \<Rightarrow> int \<Rightarrow> redis_world \<Rightarrow> redis_world" where
  "r_increment name d w = w\<lparr>rw_tracker := IncrementMetric name d (rw_tracker w)\<rparr>"

text \<open>\<open>result\<close> is what \<^verbatim>\<open>client.Publish\<close> answers; the document may be on its way even when that is an error.\<close>

definition r_publish_raw :: "time_text \<Rightarrow> go_error option \<Rightarrow> tracking_event \<Rightarrow> redis_world \<Rightarrow> (go_error option \<times> redis_world) outcome" where
  "r_publish_raw show_time result e w =
     (case RedisPublishRaw show_time result e (rw_broker w) of
        (r, m) \<Rightarrow> Ret (r, w\<lparr>rw_raw_sent := rw_raw_sent w @ message_of m\<rparr>))"

definition r_publish_screened ::
  "time_text \<Rightarrow> go_error option \<Rightarrow> screened_event \<Rightarrow> redis_world \<Rightarrow> (go_error option \<times> redis_world) outcome" where
  "r_publish_screened show_time result se w =
     (case RedisPublishScreened show_time result se (rw_broker w) of
        (r, m) \<Rightarrow> Ret (r, w\<lparr>rw_screened_sent := rw_screened_sent w @ message_of m\<rparr>))"

definition r_recv_raw :: "nat \<Rightarrow> redis_world \<Rightarrow> tracking_event received \<times> redis_world" where
  "r_recv_raw ch w =
     (let b = rw_broker w; s = rb_raw b ! ch in
      case chan_recv (rs_chan s) of
        (v, c) \<Rightarrow> (v, w\<lparr>rw_broker := b\<lparr>rb_raw := (rb_raw b)[ch := s\<lparr>rs_chan := c\<rparr>]\<rparr>\<rparr>))"

definition r_recv_screened :: "nat \<Rightarrow> redis_world \<Rightarrow> screened_event received \<times> redis_world" where
  "r_recv_screened ch w =
     (let b = rw_broker w; s = rb_screened b ! ch in
      case chan_recv (rs_chan s) of
        (v, c) \<Rightarrow> (v, w\<lparr>rw_broker := b\<lparr>rb_screened := (rb_screened b)[ch := s\<lparr>rs_chan := c\<rparr>]\<rparr>\<rparr>))"

definition r_save_event :: "screened_event \<Rightarrow> redis_world \<Rightarrow> go_error option \<times> redis_world" where
  "r_save_event e w = (case SaveEvent e (rw_fraudRepo w) of (r, m) \<Rightarrow> (r, w\<lparr>rw_fraudRepo := m\<rparr>))"

definition r_delete_events :: "string \<Rightarrow> redis_world \<Rightarrow> (go_error + int) \<times> redis_world" where
  "r_delete_events u w =
     (case DeleteUserEvents u (rw_fraudRepo w, rw_mktRepo w) of
        (r, m, c) \<Rightarrow> (r, w\<lparr>rw_fraudRepo := m, rw_mktRepo := c\<rparr>))"

text \<open>The operations on the contacts and the log.\<close>

definition on_mkt :: "(memory_marketing_repo \<Rightarrow> 'r \<times> memory_marketing_repo) \<Rightarrow> redis_world \<Rightarrow> 'r \<times> redis_world" where
  "on_mkt f w = (case f (rw_mktRepo w) of (r, m) \<Rightarrow> (r, w\<lparr>rw_mktRepo := m\<rparr>))"

definition r_sync :: "crm_env \<Rightarrow> time \<Rightarrow> (nat \<Rightarrow> attempt_env) \<Rightarrow> crm_contact \<Rightarrow> redis_world \<Rightarrow> (go_error option \<times> redis_world) outcome" where
  "r_sync ce now env c w =
     (case SyncContact ce now env c (rw_adapter w) of
        Ret (r, h) \<Rightarrow> Ret (r, w\<lparr>rw_adapter := h\<rparr>)
      | Panic m \<Rightarrow> Panic m)"

lemmas redis_wiring = r_increment_def r_publish_raw_def r_publish_screened_def r_save_event_def r_delete_events_def
  on_mkt_def r_sync_def

definition r_ingest :: "time_text \<Rightarrow> go_error option \<Rightarrow> time \<Rightarrow> api_request \<Rightarrow> redis_world \<Rightarrow> (reply \<times> redis_world) outcome" where
  "r_ingest show_time result now = HandleIngest (r_publish_raw show_time result) r_increment now"

definition r_screen :: "time_text \<Rightarrow> go_error option \<Rightarrow> (nat \<Rightarrow> time) \<Rightarrow> tracking_event \<Rightarrow> redis_system \<Rightarrow> redis_system outcome" where
  "r_screen show_time result clock =
     ScreenEvent r_save_event r_increment (r_publish_screened show_time result) DefaultRules clock"

definition r_workflow :: "crm_env \<Rightarrow> time \<Rightarrow> (nat \<Rightarrow> attempt_env) \<Rightarrow> time \<Rightarrow> screened_event \<Rightarrow> redis_world \<Rightarrow> redis_world outcome" where
  "r_workflow ce now env = ProcessMarketingWorkflow r_increment (r_sync ce now env) (\<lambda>c. on_mkt (SaveCRMContact c))"

definition r_purge :: "(string \<Rightarrow> string) \<Rightarrow> time \<Rightarrow> time \<Rightarrow> api_request \<Rightarrow> redis_world \<Rightarrow> reply \<times> redis_world" where
  "r_purge sha256 =
     HandleGDPRDelete sha256 r_delete_events (\<lambda>u. on_mkt (DeleteCRMContact u)) (\<lambda>l. on_mkt (SavePrivacyLog l))"

definition r_export :: "(time \<Rightarrow> string) \<Rightarrow> time \<Rightarrow> api_request \<Rightarrow> redis_world \<Rightarrow> reply" where
  "r_export txt = HandleCCPAExport txt (\<lambda>u w. GetEventsByUserID u (rw_fraudRepo w)) (\<lambda>u w. GetCRMContact u (rw_mktRepo w))"

definition r_metrics :: "time \<Rightarrow> api_request \<Rightarrow> redis_world \<Rightarrow> reply" where
  "r_metrics now r w = HandleMetrics (GetMetrics now (rw_tracker w)) r"

section \<open>The steps\<close>

text \<open>A step of the program, the arrival of a message, or the next thing a forwarding goroutine does.\<close>

datatype redis_sys_op =
    RsProgram system_op
  | RsRawArrives nat json
  | RsScreenedArrives nat json
  | RsRawForwards nat
  | RsScreenedForwards nat

definition set_raw :: "nat \<Rightarrow> tracking_event redis_sub \<Rightarrow> redis_world \<Rightarrow> redis_world" where
  "set_raw i s w = w\<lparr>rw_broker := (rw_broker w)\<lparr>rb_raw := (rb_raw (rw_broker w))[i := s]\<rparr>\<rparr>"

definition set_screened :: "nat \<Rightarrow> screened_event redis_sub \<Rightarrow> redis_world \<Rightarrow> redis_world" where
  "set_screened i s w = w\<lparr>rw_broker := (rw_broker w)\<lparr>rb_screened := (rb_screened (rw_broker w))[i := s]\<rparr>\<rparr>"

inductive redis_sys_step :: "time_text \<Rightarrow> redis_system \<Rightarrow> redis_sys_op \<Rightarrow> redis_system \<Rightarrow> bool" for show_time where
  rs_ingest: "r_ingest show_time result now r w = Ret (rep, w') \<Longrightarrow>
    redis_sys_step show_time (st, w) (RsProgram (SysIngest r rep)) (st, w')"
| rs_fraud_subscribe: "RedisSubscribeRaw (rw_broker w) = (s, b) \<Longrightarrow>
    redis_sys_step show_time (st, w) (RsProgram (SysFraudSubscribe s)) (st, w\<lparr>rw_broker := b\<rparr>)"
| rs_marketing_subscribe: "RedisSubscribeScreened (rw_broker w) = (s, b) \<Longrightarrow>
    redis_sys_step show_time (st, w) (RsProgram (SysMarketingSubscribe s)) (st, w\<lparr>rw_broker := b\<rparr>)"
| rs_screen: "ch < length (rb_raw (rw_broker w)) \<Longrightarrow> r_recv_raw ch w = (Received e, w1) \<Longrightarrow>
    r_screen show_time result clock e (st, w1) = Ret (st', w') \<Longrightarrow>
    redis_sys_step show_time (st, w) (RsProgram (SysScreen ch e)) (st', w')"
| rs_skip: "ch < length (rb_screened (rw_broker w)) \<Longrightarrow> r_recv_screened ch w = (Received se, w1) \<Longrightarrow> IsFraudulent se \<Longrightarrow>
    redis_sys_step show_time (st, w) (RsProgram (SysWorkflow ch se)) (st, w1)"
| rs_workflow: "ch < length (rb_screened (rw_broker w)) \<Longrightarrow> r_recv_screened ch w = (Received se, w1) \<Longrightarrow> \<not> IsFraudulent se \<Longrightarrow>
    r_workflow ce now aenv now' se w1 = Ret w' \<Longrightarrow>
    redis_sys_step show_time (st, w) (RsProgram (SysWorkflow ch se)) (st, w')"
| rs_purge: "r_purge sha256 now1 now2 r w = (rep, w') \<Longrightarrow>
    redis_sys_step show_time (st, w) (RsProgram (SysPurge r rep)) (st, w')"
| rs_export: "redis_sys_step show_time (st, w) (RsProgram (SysExport r (r_export txt now r w))) (st, w)"
| rs_metrics: "redis_sys_step show_time (st, w) (RsProgram (SysMetrics r (r_metrics now r w))) (st, w)"
| rs_close: "RedisClose result (rw_broker w) = (ans, b) \<Longrightarrow>
    redis_sys_step show_time (st, w) (RsProgram SysClose) (st, w\<lparr>rw_broker := b\<rparr>)"
| rs_raw_arrives: "i < length (rb_raw (rw_broker w)) \<Longrightarrow> s = rb_raw (rw_broker w) ! i \<Longrightarrow> \<not> rs_ended s \<Longrightarrow>
    doc \<in> set (rw_raw_sent w) \<Longrightarrow>
    redis_sys_step show_time (st, w) (RsRawArrives i doc) (st, set_raw i (s\<lparr>rs_inbox := rs_inbox s @ [Some doc]\<rparr>) w)"
| rs_screened_arrives: "i < length (rb_screened (rw_broker w)) \<Longrightarrow> ss = rb_screened (rw_broker w) ! i \<Longrightarrow> \<not> rs_ended ss \<Longrightarrow>
    doc \<in> set (rw_screened_sent w) \<Longrightarrow>
    redis_sys_step show_time (st, w) (RsScreenedArrives i doc) (st, set_screened i (ss\<lparr>rs_inbox := rs_inbox ss @ [Some doc]\<rparr>) w)"
| rs_raw_forwards: "i < length (rb_raw (rw_broker w)) \<Longrightarrow>
    forward_step decode_tracking_event env (rb_raw (rw_broker w) ! i) = Some (Ret s') \<Longrightarrow>
    redis_sys_step show_time (st, w) (RsRawForwards i) (st, set_raw i s' w)"
| rs_screened_forwards: "i < length (rb_screened (rw_broker w)) \<Longrightarrow>
    forward_step decode_screened_event env (rb_screened (rw_broker w) ! i) = Some (Ret ss') \<Longrightarrow>
    redis_sys_step show_time (st, w) (RsScreenedForwards i) (st, set_screened i ss' w)"

section \<open>What travels\<close>

text \<open>
  What the program relies on of \<^verbatim>\<open>time.Time\<close> in JSON: a text it writes for an instant is read back as that instant.
\<close>

definition time_law :: "time_text \<Rightarrow> bool" where
  "time_law show_time \<longleftrightarrow> (\<forall>t s. show_time t = Inr s \<longrightarrow> parse_rfc3339 s = Some t)"

lemma time_law_text: "time_law show_time \<Longrightarrow> show_time t = Inr s \<Longrightarrow> time_text_ok (text_of show_time) t"
  by (simp add: time_law_def time_text_ok_def text_of_def)

lemma good_raw_travels:
  assumes "time_law show_time" "MarshalRaw show_time e = Inr doc" "good_event e"
  shows "\<exists>e'. decode_tracking_event doc = Some e' \<and> good_event e'"
proof -
  have "time_text_ok (text_of show_time) (Timestamp e)"
    using assms(2) time_law_text [OF assms(1)] by (auto simp: MarshalRaw_def split: sum.splits)
  then have d: "decode_tracking_event doc = Some (canonical_event e)"
    using MarshalRaw_read_back [OF assms(2)] assms(3) by (simp add: good_event_def event_in_type_def)
  with decode_tracking_go_payload [OF d] assms(3) show ?thesis
    by (simp add: good_event_def event_in_type_def conforming_def)
qed

lemma good_screened_travels:
  assumes "time_law show_time" "MarshalScreened show_time se = Inr doc" "good_screened se"
  shows "\<exists>se'. decode_screened_event doc = Some se' \<and> good_screened se'"
proof -
  obtain s1 s2 where "show_time (Timestamp (Tracking se)) = Inr s1" "show_time (ScreenedAt se) = Inr s2"
    using assms(2) by (auto simp: MarshalScreened_def split: sum.splits)
  then have times: "time_text_ok (text_of show_time) (Timestamp (Tracking se))" "time_text_ok (text_of show_time) (ScreenedAt se)"
    using time_law_text [OF assms(1)] by auto
  with assms(3) have "screened_ok (text_of show_time) se" by (simp add: verdict_travels good_screened_def)
  then have d: "decode_screened_event doc = Some (canonical_screened se)" by (rule MarshalScreened_read_back [OF assms(2)])
  have "decode_tracking_event (encode_tracking_event (text_of show_time) (Tracking se)) = Some (canonical_event (Tracking se))"
    using times assms(3) by (intro decode_encode_tracking) (simp_all add: good_screened_def verdict_in_type_def event_in_type_def)
  from decode_tracking_go_payload [OF this] d assms(3) show ?thesis
    by (simp add: good_screened_def verdict_in_type_def event_in_type_def conforming_def canonical_screened_def)
qed

section \<open>One subscription\<close>

text \<open>Everything on its way to the subscriber has the property.\<close>

definition sub_holds :: "(json \<Rightarrow> 'e option) \<Rightarrow> ('e \<Rightarrow> bool) \<Rightarrow> 'e redis_sub \<Rightarrow> bool" where
  "sub_holds d P s \<longleftrightarrow> (\<exists>n. sub_wf n s) \<and> (\<forall>e \<in> set (in_flight d s). P e)"

lemma sub_holds_new: "sub_holds d P (new_sub n)"
  using new_sub_ok(1) by (auto simp: sub_holds_def new_sub_ok(2) [of d n])

lemma sub_holds_step:
  assumes "sub_step d s (a, t) s'" "sub_holds d P s" "\<forall>e \<in> set (decoded d a). P e"
  shows "sub_holds d P s' \<and> (\<forall>e \<in> set t. P e)"
proof -
  obtain n where n: "sub_wf n s" using assms(2) by (auto simp: sub_holds_def)
  from sub_step_ok [OF assms(1) n] have s': "sub_wf n s'" "prefix (t @ in_flight d s') (in_flight d s @ decoded d a)" by auto
  have "set (t @ in_flight d s') \<subseteq> set (in_flight d s @ decoded d a)" by (rule set_mono_prefix [OF s'(2)])
  with assms(2,3) s'(1) show ?thesis by (auto simp: sub_holds_def)
qed

lemma sub_holds_end: "sub_holds d P s \<Longrightarrow> sub_holds d P (s\<lparr>rs_ended := True\<rparr>)"
  by (auto simp: sub_holds_def sub_wf_def in_flight_def)

lemma sub_holds_receive:
  assumes "chan_recv (rs_chan s) = (v, c)" "sub_holds d P s"
  shows "sub_holds d P (s\<lparr>rs_chan := c\<rparr>) \<and> (\<forall>e. v = Received e \<longrightarrow> P e)"
  using sub_holds_step [OF sub_receive [OF assms(1)] assms(2)] by auto

lemma list_all_update: "list_all Q xs \<Longrightarrow> Q x \<Longrightarrow> list_all Q (xs[i := x])"
  using set_update_subset_insert by (fastforce simp: list_all_iff)

section \<open>What holds of every state\<close>

abbreviation raw_holds :: "redis_world \<Rightarrow> bool" where
  "raw_holds w \<equiv> list_all (sub_holds decode_tracking_event good_event) (rb_raw (rw_broker w))"

abbreviation screened_holds :: "redis_world \<Rightarrow> bool" where
  "screened_holds w \<equiv> list_all (sub_holds decode_screened_event good_screened) (rb_screened (rw_broker w))"

text \<open>The documents on the wire can be read, and what is read is good.\<close>

definition wire_holds :: "redis_world \<Rightarrow> bool" where
  "wire_holds w \<longleftrightarrow> (\<forall>doc \<in> set (rw_raw_sent w). \<exists>e. decode_tracking_event doc = Some e \<and> good_event e) \<and>
     (\<forall>doc \<in> set (rw_screened_sent w). \<exists>se. decode_screened_event doc = Some se \<and> good_screened se)"

definition redis_world_ok :: "redis_world \<Rightarrow> bool" where
  "redis_world_ok w \<longleftrightarrow> raw_holds w \<and> screened_holds w \<and> wire_holds w \<and>
     store_holds good_screened (rw_fraudRepo w, rw_mktRepo w) \<and> rc_maxRetries (ha_crmClient (rw_adapter w)) = 2"

lemma redis_ok_simps [simp]:
  "redis_world_ok (w\<lparr>rw_tracker := t\<rparr>) = redis_world_ok w"
  "redis_world_ok (w\<lparr>rw_mktRepo := m\<rparr>) = redis_world_ok w"
  by (simp_all add: redis_world_ok_def wire_holds_def good.store_holds_contacts [of "rw_fraudRepo w" m "rw_mktRepo w"])

lemma redis_ok_raw_sent:
  assumes "redis_world_ok w" "time_law show_time" "good_event e" "RedisPublishRaw show_time result e b = (r, m)"
  shows "redis_world_ok (w\<lparr>rw_raw_sent := rw_raw_sent w @ message_of m\<rparr>)"
proof -
  have "\<exists>e'. decode_tracking_event doc = Some e' \<and> good_event e'" if "doc \<in> set (message_of m)" for doc
    using that assms(4) good_raw_travels [OF assms(2) _ assms(3)]
    by (auto simp: message_of_def RedisPublishRaw_def split: if_splits sum.splits option.splits)
  with assms(1) show ?thesis by (auto simp: redis_world_ok_def wire_holds_def)
qed

lemma redis_ok_screened_sent:
  assumes "redis_world_ok w" "time_law show_time" "good_screened se" "RedisPublishScreened show_time result se b = (r, m)"
  shows "redis_world_ok (w\<lparr>rw_screened_sent := rw_screened_sent w @ message_of m\<rparr>)"
proof -
  have "\<exists>se'. decode_screened_event doc = Some se' \<and> good_screened se'" if "doc \<in> set (message_of m)" for doc
    using that assms(4) good_screened_travels [OF assms(2) _ assms(3)]
    by (auto simp: message_of_def RedisPublishScreened_def split: if_splits sum.splits option.splits)
  with assms(1) show ?thesis by (auto simp: redis_world_ok_def wire_holds_def)
qed

lemma redis_ok_set_raw:
  "redis_world_ok w \<Longrightarrow> sub_holds decode_tracking_event good_event s \<Longrightarrow> redis_world_ok (set_raw i s w)"
  by (simp add: redis_world_ok_def set_raw_def wire_holds_def list_all_update)

lemma redis_ok_set_screened:
  "redis_world_ok w \<Longrightarrow> sub_holds decode_screened_event good_screened s \<Longrightarrow> redis_world_ok (set_screened i s w)"
  by (simp add: redis_world_ok_def set_screened_def wire_holds_def list_all_update)

lemma sub_of_ok:
  assumes "redis_world_ok w"
  shows "i < length (rb_raw (rw_broker w)) \<Longrightarrow> sub_holds decode_tracking_event good_event (rb_raw (rw_broker w) ! i)"
    and "j < length (rb_screened (rw_broker w)) \<Longrightarrow> sub_holds decode_screened_event good_screened (rb_screened (rw_broker w) ! j)"
  using assms by (simp_all add: redis_world_ok_def list_all_length)

lemma r_recv_raw_ok:
  assumes "r_recv_raw ch w = (v, w')" "ch < length (rb_raw (rw_broker w))" "redis_world_ok w"
  shows "redis_world_ok w' \<and> (\<forall>e. v = Received e \<longrightarrow> good_event e)"
proof -
  obtain c where c: "chan_recv (rs_chan (rb_raw (rw_broker w) ! ch)) = (v, c)"
      "w' = set_raw ch ((rb_raw (rw_broker w) ! ch)\<lparr>rs_chan := c\<rparr>) w"
    using assms(1) by (auto simp: r_recv_raw_def set_raw_def Let_def split: prod.splits)
  from sub_holds_receive [OF c(1) sub_of_ok(1) [OF assms(3,2)]] redis_ok_set_raw [OF assms(3)] c(2) show ?thesis by simp
qed

lemma r_recv_screened_ok:
  assumes "r_recv_screened ch w = (v, w')" "ch < length (rb_screened (rw_broker w))" "redis_world_ok w"
  shows "redis_world_ok w' \<and> (\<forall>se. v = Received se \<longrightarrow> good_screened se)"
proof -
  obtain c where c: "chan_recv (rs_chan (rb_screened (rw_broker w) ! ch)) = (v, c)"
      "w' = set_screened ch ((rb_screened (rw_broker w) ! ch)\<lparr>rs_chan := c\<rparr>) w"
    using assms(1) by (auto simp: r_recv_screened_def set_screened_def Let_def split: prod.splits)
  from sub_holds_receive [OF c(1) sub_of_ok(2) [OF assms(3,2)]] redis_ok_set_screened [OF assms(3)] c(2) show ?thesis by simp
qed

section \<open>What the handlers and workers do\<close>

lemma r_ingest_ok:
  assumes "r_ingest show_time result now r w = Ret (rep, w')" "redis_world_ok w" "time_law show_time"
  shows "redis_world_ok w'"
proof (cases "admitted now r")
  case None
  show ?thesis
    by (rule HandleIngest_refused [OF None, where 'w = redis_world])
      (use assms(1,2) in \<open>auto simp: r_ingest_def r_increment_def\<close>)
next
  case (Some e)
  then have good: "good_event e" using good.admitted_P by blast
  obtain a m where m: "RedisPublishRaw show_time result e (rw_broker w) = (a, m)" by fastforce
  from redis_ok_raw_sent [OF assms(2,3) good m] assms(1) Some m show ?thesis
    by (auto simp: r_ingest_def HandleIngest_admitted r_publish_raw_def r_increment_def split: option.splits)
qed

lemma r_screen_ok:
  assumes "r_screen show_time result clock e (st, w) = Ret (st', w')" "redis_world_ok w" "time_law show_time" "good_event e"
  shows "redis_world_ok w'"
proof -
  obtain se st1 where sc: "screen DefaultRules clock e st = (se, st1)" by fastforce
  then have se: "good_screened se" by (rule good.screened_Q [OF assms(4)])
  let ?w1 = "w\<lparr>rw_fraudRepo := snd (SaveEvent se (rw_fraudRepo w))\<rparr>"
  obtain a m where m: "RedisPublishScreened show_time result se (rw_broker w) = (a, m)" by fastforce
  have "redis_world_ok ?w1"
    using assms(2) good.store_holds_save [OF _ se, of "rw_fraudRepo w" "rw_mktRepo w"]
    by (simp add: redis_world_ok_def wire_holds_def)
  then have "redis_world_ok (?w1\<lparr>rw_tracker := t\<rparr>)" for t by simp
  from redis_ok_screened_sent [OF this assms(3) se m]
  have "redis_world_ok (w\<lparr>rw_fraudRepo := snd (SaveEvent se (rw_fraudRepo w)), rw_tracker := t,
      rw_screened_sent := rw_screened_sent w @ message_of m\<rparr>)" for t by simp
  with assms(1) sc m show ?thesis
    by (auto simp: r_screen_def ScreenEvent_def redis_wiring SaveEvent_def Let_def split: if_splits)
qed

lemma r_workflow_returns:
  assumes "rc_maxRetries (ha_crmClient (rw_adapter w)) = 2"
  shows "\<exists>w'. r_workflow ce now env now' se w = Ret w'"
proof (cases "workflow_of (EventType (Tracking se))")
  case (Some wf)
  have "no_panic (SyncContact ce now env (new_contact now' wf (Tracking se)) (rw_adapter w))"
    using assms by (intro SyncContact_no_panic) simp
  then obtain r h where "SyncContact ce now env (new_contact now' wf (Tracking se)) (rw_adapter w) = Ret (r, h)"
    by (cases "SyncContact ce now env (new_contact now' wf (Tracking se)) (rw_adapter w)") auto
  with Some show ?thesis
    by (cases r) (simp_all add: r_workflow_def ProcessMarketingWorkflow_def redis_wiring Let_def)
qed (simp add: r_workflow_def ProcessMarketingWorkflow_def)

lemma r_workflow_ok:
  assumes "r_workflow ce now env now' se w = Ret w'" "redis_world_ok w"
  shows "redis_world_ok w'"
proof (cases "workflow_of (EventType (Tracking se))")
  case None
  with assms show ?thesis by (simp add: r_workflow_def ProcessMarketingWorkflow_def)
next
  case (Some wf)
  then obtain r h t m where h: "SyncContact ce now env (new_contact now' wf (Tracking se)) (rw_adapter w) = Ret (r, h)"
      "w' = w\<lparr>rw_adapter := h, rw_tracker := t, rw_mktRepo := m\<rparr>"
    using assms(1)
    by (auto simp: r_workflow_def ProcessMarketingWorkflow_def redis_wiring Let_def SaveCRMContact_def
        split: outcome.splits option.splits)
  have "redis_world_ok (w\<lparr>rw_adapter := h\<rparr>)"
    using assms(2) SyncContact_maxRetries [OF h(1)] by (simp add: redis_world_ok_def wire_holds_def)
  then show ?thesis by (simp add: h(2))
qed

lemma on_mkt_ok: "redis_world_ok w \<Longrightarrow> redis_world_ok (snd (on_mkt f w))"
  by (simp add: on_mkt_def split_beta)

lemma r_delete_events_ok:
  assumes "redis_world_ok w"
  shows "redis_world_ok (snd (r_delete_events u w))"
proof -
  have "snd (r_delete_events u w) = w\<lparr>rw_fraudRepo := fst (snd (DeleteUserEvents u (rw_fraudRepo w, rw_mktRepo w))),
      rw_mktRepo := snd (snd (DeleteUserEvents u (rw_fraudRepo w, rw_mktRepo w)))\<rparr>"
    by (simp add: r_delete_events_def split_beta)
  with assms good.store_holds_purge [of "(rw_fraudRepo w, rw_mktRepo w)" u] show ?thesis
    by (simp add: redis_world_ok_def wire_holds_def)
qed

lemma r_purge_ok:
  assumes "r_purge sha256 now1 now2 r w = (rep, w')" "redis_world_ok w"
  shows "redis_world_ok w'"
proof -
  let ?u = "case decode_body decode_user_id r of None \<Rightarrow> [] | Some u \<Rightarrow> u"
  obtain n w1 where d: "r_delete_events ?u w = (n, w1)" by fastforce
  with r_delete_events_ok [OF assms(2), of ?u] have "redis_world_ok w1" by simp
  with assms d show ?thesis
    by (cases n) (auto simp: r_purge_def HandleGDPRDelete_def Let_def on_mkt_ok split: if_splits)
qed

section \<open>Every state of the program\<close>

lemma redis_ok_broker:
  assumes "redis_world_ok w" "list_all (sub_holds decode_tracking_event good_event) (rb_raw b)"
    and "list_all (sub_holds decode_screened_event good_screened) (rb_screened b)"
  shows "redis_world_ok (w\<lparr>rw_broker := b\<rparr>)"
  using assms by (simp add: redis_world_ok_def wire_holds_def)

lemma redis_ok_subs:
  assumes "redis_world_ok w"
  shows "raw_holds w" "screened_holds w"
  using assms by (simp_all add: redis_world_ok_def)

lemma list_all_end: "list_all (sub_holds d P) ss \<Longrightarrow> list_all (sub_holds d P) (map (rs_ended_update (\<lambda>_. True)) ss)"
  by (auto simp: list_all_iff intro: sub_holds_end)

lemma arrival_holds:
  assumes "\<not> rs_ended s" "sub_holds d P s" "d doc = Some e" "P e"
  shows "sub_holds d P (s\<lparr>rs_inbox := rs_inbox s @ [Some doc]\<rparr>)"
  using sub_holds_step [OF sub_arrive [OF assms(1), of d "Some doc"] assms(2)] assms(3,4) by (simp add: unmarshal_def)

lemma forward_holds: "forward_step d env s = Some (Ret s') \<Longrightarrow> sub_holds d P s \<Longrightarrow> sub_holds d P s'"
  using sub_holds_step [OF sub_forward, of d env s s' P] by simp

lemma redis_step_ok:
  "redis_sys_step show_time s op s' \<Longrightarrow> time_law show_time \<Longrightarrow> redis_world_ok (snd s) \<Longrightarrow> redis_world_ok (snd s')"
proof (induction rule: redis_sys_step.induct)
  case (rs_ingest result now r w rep w' st)
  then show ?case using r_ingest_ok by simp
next
  case (rs_fraud_subscribe w s b st)
  with redis_ok_subs [of w] show ?case
    by (auto simp: RedisSubscribeRaw_def sub_holds_new intro!: redis_ok_broker split: if_splits)
next
  case (rs_marketing_subscribe w s b st)
  with redis_ok_subs [of w] show ?case
    by (auto simp: RedisSubscribeScreened_def sub_holds_new intro!: redis_ok_broker split: if_splits)
next
  case (rs_screen ch w e w1 result clock st st' w')
  with r_recv_raw_ok [OF rs_screen(2,1)] r_screen_ok [OF rs_screen(3)] show ?case by simp
next
  case (rs_skip ch w se w1 st)
  with r_recv_screened_ok [OF rs_skip(2,1)] show ?case by simp
next
  case (rs_workflow ch w se w1 ce now aenv now' w' st)
  with r_recv_screened_ok [OF rs_workflow(2,1)] r_workflow_ok [OF rs_workflow(4)] show ?case by simp
next
  case (rs_purge sha256 now1 now2 r w rep w' st)
  then show ?case using r_purge_ok by simp
next
  case (rs_close result w ans b st)
  with redis_ok_subs [of w] show ?case
    by (auto simp: RedisClose_def list_all_end intro!: redis_ok_broker split: if_splits)
next
  case (rs_raw_arrives i w s doc st)
  then obtain e where "decode_tracking_event doc = Some e" "good_event e"
    by (auto simp: redis_world_ok_def wire_holds_def)
  with rs_raw_arrives sub_of_ok(1) [of w i] show ?case by (simp add: redis_ok_set_raw arrival_holds)
next
  case (rs_screened_arrives i w ss doc st)
  then obtain se where "decode_screened_event doc = Some se" "good_screened se"
    by (auto simp: redis_world_ok_def wire_holds_def)
  with rs_screened_arrives sub_of_ok(2) [of w i] show ?case by (simp add: redis_ok_set_screened arrival_holds)
next
  case (rs_raw_forwards i w env s' st)
  with sub_of_ok(1) [of w i] forward_holds [OF rs_raw_forwards(2)] show ?case by (simp add: redis_ok_set_raw)
next
  case (rs_screened_forwards i w env ss' st)
  with sub_of_ok(2) [of w i] forward_holds [OF rs_screened_forwards(2)] show ?case by (simp add: redis_ok_set_screened)
qed simp_all

lemma redis_ok_New:
  assumes "initBroker be cfg = Boots (RedisChoice b)"
  shows "redis_world_ok (snd (NewRedisMonolith cfg b now))"
proof -
  have b: "rb_raw b = []" "rb_screened b = []"
    using assms by (auto simp: initBroker_def NewRedisBroker_def split: if_splits option.splits sum.splits prod.splits)
  have "store_holds good_screened (NewMemoryFraudRepository (Some crm_deleter), NewMemoryMarketingRepository)"
    using good.world_holds_New [of cfg now] by (simp add: world_holds_def store_of_def NewMonolith_def)
  with b show ?thesis
    by (simp add: redis_world_ok_def wire_holds_def NewRedisMonolith_def NewHTTPCRMAdapter_def NewResilientClient_def)
qed

lemma redis_ok_run:
  assumes "initBroker be cfg = Boots (RedisChoice b)" "time_law show_time"
    and "run (redis_sys_step show_time) (NewRedisMonolith cfg b now) ops s"
  shows "redis_world_ok (snd s)"
  using run_invariant [OF assms(3), of "\<lambda>s. redis_world_ok (snd s)"] redis_ok_New [OF assms(1)]
    redis_step_ok [OF _ assms(2)] by blast

section \<open>Properties\<close>

text \<open>
  C36: Over Redis too only good events are anywhere in the program, although its channels are fed by what arrives
  from outside: if what arrives was published by the program and instants survive their text, then in every
  reachable state each event that waits in a subscription, is held by its goroutine or lies in the
  repository is conforming and within its types. Every document the program has handed to
  Redis is read back as such an event, so its goroutines skip none of them, whatever Redis loses, repeats or reorders.
\<close>
theorem redis_only_good_events:
  assumes "initBroker be cfg = Boots (RedisChoice b)" "time_law show_time"
    and "run (redis_sys_step show_time) (NewRedisMonolith cfg b now) ops (st, w)"
  shows "(\<forall>s \<in> set (rb_raw (rw_broker w)). \<forall>e \<in> set (in_flight decode_tracking_event s). conforming e \<and> event_in_type e) \<and>
    (\<forall>s \<in> set (rb_screened (rw_broker w)). \<forall>se \<in> set (in_flight decode_screened_event s).
       conforming (Tracking se) \<and> verdict_in_type se) \<and>
    (\<forall>u ses se. GetEventsByUserID u (rw_fraudRepo w) = Inr ses \<and> se \<in> set ses \<longrightarrow>
       conforming (Tracking se) \<and> verdict_in_type se \<and> UserID (Tracking se) = u) \<and>
    (\<forall>doc \<in> set (rw_raw_sent w). \<exists>e. decode_tracking_event doc = Some e \<and> conforming e) \<and>
    (\<forall>doc \<in> set (rw_screened_sent w). \<exists>se. decode_screened_event doc = Some se \<and> conforming (Tracking se))"
proof -
  note ok = redis_ok_run [OF assms, simplified]
  have "good_screened se \<and> UserID (Tracking se) = u" if "GetEventsByUserID u (rw_fraudRepo w) = Inr ses" "se \<in> set ses" for u ses se
  proof -
    from that(1) have ses: "repo_events u (rw_fraudRepo w, rw_mktRepo w) = ses" by (simp add: repo_events_def)
    have "good_screened se" using ok that(2) ses by (auto simp: redis_world_ok_def store_holds_def)
    moreover have "event_user se = u"
      using ok that(2) ses by (auto simp: redis_world_ok_def store_holds_def repo_inv_def repo_events_slice)
    ultimately show ?thesis by (simp add: event_user_def)
  qed
  with ok show ?thesis
    unfolding redis_world_ok_def wire_holds_def list_all_iff sub_holds_def good_event_def good_screened_def by blast
qed

text \<open>
  C37: Nothing panics over Redis: in every reachable state every handler and every worker's turn returns, whatever the client
  answers to a publication, and the next thing a forwarding goroutine does is never a send on a closed channel
  or a second close.
\<close>
theorem redis_nothing_panics:
  assumes "initBroker be cfg = Boots (RedisChoice b)" "time_law show_time"
    and "run (redis_sys_step show_time) (NewRedisMonolith cfg b now) ops (st, w)"
  shows "(\<forall>result now r. \<exists>rep w'. r_ingest show_time result now r w = Ret (rep, w')) \<and>
    (\<forall>result clock e. \<exists>s'. r_screen show_time result clock e (st, w) = Ret s') \<and>
    (\<forall>ce now env now' se. \<exists>w'. r_workflow ce now env now' se w = Ret w') \<and>
    (\<forall>s \<in> set (rb_raw (rw_broker w)). \<forall>env m. forward_step decode_tracking_event env s \<noteq> Some (Panic m)) \<and>
    (\<forall>s \<in> set (rb_screened (rw_broker w)). \<forall>env m. forward_step decode_screened_event env s \<noteq> Some (Panic m))"
proof (intro conjI allI ballI)
  note ok = redis_ok_run [OF assms, simplified]
  fix result now r
  show "\<exists>rep w'. r_ingest show_time result now r w = Ret (rep, w')"
  proof (cases "admitted now r")
    case None
    show ?thesis by (rule HandleIngest_refused [OF None, where 'w = redis_world]) (auto simp: r_ingest_def)
  next
    case (Some e)
    then show ?thesis by (auto simp: r_ingest_def HandleIngest_admitted r_publish_raw_def split: option.splits prod.splits)
  qed
next
  fix result clock e
  show "\<exists>s'. r_screen show_time result clock e (st, w) = Ret s'"
    by (auto simp: r_screen_def ScreenEvent_def r_publish_screened_def Let_def split: prod.splits)
next
  fix ce now env now' se
  show "\<exists>w'. r_workflow ce now env now' se w = Ret w'"
    using redis_ok_run [OF assms] by (intro r_workflow_returns) (simp add: redis_world_ok_def)
next
  fix s env m assume "s \<in> set (rb_raw (rw_broker w))"
  then obtain n where "sub_wf n s"
    using redis_ok_run [OF assms] by (auto simp: redis_world_ok_def list_all_iff sub_holds_def)
  then show "forward_step decode_tracking_event env s \<noteq> Some (Panic m)" using forward_step_ok by fastforce
next
  fix s env m assume "s \<in> set (rb_screened (rw_broker w))"
  then obtain n where "sub_wf n s"
    using redis_ok_run [OF assms] by (auto simp: redis_world_ok_def list_all_iff sub_holds_def)
  then show "forward_step decode_screened_event env s \<noteq> Some (Panic m)" using forward_step_ok by fastforce
qed

text \<open>A sample over Redis: a sign-up is posted, its document arrives and is forwarded to the fraud worker's channel.\<close>

definition redis_cfg :: config where
  "redis_cfg = LoadConfig [''BROKER_TYPE'' \<mapsto> ''redis'']"

definition epoch_text :: time_text where
  "epoch_text t = (if t = unix_epoch then Inr ''1970-01-01T00:00:00Z'' else Inl (NewError ''year outside of range''))"

definition fresh_redis :: redis_broker where
  "fresh_redis = \<lparr>rb_raw = [], rb_screened = [], rb_closed = False, rb_bufferSize = 10000\<rparr>"

definition epoch_event :: tracking_event where
  "epoch_event = sample_event\<lparr>Timestamp := unix_epoch\<rparr>"

definition epoch_document :: json where
  "epoch_document = encode_tracking_event (text_of epoch_text) epoch_event"

lemma epoch_law: "time_law epoch_text"
  unfolding time_law_def epoch_text_def
  by (auto split: if_splits) code_simp

lemma redis_sample_boot: "initBroker all_up redis_cfg = Boots (RedisChoice fresh_redis)"
proof -
  have "nat PingRetries = Suc 9" by (simp add: PingRetries_def)
  then have "NewRedisBroker None (\<lambda>k. None) broker_buffer = (Inr fresh_redis, [])"
    unfolding NewRedisBroker_def by (simp only: ping_loop.simps option.case prod.case) (simp add: broker_buffer_def fresh_redis_def)
  moreover have "uses_redis redis_cfg" by (simp add: uses_redis_def redis_cfg_def LoadConfig_def getEnv_def)
  ultimately show ?thesis by (simp add: initBroker_def all_up_def)
qed

lemma epoch_admitted: "admitted unix_epoch sample_request = Some epoch_event"
  by (simp add: admitted_def sample_request_def decode_body_def decode_tracking_event_def tracking_fields_def find_field_def
      zero_tracking_event_def CheckGDPRConsent_def IsZero_def epoch_event_def sample_event_def)

lemma epoch_published: "RedisPublishRaw epoch_text None epoch_event (fresh_redis\<lparr>rb_raw := ss\<rparr>) = (None, Some epoch_document)"
  by (simp add: RedisPublishRaw_def MarshalRaw_def fresh_redis_def epoch_document_def epoch_event_def epoch_text_def)

lemma epoch_decodes: "decode_tracking_event epoch_document = Some (canonical_event epoch_event)"
proof -
  have "MarshalRaw epoch_text epoch_event = Inr epoch_document"
    by (simp add: MarshalRaw_def epoch_document_def epoch_event_def epoch_text_def)
  moreover have "time_text_ok (text_of epoch_text) (Timestamp epoch_event)"
    by (rule time_law_text [OF epoch_law]) (simp add: epoch_event_def epoch_text_def)
  ultimately show ?thesis
    by (rule MarshalRaw_read_back) (simp add: epoch_event_def sample_event_def zero_tracking_event_def go_payload_def)
qed

definition redis_sample_ops :: "redis_sys_op list" where
  "redis_sample_ops = [RsProgram (SysFraudSubscribe (Inr 0)), RsProgram (SysIngest sample_request accepted_reply),
     RsRawArrives 0 epoch_document, RsRawForwards 0, RsRawForwards 0]"

lemma redis_sample_run:
  "\<exists>st w. run (redis_sys_step epoch_text) (NewRedisMonolith redis_cfg fresh_redis 0) redis_sample_ops (st, w) \<and>
     map (ch_buf \<circ> rs_chan) (rb_raw (rw_broker w)) = [[canonical_event epoch_event]]"
proof -
  obtain w0 where w0: "NewRedisMonolith redis_cfg fresh_redis 0 = (NewRuleState, w0)" "rw_broker w0 = fresh_redis"
    by (simp add: NewRedisMonolith_def)
  let ?s0 = "new_sub 10000 :: tracking_event redis_sub" and ?st = NewRuleState
  let ?w1 = "w0\<lparr>rw_broker := fresh_redis\<lparr>rb_raw := [?s0]\<rparr>\<rparr>"
  let ?w2 = "r_increment ''total_received'' 1 (?w1\<lparr>rw_raw_sent := rw_raw_sent ?w1 @ message_of (Some epoch_document)\<rparr>)"
  let ?s1 = "?s0\<lparr>rs_inbox := rs_inbox ?s0 @ [Some epoch_document]\<rparr>"
  let ?s2 = "?s1\<lparr>rs_inbox := [], rs_task := Holding (canonical_event epoch_event)\<rparr>"
  let ?s3 = "?s2\<lparr>rs_task := Waiting, rs_chan := (rs_chan ?s2)\<lparr>ch_buf := ch_buf (rs_chan ?s2) @ [canonical_event epoch_event]\<rparr>\<rparr>"
  let ?idle = "\<lparr>se_done = None, se_pick_send = True\<rparr>"
  have "RedisSubscribeRaw (rw_broker w0) = (Inr 0, fresh_redis\<lparr>rb_raw := [?s0]\<rparr>)"
    unfolding w0(2) by (simp add: RedisSubscribeRaw_def fresh_redis_def)
  from rs_fraud_subscribe [OF this] have s1: "redis_sys_step epoch_text (?st, w0) (RsProgram (SysFraudSubscribe (Inr 0))) (?st, ?w1)" .
  have "r_ingest epoch_text None unix_epoch sample_request ?w1 = Ret (accepted_reply, ?w2)"
    by (simp add: r_ingest_def HandleIngest_admitted [OF epoch_admitted] r_publish_raw_def epoch_published accepted_reply_def)
  then have s2: "redis_sys_step epoch_text (?st, ?w1) (RsProgram (SysIngest sample_request accepted_reply)) (?st, ?w2)" by (rule rs_ingest)
  have s3: "redis_sys_step epoch_text (?st, ?w2) (RsRawArrives 0 epoch_document) (?st, set_raw 0 ?s1 ?w2)"
    by (rule rs_raw_arrives) (simp_all add: r_increment_def message_of_def new_sub_def)
  have s4: "redis_sys_step epoch_text (?st, set_raw 0 ?s1 ?w2) (RsRawForwards 0) (?st, set_raw 0 ?s2 (set_raw 0 ?s1 ?w2))"
    by (rule rs_raw_forwards [where env = ?idle])
      (simp_all add: set_raw_def r_increment_def forward_step_def new_sub_def unmarshal_def epoch_decodes)
  have s5: "redis_sys_step epoch_text (?st, set_raw 0 ?s2 (set_raw 0 ?s1 ?w2)) (RsRawForwards 0)
      (?st, set_raw 0 ?s3 (set_raw 0 ?s2 (set_raw 0 ?s1 ?w2)))"
    by (rule rs_raw_forwards [where env = ?idle])
      (simp_all add: set_raw_def r_increment_def forward_step_def new_sub_def make_chan_def send_ready_def)
  have "run (redis_sys_step epoch_text) (NewRedisMonolith redis_cfg fresh_redis 0) redis_sample_ops
      (?st, set_raw 0 ?s3 (set_raw 0 ?s2 (set_raw 0 ?s1 ?w2)))"
    unfolding redis_sample_ops_def w0(1)
    by (rule run.intros(2), rule s1, rule run.intros(2), rule s2, rule run.intros(2), rule s3, rule run.intros(2), rule s4,
        rule run.intros(2), rule s5, rule run.intros(1))
  then show ?thesis
    by (intro exI conjI) (auto simp: set_raw_def r_increment_def new_sub_def make_chan_def)
qed

theorem redis_only_good_events_witness:
  "\<exists>st w s. run (redis_sys_step epoch_text) (NewRedisMonolith redis_cfg fresh_redis 0) redis_sample_ops (st, w) \<and>
     rb_raw (rw_broker w) = [s] \<and> canonical_event epoch_event \<in> set (ch_buf (rs_chan s)) \<and> conforming (canonical_event epoch_event)"
proof -
  obtain st w where r: "run (redis_sys_step epoch_text) (NewRedisMonolith redis_cfg fresh_redis 0) redis_sample_ops (st, w)"
      "map (ch_buf \<circ> rs_chan) (rb_raw (rw_broker w)) = [[canonical_event epoch_event]]"
    using redis_sample_run by (elim exE conjE)
  then obtain s where s: "rb_raw (rw_broker w) = [s]" "ch_buf (rs_chan s) = [canonical_event epoch_event]"
    by (cases "rb_raw (rw_broker w)") auto
  then have "canonical_event epoch_event \<in> set (in_flight decode_tracking_event s)" by (simp add: in_flight_def)
  with redis_only_good_events [OF redis_sample_boot epoch_law r(1)] s(1) have "conforming (canonical_event epoch_event)" by simp
  with r(1) s show ?thesis by (intro exI [of _ st] exI [of _ w] exI [of _ s]) simp
qed

theorem redis_nothing_panics_witness:
  "\<exists>st w rep w'. run (redis_sys_step epoch_text) (NewRedisMonolith redis_cfg fresh_redis 0) redis_sample_ops (st, w) \<and>
     r_ingest epoch_text (Some Canceled) unix_epoch sample_request w = Ret (rep, w')"
proof -
  obtain st w where r: "run (redis_sys_step epoch_text) (NewRedisMonolith redis_cfg fresh_redis 0) redis_sample_ops (st, w)"
    using redis_sample_run by (elim exE conjE)
  have "\<forall>result now r. \<exists>rep w'. r_ingest epoch_text result now r w = Ret (rep, w')"
    by (rule conjunct1 [OF redis_nothing_panics [OF redis_sample_boot epoch_law r]])
  then obtain rep w' where "r_ingest epoch_text (Some Canceled) unix_epoch sample_request w = Ret (rep, w')" by blast
  with r show ?thesis by (intro exI conjI)
qed

end
