(* ===== verification/Servers.thy ===== *)
theory Servers
  imports Deployments SampleRuns
begin

text \<open>
  The HTTP surface of the programs: the routes each service registers (\<^verbatim>\<open>SetupRoutes\<close>), the servers
  \<^verbatim>\<open>main\<close> starts on the configured ports, and what a request to a port and a path does to the program.
\<close>

section \<open>Routes\<close>

datatype endpoint = IngestEvents | GDPRDelete | CCPAExport | MetricsAPI | DashboardPage

text \<open>
  \<^verbatim>\<open>mux.HandleFunc(pattern, handler)\<close>. None of the patterns ends in a slash, has a wildcard or a method: each
  matches the request whose (cleaned) path it is. A path that is not clean is redirected to its clean form before.
\<close>

type_synonym mux = "(string \<times> endpoint) list"

definition ingest_SetupRoutes :: mux where
  "ingest_SetupRoutes = [(''/v1/events'', IngestEvents)]"

definition marketing_SetupRoutes :: mux where
  "marketing_SetupRoutes = [(''/v1/privacy/gdpr-delete'', GDPRDelete), (''/v1/privacy/ccpa-export'', CCPAExport)]"

definition analytics_SetupRoutes :: mux where
  "analytics_SetupRoutes = [(''/v1/metrics'', MetricsAPI), (''/v1/dashboard'', DashboardPage)]"

text \<open>The servers of \<^verbatim>\<open>main\<close>; the mock CRM answers on every path.\<close>

datatype server = CRMServer | IngestServer | MarketingServer | AnalyticsServer

fun mux_of :: "server \<Rightarrow> mux" where
  "mux_of CRMServer = []"
| "mux_of IngestServer = ingest_SetupRoutes"
| "mux_of MarketingServer = marketing_SetupRoutes"
| "mux_of AnalyticsServer = analytics_SetupRoutes"

section \<open>Ports\<close>

fun monolith_port :: "config \<Rightarrow> server \<Rightarrow> string" where
  "monolith_port cfg CRMServer = PortCRM cfg"
| "monolith_port cfg IngestServer = PortIngest cfg"
| "monolith_port cfg MarketingServer = PortMarketing cfg"
| "monolith_port cfg AnalyticsServer = PortAnalytics cfg"

fun orchestrator_port :: "server \<Rightarrow> string" where
  "orchestrator_port CRMServer = ''8084''"
| "orchestrator_port IngestServer = ''8081''"
| "orchestrator_port MarketingServer = ''8082''"
| "orchestrator_port AnalyticsServer = ''8083''"

text \<open>
  \<^verbatim>\<open>_ = srv.ListenAndServe()\<close>, in the order in which the goroutines get to it. \<open>resolve srv port\<close> is the number the
  host makes of the text for this server (a number of its own choice for port 0), or \<^const>\<open>None\<close> if it
  cannot listen there. A server that cannot listen is not there, and nobody is told.
\<close>

definition listen :: "(server \<Rightarrow> string \<Rightarrow> nat option) \<Rightarrow> (server \<Rightarrow> string) \<Rightarrow> server \<Rightarrow> (nat \<rightharpoonup> server) \<Rightarrow> (nat \<rightharpoonup> server)" where
  "listen resolve port srv bound =
     (case resolve srv (port srv) of
        None \<Rightarrow> bound
      | Some p \<Rightarrow> if bound p = None then bound(p \<mapsto> srv) else bound)"

definition listen_all :: "(server \<Rightarrow> string \<Rightarrow> nat option) \<Rightarrow> (server \<Rightarrow> string) \<Rightarrow> server list \<Rightarrow> (nat \<rightharpoonup> server)" where
  "listen_all resolve port order = fold (listen resolve port) order Map.empty"

definition all_servers :: "server list" where
  "all_servers = [CRMServer, IngestServer, MarketingServer, AnalyticsServer]"

text \<open>A standalone service exits when its \<^verbatim>\<open>http.ListenAndServe\<close> fails.\<close>

definition standalone_server :: "(server \<Rightarrow> string \<Rightarrow> nat option) \<Rightarrow> server \<Rightarrow> string \<Rightarrow> (nat \<rightharpoonup> server) boot" where
  "standalone_server resolve srv port = (case resolve srv port of None \<Rightarrow> Exits 1 | Some p \<Rightarrow> Boots [p \<mapsto> srv])"

section \<open>Requests\<close>

text \<open>What a handler gets from its surroundings.\<close>

record serve_env =
  sv_select :: "nat \<Rightarrow> select_env"
  sv_now :: time
  sv_now2 :: time
  sv_sha256 :: "string \<Rightarrow> string"
  sv_show_time :: "time \<Rightarrow> string"
  sv_roll :: nat

fun serve_endpoint :: "serve_env \<Rightarrow> endpoint \<Rightarrow> api_request \<Rightarrow> world \<Rightarrow> (reply \<times> world) outcome" where
  "serve_endpoint env IngestEvents r w = sys_ingest (sv_select env) (sv_now env) r w"
| "serve_endpoint env GDPRDelete r w = Ret (sys_purge (sv_sha256 env) (sv_now env) (sv_now2 env) r w)"
| "serve_endpoint env CCPAExport r w = Ret (sys_export (sv_show_time env) (sv_now env) r w, w)"
| "serve_endpoint env MetricsAPI r w = Ret (HandleMetrics (w_metrics (sv_now env) w) r, w)"
| "serve_endpoint env DashboardPage r w = Ret (HandleDashboard (w_metrics (sv_now env) w) r, w)"

datatype client_answer = ConnectionRefused | Answer reply | CRMAnswer http_response

definition NotFound :: reply where
  "NotFound = http_Error ''404 page not found'' 404"

definition answer_request :: "serve_env \<Rightarrow> server \<Rightarrow> string \<Rightarrow> api_request \<Rightarrow> world \<Rightarrow> (client_answer \<times> world) outcome" where
  "answer_request env srv path r w =
     (if srv = CRMServer then Ret (CRMAnswer (snd (MockCRM (sv_roll env))), w)
      else case map_of (mux_of srv) path of
        None \<Rightarrow> Ret (Answer NotFound, w)
      | Some ep \<Rightarrow>
          (case serve_endpoint env ep r w of Ret (rep, w') \<Rightarrow> Ret (Answer rep, w') | Panic m \<Rightarrow> Panic m))"

definition serve :: "serve_env \<Rightarrow> (nat \<rightharpoonup> server) \<Rightarrow> nat \<Rightarrow> string \<Rightarrow> api_request \<Rightarrow> world \<Rightarrow> (client_answer \<times> world) outcome" where
  "serve env bound p path r w =
     (case bound p of None \<Rightarrow> Ret (ConnectionRefused, w) | Some srv \<Rightarrow> answer_request env srv path r w)"

section \<open>Who listens\<close>

lemma listen_keeps: "bound p = Some srv \<Longrightarrow> listen resolve port s bound p = Some srv"
  by (auto simp: listen_def split: option.splits)

lemma fold_listen_keeps: "bound p = Some srv \<Longrightarrow> fold (listen resolve port) order bound p = Some srv"
  by (induction order arbitrary: bound) (simp_all add: listen_keeps)

lemma listen_other: "bound p = None \<Longrightarrow> resolve s (port s) \<noteq> Some p \<Longrightarrow> listen resolve port s bound p = None"
  by (auto simp: listen_def split: option.splits)

lemma listen_self: "bound p = None \<Longrightarrow> resolve s (port s) = Some p \<Longrightarrow> listen resolve port s bound p = Some s"
  by (simp add: listen_def)

text \<open>A server listens when its port is usable and no other server asks for the same.\<close>

lemma fold_listen_listens:
  assumes "srv \<in> set order" "resolve srv (port srv) = Some p" "bound p = None"
    and "\<And>s. resolve s (port s) = Some p \<Longrightarrow> s = srv"
  shows "fold (listen resolve port) order bound p = Some srv"
  using assms(1,3)
proof (induction order arbitrary: bound)
  case (Cons s order)
  show ?case
  proof (cases "s = srv")
    case True
    with Cons.prems assms(2) show ?thesis by (simp add: fold_listen_keeps listen_self)
  next
    case False
    with assms(4) have "resolve s (port s) \<noteq> Some p" by blast
    with Cons False show ?thesis by (simp add: listen_other)
  qed
qed simp

text \<open>Of two servers on one port one does not listen.\<close>

lemma everybody_listens_iff:
  assumes "set order = UNIV"
  shows "(\<forall>srv. \<exists>p. resolve srv (port srv) = Some p \<and> listen_all resolve port order p = Some srv) \<longleftrightarrow>
    (\<forall>srv. resolve srv (port srv) \<noteq> None) \<and> inj (\<lambda>srv. resolve srv (port srv))"
proof
  assume all: "\<forall>srv. \<exists>p. resolve srv (port srv) = Some p \<and> listen_all resolve port order p = Some srv"
  have "srv = srv'" if "resolve srv (port srv) = resolve srv' (port srv')" for srv srv'
    using spec [OF all, of srv] spec [OF all, of srv'] that by auto
  with all show "(\<forall>srv. resolve srv (port srv) \<noteq> None) \<and> inj (\<lambda>srv. resolve srv (port srv))"
    by (auto intro!: injI)
next
  assume d: "(\<forall>srv. resolve srv (port srv) \<noteq> None) \<and> inj (\<lambda>srv. resolve srv (port srv))"
  show "\<forall>srv. \<exists>p. resolve srv (port srv) = Some p \<and> listen_all resolve port order p = Some srv"
  proof
    fix srv
    obtain p where p: "resolve srv (port srv) = Some p" using d by blast
    have "s = srv" if "resolve s (port s) = Some p" for s
      by (rule injD [OF conjunct2 [OF d]]) (simp add: that p)
    then have "listen_all resolve port order p = Some srv"
      unfolding listen_all_def by (intro fold_listen_listens) (simp_all add: assms p)
    with p show "\<exists>p. resolve srv (port srv) = Some p \<and> listen_all resolve port order p = Some srv" by blast
  qed
qed

section \<open>Requests as steps\<close>

lemma serve_endpoint_step:
  assumes "serve_endpoint env ep r w = Ret (rep, w')"
  shows "w' = w \<or> sys_step (st, w) (SysIngest r rep) (st, w') \<or> sys_step (st, w) (SysPurge r rep) (st, w')"
  using assms by (cases ep) (auto intro: sys_step.intros)

lemma serve_endpoint_no_panic:
  assumes "broker_wf (wd_broker w)"
  shows "\<exists>rep w'. serve_endpoint env ep r w = Ret (rep, w')"
proof (cases ep)
  case IngestEvents
  with sys_ingest_no_panic [OF assms, of "sv_select env" "sv_now env" r] show ?thesis
    by (cases "sys_ingest (sv_select env) (sv_now env) r w") auto
next
  case GDPRDelete
  then show ?thesis by (cases "sys_purge (sv_sha256 env) (sv_now env) (sv_now2 env) r w") auto
qed auto

lemma serve_endpoint_read_only:
  assumes "serve_endpoint env ep r w = Ret (rep, w')" "ar_method r \<noteq> ''POST''"
  shows "w' = w"
  using assms by (cases ep) (auto simp: sys_ingest_def HandleIngest_def sys_purge_def HandleGDPRDelete_def)

lemma mux_writes:
  assumes "map_of (mux_of srv) path = Some ep" "serve_endpoint env ep r w = Ret (rep, w')" "w' \<noteq> w"
  shows "srv = IngestServer \<and> path = ''/v1/events'' \<or> srv = MarketingServer \<and> path = ''/v1/privacy/gdpr-delete''"
  using assms
  by (cases srv) (auto simp: ingest_SetupRoutes_def marketing_SetupRoutes_def analytics_SetupRoutes_def split: if_splits)

lemma answer_request_step:
  assumes "broker_wf (wd_broker w)"
  shows "\<exists>ans w'. answer_request env srv path r w = Ret (ans, w') \<and>
    (w' = w \<or> ar_method r = ''POST'' \<and> (\<exists>op. \<forall>st. sys_step (st, w) op (st, w')) \<and>
       (srv = IngestServer \<and> path = ''/v1/events'' \<or> srv = MarketingServer \<and> path = ''/v1/privacy/gdpr-delete''))"
proof (cases "srv = CRMServer \<or> map_of (mux_of srv) path = None")
  case False
  then obtain ep where ep: "srv \<noteq> CRMServer" "map_of (mux_of srv) path = Some ep" by auto
  from serve_endpoint_no_panic [OF assms] obtain rep w' where h: "serve_endpoint env ep r w = Ret (rep, w')" by blast
  with ep have s: "answer_request env srv path r w = Ret (Answer rep, w')" by (simp add: answer_request_def)
  show ?thesis
  proof (cases "w' = w")
    case False
    have "\<exists>op. \<forall>st. sys_step (st, w) op (st, w')"
      using False h by (cases ep) (auto intro: sys_step.intros)
    with s mux_writes [OF ep(2) h False] serve_endpoint_read_only [OF h] False show ?thesis by blast
  qed (use s in auto)
qed (auto simp: answer_request_def)

lemma answer_request_steps:
  assumes "answer_request env srv path r w = Ret (ans, w')"
  shows "w' = w \<or> (\<exists>op. sys_step (st, w) op (st, w'))"
  using assms serve_endpoint_step
  by (fastforce simp: answer_request_def split: if_splits option.splits outcome.splits)

section \<open>Properties\<close>

text \<open>
  All services of the monolith are reached exactly when the four configured ports are usable and no two
  are the same, in whatever order the servers get to listen. Otherwise the program runs on without one of its
  services and does not report it, where a standalone service on an unusable port exits with code 1. The
  orchestrator's ports are those of the default configuration.
\<close>
theorem services_reached_iff_ports_distinct:
  assumes "set order = UNIV"
  shows "((\<forall>srv. \<exists>p. resolve srv (monolith_port cfg srv) = Some p \<and> listen_all resolve (monolith_port cfg) order p = Some srv) \<longleftrightarrow>
      (\<forall>srv. resolve srv (monolith_port cfg srv) \<noteq> None) \<and> inj (\<lambda>srv. resolve srv (monolith_port cfg srv))) \<and>
    (standalone_server resolve srv port = Exits 1 \<longleftrightarrow> resolve srv port = None) \<and>
    orchestrator_port = monolith_port (LoadConfig (\<lambda>k. None))"
proof (intro conjI)
  show "(\<forall>srv. \<exists>p. resolve srv (monolith_port cfg srv) = Some p \<and> listen_all resolve (monolith_port cfg) order p = Some srv) \<longleftrightarrow>
      (\<forall>srv. resolve srv (monolith_port cfg srv) \<noteq> None) \<and> inj (\<lambda>srv. resolve srv (monolith_port cfg srv))"
    by (rule everybody_listens_iff [OF assms])
  show "standalone_server resolve srv port = Exits 1 \<longleftrightarrow> resolve srv port = None"
    by (simp add: standalone_server_def split: option.splits)
  have "orchestrator_port srv = monolith_port (LoadConfig (\<lambda>k. None)) srv" for srv
    by (cases srv) (simp_all add: LoadConfig_def getEnv_def)
  then show "orchestrator_port = monolith_port (LoadConfig (\<lambda>k. None))" by (rule ext)
qed

text \<open>The default ports on a host that reads them as decimal numbers; with \<^verbatim>\<open>PORT_CRM=8081\<close> two coincide.\<close>

definition decimal_port :: "server \<Rightarrow> string \<Rightarrow> nat option" where
  "decimal_port srv s = digits_value 0 s"

lemma all_servers_all: "set all_servers = UNIV"
proof -
  have "srv \<in> set all_servers" for srv by (cases srv) (simp_all add: all_servers_def)
  then show ?thesis by blast
qed

lemma default_ports:
  "decimal_port CRMServer (monolith_port (LoadConfig (\<lambda>k. None)) CRMServer) = Some 8084"
  "decimal_port IngestServer (monolith_port (LoadConfig (\<lambda>k. None)) IngestServer) = Some 8081"
  "decimal_port MarketingServer (monolith_port (LoadConfig (\<lambda>k. None)) MarketingServer) = Some 8082"
  "decimal_port AnalyticsServer (monolith_port (LoadConfig (\<lambda>k. None)) AnalyticsServer) = Some 8083"
  by code_simp+

definition crm_on_8081 :: environment where
  "crm_on_8081 k = (if k = ''PORT_CRM'' then Some ''8081'' else None)"

lemma clash: "decimal_port CRMServer (monolith_port (LoadConfig crm_on_8081) CRMServer) =
    decimal_port IngestServer (monolith_port (LoadConfig crm_on_8081) IngestServer)"
  by code_simp

theorem services_reached_iff_ports_distinct_witness:
  "(\<forall>srv. \<exists>p. listen_all decimal_port (monolith_port (LoadConfig (\<lambda>k. None))) all_servers p = Some srv) \<and>
   \<not> (\<forall>srv. \<exists>p. decimal_port srv (monolith_port (LoadConfig crm_on_8081) srv) = Some p \<and>
      listen_all decimal_port (monolith_port (LoadConfig crm_on_8081)) all_servers p = Some srv)"
proof -
  let ?cfg = "LoadConfig (\<lambda>k. None)" and ?cfg' = "LoadConfig crm_on_8081"
  have "inj (\<lambda>srv. decimal_port srv (monolith_port ?cfg srv))"
  proof (rule injI)
    fix a b assume "decimal_port a (monolith_port ?cfg a) = decimal_port b (monolith_port ?cfg b)"
    then show "a = b" by (cases a; cases b; simp add: default_ports del: monolith_port.simps)
  qed
  moreover have "decimal_port srv (monolith_port ?cfg srv) \<noteq> None" for srv
    by (cases srv) (simp_all add: default_ports del: monolith_port.simps)
  ultimately have "\<forall>srv. \<exists>p. listen_all decimal_port (monolith_port ?cfg) all_servers p = Some srv"
    using services_reached_iff_ports_distinct [OF all_servers_all, of decimal_port ?cfg] by blast
  moreover have "\<not> inj (\<lambda>srv. decimal_port srv (monolith_port ?cfg' srv))"
    using injD [of "\<lambda>srv. decimal_port srv (monolith_port ?cfg' srv)", OF _ clash] by auto
  then have "\<not> (\<forall>srv. \<exists>p. decimal_port srv (monolith_port ?cfg' srv) = Some p \<and>
      listen_all decimal_port (monolith_port ?cfg') all_servers p = Some srv)"
    using services_reached_iff_ports_distinct [OF all_servers_all, of decimal_port ?cfg'] by blast
  ultimately show ?thesis by blast
qed

text \<open>
  C22: Over HTTP the program does what its steps do: in every state it reaches, a request to any port, path
  and method is answered without a panic, and it changes nothing or is one step of the program that leads to
  a state the program reaches. Only a POST to the gateway's event route and to the purge route of
  the marketing service changes anything.
\<close>
theorem http_requests_are_steps:
  assumes "run sys_step (NewMonolith cfg now) ops (st, w)"
  shows "\<exists>ans w'. serve env bound p path r w = Ret (ans, w') \<and>
    (w' = w \<or> ar_method r = ''POST'' \<and> (\<exists>op. run sys_step (NewMonolith cfg now) (ops @ [op]) (st, w')) \<and>
       (bound p = Some IngestServer \<and> path = ''/v1/events'' \<or>
        bound p = Some MarketingServer \<and> path = ''/v1/privacy/gdpr-delete''))"
proof (cases "bound p")
  case None
  then show ?thesis by (simp add: serve_def)
next
  case (Some srv)
  have "broker_wf (wd_broker w)" using world_conf_run [OF assms] by (simp add: world_conf_def broker_conf_def)
  from answer_request_step [OF this, of env srv path r] Some assms show ?thesis
    by (simp add: serve_def run_append) blast
qed

definition sample_serve_env :: serve_env where
  "sample_serve_env = \<lparr>sv_select = live_env, sv_now = 5, sv_now2 = 5, sv_sha256 = id, sv_show_time = (\<lambda>t. []), sv_roll = 50\<rparr>"

text \<open>The sample posted to the wrong port is answered with 404 and changes nothing.\<close>

theorem http_requests_are_steps_witness:
  "\<exists>ans. serve sample_serve_env [8082 \<mapsto> MarketingServer] 8082 ''/v1/events'' sample_request posted = Ret (ans, posted)"
  using http_requests_are_steps [OF sample_run, of sample_serve_env "[8082 \<mapsto> MarketingServer]" 8082 "''/v1/events''" sample_request]
  by auto

end
