(* ===== verification/Shutdown.thy ===== *)
theory Shutdown
  imports Servers Schedules
begin

text \<open>
  The process around the program: \<^verbatim>\<open>main\<close> of \<^verbatim>\<open>cmd/monolith\<close> and of \<^verbatim>\<open>cmd/orchestrator\<close> from the start of their
  goroutines to their return. Both wait for a signal, cancel the context of the workers, shut the four
  servers down one after the other under one deadline, and return, which closes the broker and ends what still runs.
\<close>

section \<open>The shutdown of a server\<close>

text \<open>
  \<^verbatim>\<open>http.Server.Shutdown\<close>, once it has closed the listener: it looks whether the server is idle, and again after
  each polling interval, until the context is done. The intervals start at a millisecond and double up to
  half a second, with a tenth of jitter. \<open>busy_until\<close> is the instant at which the last accepted request is answered.
\<close>

definition poll_base :: "nat \<Rightarrow> duration" where
  "poll_base k = min (2 ^ k * Millisecond) (500 * Millisecond)"

definition poll_interval :: "(nat \<Rightarrow> int) \<Rightarrow> nat \<Rightarrow> duration" where
  "poll_interval jitter k = poll_base k + jitter k mod (poll_base k div 10)"

lemma poll_base_bounds: "Millisecond \<le> poll_base k" "poll_base k \<le> 500 * Millisecond"
proof -
  have "(1 :: int) \<le> 2 ^ k" by simp
  then show "Millisecond \<le> poll_base k" by (simp add: poll_base_def Millisecond_def)
qed (simp add: poll_base_def)

lemma poll_interval_bounds: "Millisecond \<le> poll_interval jitter k" "poll_interval jitter k \<le> 550 * Millisecond"
proof -
  let ?m = "jitter k mod (poll_base k div 10)"
  have "100000 \<le> poll_base k div 10" "poll_base k div 10 \<le> 50000000"
    using zdiv_mono1 [OF poll_base_bounds(1) [of k], of 10] zdiv_mono1 [OF poll_base_bounds(2) [of k], of 10]
    by (simp_all add: Millisecond_def)
  moreover from this have "0 \<le> ?m" "?m < poll_base k div 10" by simp_all
  ultimately show "Millisecond \<le> poll_interval jitter k" "poll_interval jitter k \<le> 550 * Millisecond"
    using poll_base_bounds [of k] unfolding poll_interval_def Millisecond_def by linarith+
qed

text \<open>At an instant at which both the interval and the context end, the context is taken.\<close>

function await_idle :: "(nat \<Rightarrow> int) \<Rightarrow> time \<Rightarrow> time \<Rightarrow> nat \<Rightarrow> time \<Rightarrow> go_error option \<times> time" where
  "await_idle jitter busy_until deadline k now =
     (if busy_until \<le> now then (None, now)
      else if deadline \<le> now + poll_interval jitter k then (Some DeadlineExceeded, max now deadline)
      else await_idle jitter busy_until deadline (Suc k) (now + poll_interval jitter k))"
  by pat_completeness auto
termination
proof (relation "measure (\<lambda>(jitter, busy, deadline, k, now). nat (deadline - now))")
  fix jitter :: "nat \<Rightarrow> int" and busy deadline k and now :: time
  assume "\<not> deadline \<le> now + poll_interval jitter k"
  with poll_interval_bounds(1) [of jitter k]
  show "((jitter, busy, deadline, Suc k, now + poll_interval jitter k), jitter, busy, deadline, k, now)
      \<in> measure (\<lambda>(jitter, busy, deadline, k, now). nat (deadline - now))"
    by (simp add: Millisecond_def)
qed simp

declare await_idle.simps [simp del]

text \<open>The order of \<^verbatim>\<open>main\<close>, and what each call returns: when it was made, its error, when it returned.\<close>

definition shutdown_order :: "server list" where
  "shutdown_order = [CRMServer, IngestServer, MarketingServer, AnalyticsServer]"

definition shutdown_timeout :: duration where
  "shutdown_timeout = 2 * Second"

text \<open>A request is only accepted while the server listens, so how long it is busy depends on when it stops.\<close>

fun shutdown_all ::
  "(server \<Rightarrow> nat \<Rightarrow> int) \<Rightarrow> (server \<Rightarrow> time \<Rightarrow> time) \<Rightarrow> time \<Rightarrow> server list \<Rightarrow> time \<Rightarrow> (server \<times> time \<times> go_error option \<times> time) list" where
  "shutdown_all jitter busy deadline [] now = []"
| "shutdown_all jitter busy deadline (srv # srvs) now =
     (case await_idle (jitter srv) (busy srv now) deadline 0 now of
        (err, t) \<Rightarrow> (srv, now, err, t) # shutdown_all jitter busy deadline srvs t)"

definition main_shutdown ::
  "(server \<Rightarrow> nat \<Rightarrow> int) \<Rightarrow> (server \<Rightarrow> time \<Rightarrow> time) \<Rightarrow> time \<Rightarrow> (server \<times> time \<times> go_error option \<times> time) list" where
  "main_shutdown jitter busy now = shutdown_all jitter busy (now + shutdown_timeout) shutdown_order now"

lemma await_idle_bounds:
  assumes "await_idle jitter busy deadline k now = (err, t)" "now \<le> deadline"
  shows "now \<le> t \<and> t \<le> deadline \<and> (err = None \<and> busy \<le> t \<or> err = Some DeadlineExceeded \<and> t = deadline)"
  using assms
proof (induction jitter busy deadline k now rule: await_idle.induct)
  case (1 jitter busy deadline k now)
  show ?case
  proof (cases "busy \<le> now \<or> deadline \<le> now + poll_interval jitter k")
    case True
    with 1(2,3) show ?thesis by (subst (asm) await_idle.simps) (auto split: if_splits)
  next
    case False
    with 1(2) have "await_idle jitter busy deadline (Suc k) (now + poll_interval jitter k) = (err, t)"
      by (subst (asm) await_idle.simps) simp
    from 1(1) [OF _ _ this] False poll_interval_bounds(1) [of jitter k] show ?thesis
      by (simp add: Millisecond_def)
  qed
qed

lemma await_idle_expired: "await_idle jitter busy deadline k deadline = (if busy \<le> deadline then None else Some DeadlineExceeded, deadline)"
  using poll_interval_bounds(1) [of jitter k] by (subst await_idle.simps) (simp add: Millisecond_def)

text \<open>A server that is idle early enough is found idle: the next look is at most 550 milliseconds away.\<close>

lemma await_idle_in_time:
  assumes "await_idle jitter busy deadline k now = (err, t)" "busy + 550 * Millisecond < deadline" "now + 550 * Millisecond < deadline"
  shows "err = None \<and> t < max now (busy + 550 * Millisecond) + 1"
  using assms
proof (induction jitter busy deadline k now rule: await_idle.induct)
  case (1 jitter busy deadline k now)
  let ?p = "poll_interval jitter k"
  have p: "?p \<le> 550 * Millisecond" "0 < ?p" using poll_interval_bounds [of jitter k] by (simp_all add: Millisecond_def)
  show ?case
  proof (cases "busy \<le> now")
    case True
    with 1(2) show ?thesis by (subst (asm) await_idle.simps) auto
  next
    case False
    then have next_look: "\<not> deadline \<le> now + ?p" using p 1(4) by simp
    with False 1(2) have eq: "await_idle jitter busy deadline (Suc k) (now + ?p) = (err, t)"
      by (subst (asm) await_idle.simps) simp
    show ?thesis
    proof (cases "busy \<le> now + ?p")
      case True
      with eq have "err = None \<and> t = now + ?p" by (subst (asm) await_idle.simps) auto
      with False p show ?thesis by simp
    next
      case late: False
      then have "now + ?p + 550 * Millisecond < deadline" using 1(3) by simp
      from 1(1) [OF False next_look eq 1(3) this] late show ?thesis by (auto simp: Millisecond_def max_def)
    qed
  qed
qed

lemma shutdown_all_bounds:
  assumes "now \<le> deadline" "(srv, called, err, t) \<in> set (shutdown_all jitter busy deadline srvs now)"
  shows "now \<le> called \<and> called \<le> t \<and> t \<le> deadline \<and> (err = None \<and> busy srv called \<le> t \<or> err = Some DeadlineExceeded \<and> t = deadline)"
  using assms
proof (induction srvs arbitrary: now)
  case (Cons s srvs)
  obtain e u where a: "await_idle (jitter s) (busy s now) deadline 0 now = (e, u)" by fastforce
  note b = await_idle_bounds [OF a Cons.prems(1)]
  show ?case
  proof (cases "(srv, called, err, t) = (s, now, e, u)")
    case False
    with Cons.prems(2) a have "(srv, called, err, t) \<in> set (shutdown_all jitter busy deadline srvs u)" by auto
    with Cons.IH [of u] b show ?thesis by simp
  qed (use b in auto)
qed simp

lemma shutdown_all_servers: "map fst (shutdown_all jitter busy deadline srvs now) = srvs"
  by (induction srvs arbitrary: now) (simp_all split: prod.splits)

text \<open>Once the deadline has passed nobody is waited for.\<close>

lemma shutdown_all_expired:
  "shutdown_all jitter busy deadline srvs deadline =
     map (\<lambda>srv. (srv, deadline, if busy srv deadline \<le> deadline then None else Some DeadlineExceeded, deadline)) srvs"
  by (induction srvs) (simp_all add: await_idle_expired)

section \<open>The process\<close>

text \<open>A worker's goroutine: not scheduled yet, receiving from its channel, or returned.\<close>

datatype worker_status = Launched | Consuming nat | Gone

text \<open>
  A server's goroutine: \<^verbatim>\<open>ListenAndServe\<close> not called yet, listening on a port, or over, because the port
  could not be had (its error is discarded) or because of \<^verbatim>\<open>Shutdown\<close>, which also bars a later call.
\<close>

datatype server_status = Starting | Listening nat | Stopped

definition bind_port :: "nat option \<Rightarrow> (server \<Rightarrow> server_status) \<Rightarrow> server_status" where
  "bind_port port servers =
     (case port of
        None \<Rightarrow> Stopped
      | Some n \<Rightarrow> if list_ex (\<lambda>srv. servers srv = Listening n) all_servers then Stopped else Listening n)"

text \<open>
  What \<^verbatim>\<open>main\<close> is doing: waiting for the signal; shutting down the servers of the list; waiting for the first
  of them to be idle; about to run its deferred calls; about to return; returned, which ends the process.
\<close>

datatype main_phase = Serving | ShuttingDown "server list" | Awaiting server "server list" | Returning | Over

record process =
  pc_sys :: system
  pc_phase :: main_phase
  pc_cancelled :: bool
  pc_fraud :: worker_status
  pc_marketing :: worker_status
  pc_server :: "server \<Rightarrow> server_status"
  pc_active :: "(server \<times> string \<times> api_request) list"
  pc_results :: "(server \<times> go_error option) list"

definition start_process :: "system \<Rightarrow> process" where
  "start_process s =
     \<lparr>pc_sys = s, pc_phase = Serving, pc_cancelled = False, pc_fraud = Launched, pc_marketing = Launched,
      pc_server = \<lambda>srv. Starting, pc_active = [], pc_results = []\<rparr>"

definition subscribed_as :: "go_error + nat \<Rightarrow> worker_status" where
  "subscribed_as s = (case s of Inl err \<Rightarrow> Gone | Inr ch \<Rightarrow> Consuming ch)"

datatype main_event =
    FraudSubscribes "go_error + nat"
  | FraudHandles tracking_event
  | FraudReturns
  | MarketingSubscribes "go_error + nat"
  | MarketingHandles screened_event
  | MarketingReturns
  | Listens server
  | Accepts server string api_request
  | Answers server string api_request client_answer
  | Signal
  | Unlistens server
  | ShutdownReturns server "go_error option"
  | ClosesBroker
  | MainReturns

text \<open>
  A cancelled worker may still take events: its \<^verbatim>\<open>select\<close> picks. A server accepts requests until \<^verbatim>\<open>main\<close> gets to its
  shutdown; what it has accepted goes on. The shutdown of a server returns nil once nothing it has accepted is left,
  and \<^verbatim>\<open>DeadlineExceeded\<close> when the deadline passes before. \<open>resolve\<close> is the host's reading of a port, as for \<^const>\<open>listen\<close>.
\<close>

inductive main_step :: "(server \<Rightarrow> nat option) \<Rightarrow> process \<Rightarrow> main_event \<Rightarrow> process \<Rightarrow> bool"
  for resolve :: "server \<Rightarrow> nat option" where
  m_fraud_subscribes: "pc_phase p \<noteq> Over \<Longrightarrow> pc_fraud p = Launched \<Longrightarrow> w_subscribe_raw (snd (pc_sys p)) = (s, w') \<Longrightarrow>
    main_step resolve p (FraudSubscribes s) (p\<lparr>pc_sys := (fst (pc_sys p), w'), pc_fraud := subscribed_as s\<rparr>)"
| m_fraud_handles: "pc_phase p \<noteq> Over \<Longrightarrow> pc_fraud p = Consuming ch \<Longrightarrow> sys_step (pc_sys p) (SysScreen ch e) s' \<Longrightarrow>
    main_step resolve p (FraudHandles e) (p\<lparr>pc_sys := s'\<rparr>)"
| m_fraud_returns: "pc_phase p \<noteq> Over \<Longrightarrow> pc_fraud p = Consuming ch \<Longrightarrow>
    pc_cancelled p \<or> fst (w_recv_raw ch (snd (pc_sys p))) = ChanClosed \<Longrightarrow>
    main_step resolve p FraudReturns (p\<lparr>pc_fraud := Gone\<rparr>)"
| m_marketing_subscribes: "pc_phase p \<noteq> Over \<Longrightarrow> pc_marketing p = Launched \<Longrightarrow> w_subscribe_screened (snd (pc_sys p)) = (s, w') \<Longrightarrow>
    main_step resolve p (MarketingSubscribes s) (p\<lparr>pc_sys := (fst (pc_sys p), w'), pc_marketing := subscribed_as s\<rparr>)"
| m_marketing_handles: "pc_phase p \<noteq> Over \<Longrightarrow> pc_marketing p = Consuming ch \<Longrightarrow> sys_step (pc_sys p) (SysWorkflow ch se) s' \<Longrightarrow>
    main_step resolve p (MarketingHandles se) (p\<lparr>pc_sys := s'\<rparr>)"
| m_marketing_returns: "pc_phase p \<noteq> Over \<Longrightarrow> pc_marketing p = Consuming ch \<Longrightarrow>
    pc_cancelled p \<or> fst (w_recv_screened ch (snd (pc_sys p))) = ChanClosed \<Longrightarrow>
    main_step resolve p MarketingReturns (p\<lparr>pc_marketing := Gone\<rparr>)"
| m_listens: "pc_phase p \<noteq> Over \<Longrightarrow> pc_server p srv = Starting \<Longrightarrow>
    main_step resolve p (Listens srv) (p\<lparr>pc_server := (pc_server p)(srv := bind_port (resolve srv) (pc_server p))\<rparr>)"
| m_accepts: "pc_phase p \<noteq> Over \<Longrightarrow> pc_server p srv = Listening n \<Longrightarrow>
    main_step resolve p (Accepts srv path r) (p\<lparr>pc_active := pc_active p @ [(srv, path, r)]\<rparr>)"
| m_answers: "pc_phase p \<noteq> Over \<Longrightarrow> pc_active p = xs @ (srv, path, r) # ys \<Longrightarrow>
    answer_request env srv path r (snd (pc_sys p)) = Ret (ans, w') \<Longrightarrow>
    main_step resolve p (Answers srv path r ans) (p\<lparr>pc_sys := (fst (pc_sys p), w'), pc_active := xs @ ys\<rparr>)"
| m_signal: "pc_phase p = Serving \<Longrightarrow>
    main_step resolve p Signal (p\<lparr>pc_cancelled := True, pc_phase := ShuttingDown shutdown_order\<rparr>)"
| m_unlistens: "pc_phase p = ShuttingDown (srv # srvs) \<Longrightarrow>
    main_step resolve p (Unlistens srv) (p\<lparr>pc_server := (pc_server p)(srv := Stopped), pc_phase := Awaiting srv srvs\<rparr>)"
| m_idle: "pc_phase p = Awaiting srv srvs \<Longrightarrow> srv \<notin> fst ` set (pc_active p) \<Longrightarrow>
    main_step resolve p (ShutdownReturns srv None) (p\<lparr>pc_phase := ShuttingDown srvs, pc_results := pc_results p @ [(srv, None)]\<rparr>)"
| m_deadline: "pc_phase p = Awaiting srv srvs \<Longrightarrow> srv \<in> fst ` set (pc_active p) \<Longrightarrow>
    main_step resolve p (ShutdownReturns srv (Some DeadlineExceeded))
      (p\<lparr>pc_phase := ShuttingDown srvs, pc_results := pc_results p @ [(srv, Some DeadlineExceeded)]\<rparr>)"
| m_closes: "pc_phase p = ShuttingDown [] \<Longrightarrow> Close (wd_broker (snd (pc_sys p))) = Ret (None, b) \<Longrightarrow>
    main_step resolve p ClosesBroker (p\<lparr>pc_sys := (fst (pc_sys p), (snd (pc_sys p))\<lparr>wd_broker := b\<rparr>), pc_phase := Returning\<rparr>)"
| m_returns: "pc_phase p = Returning \<Longrightarrow> main_step resolve p MainReturns (p\<lparr>pc_phase := Over\<rparr>)"

text \<open>The events that are \<^verbatim>\<open>main\<close>'s own.\<close>

fun of_main :: "main_event \<Rightarrow> bool" where
  "of_main Signal = True"
| "of_main (Unlistens srv) = True"
| "of_main (ShutdownReturns srv err) = True"
| "of_main ClosesBroker = True"
| "of_main MainReturns = True"
| "of_main _ = False"

section \<open>The process runs the program\<close>

lemma main_step_system: "main_step resolve p ev p' \<Longrightarrow> pc_sys p' = pc_sys p \<or> (\<exists>op. sys_step (pc_sys p) op (pc_sys p'))"
proof (induction rule: main_step.induct)
  case (m_fraud_subscribes p s w')
  then show ?case using sys_fraud_subscribe [of "snd (pc_sys p)" s w' "fst (pc_sys p)"] by auto
next
  case (m_marketing_subscribes p s w')
  then show ?case using sys_marketing_subscribe [of "snd (pc_sys p)" s w' "fst (pc_sys p)"] by auto
next
  case (m_answers p xs srv path r ys env ans w')
  then show ?case using answer_request_steps [of env srv path r "snd (pc_sys p)" ans w' "fst (pc_sys p)"] by auto
next
  case (m_closes p b)
  then show ?case using sys_close [of "snd (pc_sys p)" b "fst (pc_sys p)"] by auto
qed auto

text \<open>An event of the process is at most one step of the program.\<close>

interpretation process: refines "main_step resolve" sys_step pc_sys "\<lambda>p. True" "\<lambda>ev ops. length ops \<le> 1" for resolve
proof unfold_locales
  fix p ev p' assume "main_step resolve p ev p'"
  from main_step_system [OF this] show "\<exists>ops. length ops \<le> 1 \<and> run sys_step (pc_sys p) ops (pc_sys p')"
  proof (elim disjE exE)
    fix op assume "sys_step (pc_sys p) op (pc_sys p')"
    then have "run sys_step (pc_sys p) [op] (pc_sys p')" by (rule run.intros(2)) (rule run.intros(1))
    then show ?thesis by (intro exI [of _ "[op]"]) simp
  next
    assume "pc_sys p' = pc_sys p"
    then show ?thesis by (intro exI [of _ "[]"]) simp
  qed
qed simp

lemma main_run_system: "run (main_step resolve) p0 evs p \<Longrightarrow> \<exists>ops. run sys_step (pc_sys p0) ops (pc_sys p)"
  using process.run_refines by blast

section \<open>The phases\<close>

text \<open>The servers \<^verbatim>\<open>main\<close> has shut down in a phase, and whether it closed the broker.\<close>

fun to_shut :: "main_phase \<Rightarrow> server list" where
  "to_shut Serving = shutdown_order"
| "to_shut (ShuttingDown srvs) = srvs"
| "to_shut (Awaiting srv srvs) = srv # srvs"
| "to_shut _ = []"

definition process_ok :: "process \<Rightarrow> bool" where
  "process_ok p \<longleftrightarrow>
     (pc_phase p \<noteq> Serving \<longrightarrow> pc_cancelled p) \<and>
     map fst (pc_results p) @ to_shut (pc_phase p) = shutdown_order \<and>
     (\<forall>srv err. (srv, err) \<in> set (pc_results p) \<longrightarrow> pc_server p srv = Stopped \<and>
        (err = None \<and> srv \<notin> fst ` set (pc_active p) \<or> err = Some DeadlineExceeded)) \<and>
     (\<forall>srv srvs. pc_phase p = Awaiting srv srvs \<longrightarrow> pc_server p srv = Stopped) \<and>
     (pc_phase p = Returning \<or> pc_phase p = Over \<longrightarrow> br_closed (wd_broker (snd (pc_sys p))))"

lemma start_process_ok: "process_ok (start_process s)"
  by (simp add: process_ok_def start_process_def)

lemma sys_step_closed: "sys_step s op s' \<Longrightarrow> br_closed (wd_broker (snd s)) \<Longrightarrow> br_closed (wd_broker (snd s'))"
proof (induction rule: sys_step.induct)
  case (sys_ingest_step env now r w rep w' st)
  from sys_ingest_step(1) show ?case
    by (rule sys_ingest_cases) (use sys_ingest_step(2) PublishRaw_frame in auto)
next
  case (sys_screen_step ch w e w1 env clock st st' w')
  then have "br_closed (wd_broker w1)" by (auto simp: w_recv_raw_def RecvRaw_def split: prod.splits)
  with sys_screen_step(3) show ?case
    by (elim sys_screen_cases) (use PublishScreened_frame in auto)
next
  case (sys_workflow_step ch w se w1 ce now aenv now' w' st)
  then have "br_closed (wd_broker w1)" by (auto simp: w_recv_screened_def RecvScreened_def split: prod.splits)
  with sys_workflow_step(4) show ?case by (elim sys_workflow_cases) auto
next
  case (sys_purge_step sha256 now1 now2 r w rep w' st)
  from sys_purge_step(1) show ?case
    by (rule sys_purge_cases) (use sys_purge_step(2) in \<open>auto simp: purged_def wiring split_beta\<close>)
next
  case (sys_close w b st)
  then show ?case by (auto simp: Close_def split: if_splits outcome.splits)
qed (auto simp: w_subscribe_raw_def SubscribeRaw_def w_subscribe_screened_def SubscribeScreened_def w_recv_screened_def
    RecvScreened_def split: prod.splits)

lemma answers_closed:
  assumes "answer_request env srv path r w = Ret (ans, w')" "br_closed (wd_broker w)"
  shows "br_closed (wd_broker w')"
  using answer_request_steps [OF assms(1), of undefined] sys_step_closed assms(2) by fastforce

lemma Close_closes: "Close b = Ret (r, b') \<Longrightarrow> br_closed b'"
  by (auto simp: Close_def split: if_splits outcome.splits)

lemma process_ok_step: "main_step resolve p ev p' \<Longrightarrow> process_ok p \<Longrightarrow> process_ok p'"
proof (induction rule: main_step.induct)
  case (m_fraud_subscribes p s w')
  then show ?case
    using sys_step_closed [OF sys_fraud_subscribe, of "snd (pc_sys p)" s w'] by (auto simp: process_ok_def)
next
  case (m_marketing_subscribes p s w')
  then show ?case
    using sys_step_closed [OF sys_marketing_subscribe, of "snd (pc_sys p)" s w'] by (auto simp: process_ok_def)
next
  case (m_fraud_handles p ch e s')
  then show ?case using sys_step_closed [OF m_fraud_handles(3)] by (auto simp: process_ok_def)
next
  case (m_marketing_handles p ch se s')
  then show ?case using sys_step_closed [OF m_marketing_handles(3)] by (auto simp: process_ok_def)
next
  case (m_answers p xs srv path r ys env ans w')
  from m_answers(2) have "fst ` set (xs @ ys) \<subseteq> fst ` set (pc_active p)" by auto
  with m_answers(4) answers_closed [OF m_answers(3)] show ?case
    by (simp add: process_ok_def del: set_append) blast
next
  case (m_closes p b)
  then show ?case using Close_closes by (auto simp: process_ok_def)
next
  case (m_listens p srv)
  then show ?case by (fastforce simp: process_ok_def)
next
  case (m_accepts p srv n path r)
  then show ?case by (fastforce simp: process_ok_def)
next
  case (m_signal p)
  then show ?case by (simp add: process_ok_def)
next
  case (m_unlistens p srv srvs)
  then show ?case by (simp add: process_ok_def) blast
next
  case (m_idle p srv srvs)
  then show ?case by (auto simp: process_ok_def)
next
  case (m_deadline p srv srvs)
  then show ?case by (auto simp: process_ok_def)
qed (simp_all add: process_ok_def)

lemma process_ok_run: "run (main_step resolve) (start_process s) evs p \<Longrightarrow> process_ok p"
  using run_invariant [of "main_step resolve" "start_process s" evs p process_ok] start_process_ok process_ok_step by blast

text \<open>What \<^verbatim>\<open>main\<close> still has to do.\<close>

fun steps_left :: "main_phase \<Rightarrow> nat" where
  "steps_left Serving = 2 * length shutdown_order + 3"
| "steps_left (ShuttingDown srvs) = 2 * length srvs + 2"
| "steps_left (Awaiting srv srvs) = 2 * length srvs + 3"
| "steps_left Returning = 1"
| "steps_left Over = 0"

lemma main_step_left:
  "main_step resolve p ev p' \<Longrightarrow> steps_left (pc_phase p) = steps_left (pc_phase p') + (if of_main ev then 1 else 0)"
  by (induction rule: main_step.induct) (simp_all add: shutdown_order_def)

lemma main_run_left:
  "run (main_step resolve) p evs p' \<Longrightarrow> steps_left (pc_phase p) = steps_left (pc_phase p') + length (filter of_main evs)"
  by (induction rule: run.induct) (auto dest: main_step_left)

text \<open>It is never stuck: what it does next does not depend on the others.\<close>

lemma main_goes_on:
  assumes "broker_wf (wd_broker (snd (pc_sys p)))" "pc_phase p \<noteq> Over"
  shows "\<exists>ev p'. main_step resolve p ev p' \<and> of_main ev"
proof (cases "pc_phase p")
  case Serving
  from m_signal [OF this] show ?thesis by fastforce
next
  case (ShuttingDown srvs)
  show ?thesis
  proof (cases srvs)
    case Nil
    obtain b where "Close (wd_broker (snd (pc_sys p))) = Ret (None, b)" using Close_spec [OF assms(1)] by blast
    from m_closes [OF _ this] ShuttingDown Nil show ?thesis by fastforce
  next
    case (Cons srv rest)
    from m_unlistens [of p srv rest] ShuttingDown Cons show ?thesis by fastforce
  qed
next
  case (Awaiting srv srvs)
  from m_idle [OF this] m_deadline [OF this] show ?thesis by fastforce
next
  case Returning
  from m_returns [OF this] show ?thesis by fastforce
qed (use assms(2) in simp)

text \<open>Nothing happens after it has returned.\<close>

lemma main_over: "pc_phase p = Over \<Longrightarrow> \<not> main_step resolve p ev p'"
  by (auto elim: main_step.cases)

lemma over_ok:
  assumes "process_ok p" "pc_phase p = Over"
  shows "br_closed (wd_broker (snd (pc_sys p)))" "map fst (pc_results p) = shutdown_order" "pc_server p srv = Stopped"
    "srv \<in> fst ` set (pc_active p) \<Longrightarrow> (srv, Some DeadlineExceeded) \<in> set (pc_results p)"
proof -
  show "br_closed (wd_broker (snd (pc_sys p)))" and order: "map fst (pc_results p) = shutdown_order"
    using assms by (simp_all add: process_ok_def)
  have "srv \<in> set shutdown_order" by (cases srv) (simp_all add: shutdown_order_def)
  then obtain err where r: "(srv, err) \<in> set (pc_results p)"
    unfolding order [symmetric] by auto
  with assms(1) show "pc_server p srv = Stopped"
    "srv \<in> fst ` set (pc_active p) \<Longrightarrow> (srv, Some DeadlineExceeded) \<in> set (pc_results p)"
    unfolding process_ok_def by blast+
qed

text \<open>
  The time a server has left does not matter when it is idle soon after the signal: all four servers are.
\<close>

lemma shutdown_all_in_time:
  assumes "(srv, called, err, t) \<in> set (shutdown_all jitter busy deadline srvs now)"
    and "\<And>srv t. busy srv t + 550 * Millisecond < deadline" "now \<le> deadline"
  shows "err = None"
  using assms(1,3)
proof (induction srvs arbitrary: now)
  case (Cons s srvs)
  obtain e u where a: "await_idle (jitter s) (busy s now) deadline 0 now = (e, u)" by fastforce
  have "e = None"
  proof (cases "busy s now \<le> now")
    case True
    with a show ?thesis by (subst (asm) await_idle.simps) simp
  next
    case False
    then have "now + 550 * Millisecond < deadline" using assms(2) [of s now] by simp
    with await_idle_in_time [OF a assms(2)] show ?thesis by simp
  qed
  with Cons a await_idle_bounds [OF a Cons.prems(2)] show ?case by auto
qed simp

section \<open>Launches of the two programs\<close>

text \<open>
  \<open>resolve srv port\<close> reads the text of a port as in \<^const>\<open>listen\<close>. Both programs launch the four servers and the
  two workers over the shared broker, repositories and tracker of the memory configuration. What they log is
  not modelled, only which handler of \<^verbatim>\<open>slog\<close> they choose for it.
\<close>

datatype log_handler = JSONHandler | TextHandler

definition setupLogger :: "string \<Rightarrow> log_handler" where
  "setupLogger logFormat = (if logFormat = ''json'' then JSONHandler else TextHandler)"

definition start_monolith :: "config \<Rightarrow> time \<Rightarrow> process" where
  "start_monolith cfg now = start_process (NewMonolith cfg now)"

definition start_orchestrator :: "time \<Rightarrow> process" where
  "start_orchestrator now = start_process (NewOrchestrator now)"

definition monolith_step :: "(server \<Rightarrow> string \<Rightarrow> nat option) \<Rightarrow> config \<Rightarrow> process \<Rightarrow> main_event \<Rightarrow> process \<Rightarrow> bool" where
  "monolith_step resolve cfg = main_step (\<lambda>srv. resolve srv (monolith_port cfg srv))"

definition orchestrator_step :: "(server \<Rightarrow> string \<Rightarrow> nat option) \<Rightarrow> process \<Rightarrow> main_event \<Rightarrow> process \<Rightarrow> bool" where
  "orchestrator_step resolve = main_step (\<lambda>srv. resolve srv (orchestrator_port srv))"

lemma main_run_cons:
  "main_step resolve p ev p1 \<Longrightarrow> run (main_step resolve) p1 evs p' \<Longrightarrow> run (main_step resolve) p (ev # evs) p'"
  by (rule run.intros(2))

text \<open>What \<^verbatim>\<open>main\<close> does when no request is being answered.\<close>

definition idle_shutdown :: "server list \<Rightarrow> main_event list" where
  "idle_shutdown srvs = concat (map (\<lambda>srv. [Unlistens srv, ShutdownReturns srv None]) srvs)"

lemma idle_shutdown_run:
  assumes "pc_phase p = ShuttingDown srvs" "pc_active p = []"
  shows "\<exists>p'. run (main_step resolve) p (idle_shutdown srvs) p' \<and> pc_phase p' = ShuttingDown [] \<and> pc_sys p' = pc_sys p \<and>
    pc_results p' = pc_results p @ map (\<lambda>srv. (srv, None)) srvs"
  using assms
proof (induction srvs arbitrary: p)
  case (Cons srv srvs)
  let ?p1 = "p\<lparr>pc_server := (pc_server p)(srv := Stopped), pc_phase := Awaiting srv srvs\<rparr>"
  let ?p2 = "?p1\<lparr>pc_phase := ShuttingDown srvs, pc_results := pc_results ?p1 @ [(srv, None)]\<rparr>"
  have s1: "main_step resolve p (Unlistens srv) ?p1" by (rule m_unlistens) (rule Cons.prems)
  have s2: "main_step resolve ?p1 (ShutdownReturns srv None) ?p2" by (rule m_idle) (simp_all add: Cons.prems)
  have "\<exists>p'. run (main_step resolve) ?p2 (idle_shutdown srvs) p' \<and> pc_phase p' = ShuttingDown [] \<and> pc_sys p' = pc_sys ?p2 \<and>
      pc_results p' = pc_results ?p2 @ map (\<lambda>srv. (srv, None)) srvs"
    by (rule Cons.IH) (simp_all add: Cons.prems)
  then obtain p' where p': "run (main_step resolve) ?p2 (idle_shutdown srvs) p'" "pc_phase p' = ShuttingDown []" "pc_sys p' = pc_sys p"
      "pc_results p' = pc_results p @ map (\<lambda>srv. (srv, None)) (srv # srvs)" by auto
  have "run (main_step resolve) p (idle_shutdown (srv # srvs)) p'"
    using main_run_cons [OF s1 main_run_cons [OF s2 p'(1)]] by (simp add: idle_shutdown_def)
  with p' show ?case by blast
qed (auto simp: idle_shutdown_def)

text \<open>Then it closes the broker, which keeps what waits in the channels, and returns.\<close>

lemma idle_return_run:
  assumes "pc_phase p = ShuttingDown srvs" "pc_active p = []" "broker_wf (wd_broker (snd (pc_sys p)))"
  shows "\<exists>p' b. run (main_step resolve) p (idle_shutdown srvs @ [ClosesBroker, MainReturns]) p' \<and> pc_phase p' = Over \<and>
    pc_sys p' = (fst (pc_sys p), (snd (pc_sys p))\<lparr>wd_broker := b\<rparr>) \<and> Close (wd_broker (snd (pc_sys p))) = Ret (None, b) \<and>
    pc_results p' = pc_results p @ map (\<lambda>srv. (srv, None)) srvs"
proof -
  obtain p1 where p1: "run (main_step resolve) p (idle_shutdown srvs) p1" "pc_phase p1 = ShuttingDown []" "pc_sys p1 = pc_sys p"
      "pc_results p1 = pc_results p @ map (\<lambda>srv. (srv, None)) srvs"
    using idle_shutdown_run [OF assms(1,2)] by blast
  obtain b where b: "Close (wd_broker (snd (pc_sys p1))) = Ret (None, b)" using Close_spec assms(3) p1(3) by metis
  let ?p2 = "p1\<lparr>pc_sys := (fst (pc_sys p1), (snd (pc_sys p1))\<lparr>wd_broker := b\<rparr>), pc_phase := Returning\<rparr>"
  let ?p3 = "?p2\<lparr>pc_phase := Over\<rparr>"
  have s2: "main_step resolve p1 ClosesBroker ?p2" by (rule m_closes [OF p1(2) b])
  have s3: "main_step resolve ?p2 MainReturns ?p3" by (rule m_returns) simp
  have "run (main_step resolve) p (idle_shutdown srvs @ [ClosesBroker, MainReturns]) ?p3"
    by (rule run_appendI [OF p1(1)]) (rule main_run_cons [OF s2] main_run_cons [OF s3] run.intros(1))+
  moreover have "Close (wd_broker (snd (pc_sys p))) = Ret (None, b)" using b p1(3) by simp
  ultimately show ?thesis using p1(3,4) by (intro exI [of _ ?p3] exI [of _ b]) simp
qed

text \<open>A monolith whose fraud worker leaves on the signal, before the gateway is shut down.\<close>

definition lossy_events :: "main_event list" where
  "lossy_events =
     [FraudSubscribes (Inr 0), Listens IngestServer, Signal, FraudReturns, Unlistens CRMServer, ShutdownReturns CRMServer None,
      Accepts IngestServer ''/v1/events'' sample_request,
      Answers IngestServer ''/v1/events'' sample_request (Answer accepted_reply)] @
     idle_shutdown [IngestServer, MarketingServer, AnalyticsServer] @ [ClosesBroker, MainReturns]"

lemma sample_answer: "answer_request sample_serve_env IngestServer ''/v1/events'' sample_request booted = Ret (Answer accepted_reply, posted)"
proof -
  have "sv_select sample_serve_env = live_env" "sv_now sample_serve_env = 5"
    by (simp_all add: sample_serve_env_def)
  with sample_posted show ?thesis
    by (simp add: answer_request_def ingest_SetupRoutes_def)
qed

lemma lossy_run:
  "\<exists>p. run (monolith_step decimal_port cfg0) (start_monolith cfg0 0) lossy_events p \<and> pc_phase p = Over \<and>
     pc_results p = [(CRMServer, None), (IngestServer, None), (MarketingServer, None), (AnalyticsServer, None)] \<and>
     buffered (rawSubs (wd_broker (snd (pc_sys p)))) 0 = [sample_event] \<and> stored ''u1'' (pc_sys p) = []"
proof -
  let ?r = "\<lambda>srv. decimal_port srv (monolith_port cfg0 srv)" and ?p0 = "start_process (NewMonolith cfg0 0)"
  let ?p1 = "?p0\<lparr>pc_sys := (fst (NewMonolith cfg0 0), booted), pc_fraud := Consuming 0\<rparr>"
  let ?p2 = "?p1\<lparr>pc_server := (pc_server ?p1)(IngestServer := Listening 8081)\<rparr>"
  let ?p3 = "?p2\<lparr>pc_cancelled := True, pc_phase := ShuttingDown shutdown_order\<rparr>"
  let ?p4 = "?p3\<lparr>pc_fraud := Gone\<rparr>"
  let ?srvs = "[IngestServer, MarketingServer, AnalyticsServer]"
  let ?p5 = "?p4\<lparr>pc_server := (pc_server ?p4)(CRMServer := Stopped), pc_phase := Awaiting CRMServer ?srvs\<rparr>"
  let ?p6 = "?p5\<lparr>pc_phase := ShuttingDown ?srvs, pc_results := pc_results ?p5 @ [(CRMServer, None)]\<rparr>"
  let ?a = "(IngestServer, ''/v1/events'', sample_request)"
  let ?p7 = "?p6\<lparr>pc_active := pc_active ?p6 @ [?a]\<rparr>"
  let ?p8 = "?p7\<lparr>pc_sys := (fst (pc_sys ?p7), posted), pc_active := [] @ []\<rparr>"
  have sub: "w_subscribe_raw (snd (NewMonolith cfg0 0)) = (Inr 0, booted)"
    by (simp add: booted_def w_subscribe_raw_def NewMonolith_def SubscribeRaw_def NewInMemoryBroker_def broker_buffer_def)
  have s1: "main_step ?r ?p0 (FraudSubscribes (Inr 0)) ?p1"
    using m_fraud_subscribes [of ?p0 "Inr 0" booted ?r] sub by (simp add: start_process_def subscribed_as_def)
  have "bind_port (?r IngestServer) (pc_server ?p1) = Listening 8081"
    using default_ports(2) by (simp add: bind_port_def cfg0_def start_process_def all_servers_def)
  then have s2: "main_step ?r ?p1 (Listens IngestServer) ?p2"
    using m_listens [of ?p1 IngestServer ?r] by (simp add: start_process_def)
  have s3: "main_step ?r ?p2 Signal ?p3" by (rule m_signal) (simp add: start_process_def)
  have s4: "main_step ?r ?p3 FraudReturns ?p4" by (rule m_fraud_returns) (simp_all add: start_process_def)
  have s5: "main_step ?r ?p4 (Unlistens CRMServer) ?p5" by (rule m_unlistens) (simp add: shutdown_order_def)
  have s6: "main_step ?r ?p5 (ShutdownReturns CRMServer None) ?p6" by (rule m_idle) (simp_all add: start_process_def)
  have s7: "main_step ?r ?p6 (Accepts IngestServer ''/v1/events'' sample_request) ?p7"
    by (rule m_accepts) (simp_all add: start_process_def)
  have s8: "main_step ?r ?p7 (Answers IngestServer ''/v1/events'' sample_request (Answer accepted_reply)) ?p8"
    by (rule m_answers [where env = sample_serve_env]) (simp_all add: start_process_def sample_answer)
  have first: "run (main_step ?r) ?p0 [FraudSubscribes (Inr 0), Listens IngestServer, Signal, FraudReturns, Unlistens CRMServer,
      ShutdownReturns CRMServer None, Accepts IngestServer ''/v1/events'' sample_request,
      Answers IngestServer ''/v1/events'' sample_request (Answer accepted_reply)] ?p8"
    by (rule main_run_cons [OF s1] main_run_cons [OF s2] main_run_cons [OF s3] main_run_cons [OF s4] main_run_cons [OF s5]
        main_run_cons [OF s6] main_run_cons [OF s7] main_run_cons [OF s8] run.intros(1))+
  have sys: "pc_sys ?p8 = (NewRuleState, posted)" by (simp add: NewMonolith_def)
  have wf: "broker_wf (wd_broker (snd (pc_sys ?p8)))"
    unfolding sys using world_conf_run [OF sample_run] by (simp add: world_conf_def broker_conf_def)
  have "pc_phase ?p8 = ShuttingDown ?srvs" "pc_active ?p8 = []" by simp_all
  from idle_return_run [OF this wf, of ?r] sys obtain p b where
    p: "run (main_step ?r) ?p8 (idle_shutdown ?srvs @ [ClosesBroker, MainReturns]) p" "pc_phase p = Over"
      "pc_sys p = (NewRuleState, posted\<lparr>wd_broker := b\<rparr>)" "Close (wd_broker posted) = Ret (None, b)"
      "pc_results p = pc_results ?p8 @ map (\<lambda>srv. (srv, None)) ?srvs"
    unfolding sys fst_conv snd_conv by blast
  have "map ch_buf (rawSubs b) = map ch_buf (rawSubs (wd_broker posted))" 
    using Close_spec [OF wf] p(4) unfolding sys by auto
  then have "buffered (rawSubs b) 0 = [sample_event]"
    using sample_queue(1,2) by (cases "rawSubs b"; cases "rawSubs (wd_broker posted)") (auto simp: buffered_def)
  moreover have "stored ''u1'' (NewRuleState, posted) = []"
    by (simp add: stored_def store_of_def posted_def w_increment_def booted_def w_subscribe_raw_def NewMonolith_def
        split_beta NewMemoryFraudRepository_def repo_events_slice)
  moreover have "run (main_step ?r) ?p0 lossy_events p"
    unfolding lossy_events_def by (rule run_appendI [OF first p(1)])
  ultimately show ?thesis
    using p(2,3,5) by (intro exI [of _ p]) (simp add: monolith_step_def start_monolith_def start_process_def stored_def store_of_def)
qed

section \<open>Properties\<close>

text \<open>
  C18: The process runs the program and ends: from the launch of the goroutines on, in every interleaving of
  the workers, the servers, their requests and the shutdown, the program takes steps of its own. \<^verbatim>\<open>main\<close> takes at most
  eleven steps, the signal included, is never stuck before it has returned, and nothing happens after it. Then
  the broker is closed, nobody listens, the servers have been shut down in order, and a request is only left
  unanswered at a server whose \<^verbatim>\<open>Shutdown\<close> gave up. The orchestrator is the process of the default configuration.
\<close>
theorem process_runs_program_and_ends:
  assumes "run (monolith_step resolve cfg) (start_monolith cfg now) evs p"
  shows "(\<exists>ops. run sys_step (NewMonolith cfg now) ops (pc_sys p)) \<and>
    length (filter of_main evs) \<le> 11 \<and>
    (pc_phase p \<noteq> Over \<longrightarrow> (\<exists>ev p'. monolith_step resolve cfg p ev p' \<and> of_main ev)) \<and>
    (pc_phase p = Over \<longrightarrow>
       (\<forall>ev p'. \<not> monolith_step resolve cfg p ev p') \<and> br_closed (wd_broker (snd (pc_sys p))) \<and>
       (\<forall>srv. pc_server p srv = Stopped) \<and>
       map fst (pc_results p) = [CRMServer, IngestServer, MarketingServer, AnalyticsServer] \<and>
       (\<forall>(srv, path, r) \<in> set (pc_active p). (srv, Some DeadlineExceeded) \<in> set (pc_results p))) \<and>
    orchestrator_step resolve = monolith_step resolve (LoadConfig (\<lambda>_. None)) \<and> start_orchestrator now = start_monolith (LoadConfig (\<lambda>_. None)) now"
proof (intro conjI impI)
  note r = assms [unfolded monolith_step_def start_monolith_def]
  from main_run_system [OF r] show ops: "\<exists>ops. run sys_step (NewMonolith cfg now) ops (pc_sys p)"
    by (simp add: start_process_def)
  show "length (filter of_main evs) \<le> 11"
    using main_run_left [OF r] by (simp add: start_process_def shutdown_order_def)
  show "\<exists>ev p'. monolith_step resolve cfg p ev p' \<and> of_main ev" if "pc_phase p \<noteq> Over"
  proof -
    from ops obtain ops where "run sys_step (NewMonolith cfg now) ops (fst (pc_sys p), snd (pc_sys p))" by auto
    then have "broker_wf (wd_broker (snd (pc_sys p)))" using world_conf_run by (fastforce simp: world_conf_def broker_conf_def)
    from main_goes_on [OF this that] show ?thesis by (simp add: monolith_step_def)
  qed
  assume over: "pc_phase p = Over"
  show "\<forall>ev p'. \<not> monolith_step resolve cfg p ev p'" using main_over [OF over] by (simp add: monolith_step_def)
  note o = over_ok [OF process_ok_run [OF r] over]
  show "br_closed (wd_broker (snd (pc_sys p)))" "\<forall>srv. pc_server p srv = Stopped"
    "map fst (pc_results p) = [CRMServer, IngestServer, MarketingServer, AnalyticsServer]"
    using o(1-3) by (simp_all add: shutdown_order_def)
  show "\<forall>(srv, path, r) \<in> set (pc_active p). (srv, Some DeadlineExceeded) \<in> set (pc_results p)"
    using o(4) by force
next
  have "orchestrator_port srv = monolith_port (LoadConfig (\<lambda>_. None)) srv" for srv
    by (cases srv) (simp_all add: LoadConfig_def getEnv_def)
  then show "orchestrator_step resolve = monolith_step resolve (LoadConfig (\<lambda>_. None))"
    by (intro ext) (simp add: orchestrator_step_def monolith_step_def)
  show "start_orchestrator now = start_monolith (LoadConfig (\<lambda>_. None)) now"
    by (simp add: start_orchestrator_def start_monolith_def orchestrator_is_default_monolith)
qed

theorem process_runs_program_and_ends_witness:
  "\<exists>p. run (monolith_step decimal_port cfg0) (start_monolith cfg0 0) lossy_events p \<and>
     br_closed (wd_broker (snd (pc_sys p))) \<and> pc_server p IngestServer = Stopped"
proof -
  obtain p where p: "run (monolith_step decimal_port cfg0) (start_monolith cfg0 0) lossy_events p" "pc_phase p = Over"
    using lossy_run by blast
  from process_runs_program_and_ends [OF p(1)] p show ?thesis by blast
qed

text \<open>
  C39: The shutdown is bounded: the four calls are made in order and are all back within two seconds of the
  signal, whatever the servers still do. A call returns nil only when its server is idle, and
  \<^verbatim>\<open>DeadlineExceeded\<close> only at the deadline, which all four share. When no server is busy later than 1.45
  seconds after the signal all four return nil.
\<close>
theorem shutdown_is_bounded:
  shows "map fst (main_shutdown jitter busy now) = [CRMServer, IngestServer, MarketingServer, AnalyticsServer] \<and>
    (\<forall>(srv, called, err, returned) \<in> set (main_shutdown jitter busy now).
       now \<le> called \<and> called \<le> returned \<and> returned \<le> now + 2 * Second \<and>
       (err = None \<and> busy srv called \<le> returned \<or> err = Some DeadlineExceeded \<and> returned = now + 2 * Second)) \<and>
    ((\<forall>srv t. busy srv t < now + 1450 * Millisecond) \<longrightarrow> (\<forall>(srv, called, err, returned) \<in> set (main_shutdown jitter busy now). err = None))"
proof (intro conjI impI)
  have now: "now \<le> now + shutdown_timeout" by (simp add: shutdown_timeout_def Second_def Millisecond_def)
  have dl: "now + shutdown_timeout = now + 2 * Second" by (simp add: shutdown_timeout_def)
  show "map fst (main_shutdown jitter busy now) = [CRMServer, IngestServer, MarketingServer, AnalyticsServer]"
    by (simp add: main_shutdown_def shutdown_all_servers) (simp add: shutdown_order_def)
  show "\<forall>(srv, called, err, returned) \<in> set (main_shutdown jitter busy now).
       now \<le> called \<and> called \<le> returned \<and> returned \<le> now + 2 * Second \<and>
       (err = None \<and> busy srv called \<le> returned \<or> err = Some DeadlineExceeded \<and> returned = now + 2 * Second)"
    using shutdown_all_bounds [OF now] unfolding main_shutdown_def dl [symmetric] by fast
  assume early: "\<forall>srv t. busy srv t < now + 1450 * Millisecond"
  have "busy srv t + 550 * Millisecond < now + shutdown_timeout" for srv t
    using dl spec [OF spec [OF early, of srv], of t] by (simp add: Second_def Millisecond_def)
  with shutdown_all_in_time [OF _ _ now] show "\<forall>(srv, called, err, returned) \<in> set (main_shutdown jitter busy now). err = None"
    unfolding main_shutdown_def by fast
qed

text \<open>A gateway that answers its last request a second after the signal.\<close>

theorem shutdown_is_bounded_witness:
  "map (\<lambda>(srv, called, err, returned). (srv, err))
     (main_shutdown (\<lambda>srv k. 7) (\<lambda>srv t. if srv = IngestServer then 1000 * Millisecond else 0) 0) =
   [(CRMServer, None), (IngestServer, None), (MarketingServer, None), (AnalyticsServer, None)]"
proof -
  let ?xs = "main_shutdown (\<lambda>srv k. 7) (\<lambda>srv t. if srv = IngestServer then 1000 * Millisecond else 0) 0"
  have "\<forall>srv (t :: time). (if srv = IngestServer then 1000 * Millisecond else 0) < (0 :: time) + 1450 * Millisecond"
    by (simp add: Millisecond_def)
  with shutdown_is_bounded [of "\<lambda>srv k. 7" "\<lambda>srv t. if srv = IngestServer then 1000 * Millisecond else 0" 0]
  have xs: "map fst ?xs = [CRMServer, IngestServer, MarketingServer, AnalyticsServer]"
    "\<forall>(srv, called, err, returned) \<in> set ?xs. err = None" by blast+
  have "map (\<lambda>(srv, called, err, returned). (srv, err)) ?xs = map (\<lambda>srv. (srv, None)) (map fst ?xs)"
    unfolding map_map using xs(2) by (intro map_cong) auto
  then show ?thesis unfolding xs(1) by simp
qed

text \<open>
  C40: One slow call of the mock CRM takes the time of all: a request that it lets hang for three seconds and that came
  less than a second before the signal holds its \<^verbatim>\<open>Shutdown\<close> until the deadline. Until then the other servers have not been
  told to stop, and after it none of them is waited for: what they are answering at that moment is cut off.
\<close>
theorem slow_crm_starves_shutdown:
  assumes "roll < 5" "accepted \<le> now" "now < accepted + Second" "accepted + fst (MockCRM roll) \<le> busy CRMServer now"
  shows "main_shutdown jitter busy now =
    (CRMServer, now, Some DeadlineExceeded, now + 2 * Second) #
    map (\<lambda>srv. (srv, now + 2 * Second, if busy srv (now + 2 * Second) \<le> now + 2 * Second then None else Some DeadlineExceeded,
                now + 2 * Second)) [IngestServer, MarketingServer, AnalyticsServer]"
proof -
  let ?d = "now + 2 * Second"
  obtain err t where a: "await_idle (jitter CRMServer) (busy CRMServer now) ?d 0 now = (err, t)" by fastforce
  have "?d < busy CRMServer now" using assms by (simp add: MockCRM_def)
  with await_idle_bounds [OF a] have "err = Some DeadlineExceeded" "t = ?d" by (auto simp: Second_def Millisecond_def)
  moreover have "main_shutdown jitter busy now = (CRMServer, now, err, t) # shutdown_all jitter busy ?d (tl shutdown_order) t"
    using a by (simp add: main_shutdown_def shutdown_timeout_def shutdown_order_def shutdown_all.simps(2) [of _ _ _ CRMServer]
        del: shutdown_all.simps(2))
  ultimately show ?thesis by (simp only: shutdown_all_expired) (simp add: shutdown_order_def)
qed

text \<open>A request that hangs since half a second, and a gateway that is never idle.\<close>

theorem slow_crm_starves_shutdown_witness:
  "main_shutdown (\<lambda>srv k. 0) (\<lambda>srv t. if srv = CRMServer then 3 * Second else if srv = IngestServer then t + 1 else t) (Second div 2) =
    [(CRMServer, Second div 2, Some DeadlineExceeded, Second div 2 + 2 * Second),
     (IngestServer, Second div 2 + 2 * Second, Some DeadlineExceeded, Second div 2 + 2 * Second),
     (MarketingServer, Second div 2 + 2 * Second, None, Second div 2 + 2 * Second),
     (AnalyticsServer, Second div 2 + 2 * Second, None, Second div 2 + 2 * Second)]"
proof -
  let ?busy = "\<lambda>srv t. if srv = CRMServer then 3 * Second else if srv = IngestServer then t + 1 else t"
  have "(0 :: time) \<le> Second div 2" "Second div 2 < 0 + Second" by (simp_all add: Second_def Millisecond_def)
  moreover have "0 + fst (MockCRM 3) \<le> ?busy CRMServer (Second div 2)" by (simp add: MockCRM_def)
  ultimately show ?thesis
    using slow_crm_starves_shutdown [of 3 0 "Second div 2" ?busy "\<lambda>srv k. 0"] by simp
qed

text \<open>
  C19: The graceful shutdown loses accepted events without any failure: the signal cancels the workers first while the
  gateway still listens. An event posted after the fraud worker has left is answered with 202, all four
  servers report a clean shutdown, and the process ends with the event in the channel and nothing stored of its user.
\<close>
theorem shutdown_loses_accepted_events:
  "\<exists>before after p.
     run (monolith_step decimal_port cfg0) (start_monolith cfg0 0) (before @ Signal # after) p \<and>
     Answers IngestServer ''/v1/events'' sample_request (Answer accepted_reply) \<in> set after \<and> pc_phase p = Over \<and>
     pc_results p = [(CRMServer, None), (IngestServer, None), (MarketingServer, None), (AnalyticsServer, None)] \<and>
     buffered (rawSubs (wd_broker (snd (pc_sys p)))) 0 = [sample_event] \<and> stored ''u1'' (pc_sys p) = []"
proof -
  define after where "after = [FraudReturns, Unlistens CRMServer, ShutdownReturns CRMServer None,
      Accepts IngestServer ''/v1/events'' sample_request, Answers IngestServer ''/v1/events'' sample_request (Answer accepted_reply)] @
     idle_shutdown [IngestServer, MarketingServer, AnalyticsServer] @ [ClosesBroker, MainReturns]"
  have "lossy_events = [FraudSubscribes (Inr 0), Listens IngestServer] @ Signal # after"
    by (simp add: lossy_events_def after_def)
  moreover have "Answers IngestServer ''/v1/events'' sample_request (Answer accepted_reply) \<in> set after"
    by (simp add: after_def)
  ultimately show ?thesis using lossy_run by metis
qed

end
