(* ===== verification/Archive.thy ===== *)
theory Archive
  imports RedisMonolith Shutdown
begin

text \<open>
  What the program promises about what it keeps: an abstract archive of events, contacts and privacy
  log entries per user that changes in three ways only. The program over the memory broker, over Redis and as a
  process with its shutdown refines it, through \<^const>\<open>refines\<close>.
\<close>

section \<open>The abstract archive\<close>

record archive =
  ac_events :: "string \<Rightarrow> tracking_event list"
  ac_contact :: "string \<Rightarrow> crm_contact option"
  ac_logs :: "string \<Rightarrow> privacy_log list"

definition empty_archive :: archive where
  "empty_archive = \<lparr>ac_events = (\<lambda>u. []), ac_contact = (\<lambda>u. None), ac_logs = (\<lambda>u. [])\<rparr>"

datatype archive_op = Keeps tracking_event | Syncs crm_contact | Erases string privacy_log

fun archive_apply :: "archive_op \<Rightarrow> archive \<Rightarrow> archive" where
  "archive_apply (Keeps e) a = a\<lparr>ac_events := (ac_events a)(UserID e := ac_events a (UserID e) @ [e])\<rparr>"
| "archive_apply (Syncs c) a = a\<lparr>ac_contact := (ac_contact a)(cc_UserID c \<mapsto> c)\<rparr>"
| "archive_apply (Erases u l) a =
     a\<lparr>ac_events := (ac_events a)(u := []), ac_contact := (ac_contact a)(u := None),
       ac_logs := (ac_logs a)(pl_UserID l := ac_logs a (pl_UserID l) @ [l])\<rparr>"

text \<open>Only conforming events are kept; a contact says how its sync ended; an erasure names a user and is logged as a purge.\<close>

fun archive_allows :: "archive_op \<Rightarrow> bool" where
  "archive_allows (Keeps e) = conforming e"
| "archive_allows (Syncs c) = (cc_SyncStatus c = ''synced'' \<or> cc_SyncStatus c = ''failed'')"
| "archive_allows (Erases u l) = (u \<noteq> [] \<and> pl_Action l = ''GDPR_PURGE'')"

definition archive_step :: "archive \<Rightarrow> archive_op \<Rightarrow> archive \<Rightarrow> bool" where
  "archive_step a op a' \<longleftrightarrow> archive_allows op \<and> a' = archive_apply op a"

text \<open>What an operation of the program may do to the archive.\<close>

fun tells :: "system_op \<Rightarrow> archive_op list \<Rightarrow> bool" where
  "tells (SysScreen ch e) as = (as = [Keeps e])"
| "tells (SysWorkflow ch se) as =
     (if IsFraudulent se \<or> workflow_of (EventType (Tracking se)) = None then as = []
      else \<exists>c. as = [Syncs c] \<and> cc_UserID c = UserID (Tracking se))"
| "tells (SysPurge r rep) as =
     (if re_status rep = StatusOK then \<exists>u l. purge_request u r \<and> as = [Erases u l] else as = [])"
| "tells _ as = (as = [])"

text \<open>What a user's events, contact and log entries are after a history.\<close>

fun kept_of :: "string \<Rightarrow> archive_op list \<Rightarrow> tracking_event list" where
  "kept_of u [] = []"
| "kept_of u (Keeps e # ops) = (if UserID e = u \<and> (\<forall>l. Erases u l \<notin> set ops) then e # kept_of u ops else kept_of u ops)"
| "kept_of u (_ # ops) = kept_of u ops"

definition erasures_of :: "archive_op list \<Rightarrow> privacy_log list" where
  "erasures_of ops = List.map_filter (\<lambda>op. case op of Erases u l \<Rightarrow> Some l | _ \<Rightarrow> None) ops"

lemma archive_run_apply: "run archive_step a ops a' \<longleftrightarrow> list_all archive_allows ops \<and> a' = fold archive_apply ops a"
  by (induction ops arbitrary: a) (auto simp: archive_step_def)

lemma fold_archive_events:
  "ac_events (fold archive_apply ops a) u = (if \<exists>l. Erases u l \<in> set ops then [] else ac_events a u) @ kept_of u ops"
proof (induction ops arbitrary: a)
  case (Cons op ops)
  then show ?case by (cases op) auto
qed simp

lemma fold_archive_logs:
  "ac_logs (fold archive_apply ops a) v = ac_logs a v @ filter (\<lambda>l. pl_UserID l = v) (erasures_of ops)"
proof (induction ops arbitrary: a)
  case (Cons op ops)
  then show ?case by (cases op) (auto simp: erasures_of_def map_filter_simps)
qed (simp add: erasures_of_def map_filter_simps)

section \<open>The repositories as an archive\<close>

definition archive_of :: "memory_marketing_repo memory_fraud_repo \<times> memory_marketing_repo \<Rightarrow> archive" where
  "archive_of s = \<lparr>ac_events = (\<lambda>u. map Tracking (repo_events u s)), ac_contact = (\<lambda>u. mr_crm (snd s) u),
     ac_logs = (\<lambda>v. slice_at (mr_privacy (snd s)) v)\<rparr>"

lemma archive_of_save:
  "archive_of (snd (SaveEvent se m), c) = archive_apply (Keeps (Tracking se)) (archive_of (m, c))"
proof -
  have "snd (repo_save se (m, c)) = (snd (SaveEvent se m), c)" by (simp add: repo_save_def split_beta)
  with repo_save_events [of _ se "(m, c)"] show ?thesis
    by (auto simp: archive_of_def event_user_def fun_eq_iff)
qed

lemma archive_of_contact: "archive_of (m, snd (SaveCRMContact k c)) = archive_apply (Syncs k) (archive_of (m, c))"
  by (simp add: archive_of_def SaveCRMContact_def repo_events_def fun_eq_iff)

lemma archive_of_erase:
  assumes "fr_crmDeleter m = Some crm_deleter"
  shows "archive_of (fst (snd (DeleteUserEvents u (m, c))),
      snd (SavePrivacyLog l (snd (DeleteCRMContact u (snd (snd (DeleteUserEvents u (m, c)))))))) =
    archive_apply (Erases u l) (archive_of (m, c))"
  using assms
  by (auto simp: archive_of_def DeleteUserEvents_def SavePrivacyLog_def DeleteCRMContact_def crm_deleter_def repo_events_slice
      slice_at_map_upd fun_eq_iff Let_def)

lemma archive_one: "archive_allows op \<Longrightarrow> a' = archive_apply op a \<Longrightarrow> run archive_step a [op] a'"
  unfolding archive_run_apply by simp

lemma archive_none: "run archive_step a [] a" by (rule run.intros(1))

section \<open>The program over the memory broker\<close>

lemma store_of_frames:
  "w_recv_raw ch w = (r, w') \<Longrightarrow> store_of w' = store_of w"
  "w_recv_screened ch w = (r', w') \<Longrightarrow> store_of w' = store_of w"
  "w_subscribe_raw w = (s, w') \<Longrightarrow> store_of w' = store_of w"
  "w_subscribe_screened w = (s', w') \<Longrightarrow> store_of w' = store_of w"
  by (auto simp: wiring store_of_def split: prod.splits)

lemma purged_archive:
  assumes "world_conf w"
  shows "archive_of (store_of (purged u l w)) = archive_apply (Erases u l) (archive_of (store_of w))"
proof -
  have "fr_crmDeleter (wd_fraudRepo w) = Some crm_deleter"
    using assms by (simp add: world_conf_def store_conf_def store_of_def)
  from archive_of_erase [OF this, of u "wd_mktRepo w" l] show ?thesis
    by (simp add: purged_def wiring store_of_def split_beta)
qed

lemma sys_step_archive:
  "sys_step s op s' \<Longrightarrow> world_conf (snd s) \<Longrightarrow>
   \<exists>as. tells op as \<and> run archive_step (archive_of (store_of (snd s))) as (archive_of (store_of (snd s')))"
proof (induction rule: sys_step.induct)
  case (sys_ingest_step env now r w rep w' st)
  have "store_of w' = store_of w"
    using sys_ingest_step(1) by (cases rule: sys_ingest_cases) (simp_all add: store_of_def)
  then show ?case by (intro exI [of _ "[]"]) simp
next
  case (sys_screen_step ch w e w1 env clock st st' w')
  then have conf: "conforming e" "store_of w1 = store_of w" using world_conf_recv_raw store_of_frames(1) by simp_all
  obtain se rr b where se: "Tracking se = e"
    "w' = w1\<lparr>wd_fraudRepo := snd (SaveEvent se (wd_fraudRepo w1)),
            wd_tracker := IncrementMetric (verdict_metric se) 1 (wd_tracker w1), wd_broker := b\<rparr>"
    using sys_screen_step(3) by (rule sys_screen_cases) blast
  then have "archive_of (store_of w') = archive_apply (Keeps e) (archive_of (store_of w1))"
    using archive_of_save [of se "wd_fraudRepo w1" "wd_mktRepo w1"] by (simp add: store_of_def)
  with conf show ?case by (intro exI [of _ "[Keeps e]"]) (simp only: snd_conv, intro conjI archive_one; simp)
next
  case (sys_skip_step ch w se w1 st)
  then show ?case using store_of_frames(2) [OF sys_skip_step(2)] by (intro exI [of _ "[]"]) simp
next
  case (sys_workflow_step ch w se w1 ce now aenv now' w' st)
  note frame = store_of_frames(2) [OF sys_workflow_step(2)]
  from sys_workflow_step(4) show ?case
  proof (cases rule: sys_workflow_cases)
    case no_workflow
    with frame show ?thesis by (intro exI [of _ "[]"]) simp
  next
    case (workflow wf c h r ok)
    have "archive_of (store_of w') = archive_apply (Syncs c) (archive_of (store_of w))"
      using archive_of_contact [of "wd_fraudRepo w1" c "wd_mktRepo w1"] workflow(5) frame by (simp add: store_of_def)
    moreover have "archive_allows (Syncs c)" "cc_UserID c = UserID (Tracking se)"
      using workflow(2) by (simp_all add: new_contact_def)
    ultimately show ?thesis using workflow(1) sys_workflow_step(3)
      by (intro exI [of _ "[Syncs c]"]) (simp only: snd_conv, intro conjI archive_one; simp)
  qed
next
  case (sys_purge_step sha256 now1 now2 r w rep w' st)
  from sys_purge_step(1) show ?case
  proof (cases rule: sys_purge_cases)
    case refused
    then show ?thesis by (intro exI [of _ "[]"]) simp
  next
    case (ok u)
    let ?op = "Erases u (audit_log sha256 now1 now2 u)"
    have "archive_of (store_of w') = archive_apply ?op (archive_of (store_of w))"
      using purged_archive sys_purge_step(2) ok(2) by simp
    moreover have "archive_allows ?op" using ok(1) by (simp add: purge_request_def audit_log_def)
    ultimately show ?thesis using ok(1,3)
      by (intro exI [of _ "[?op]"]) (simp only: snd_conv, intro conjI archive_one; simp; blast)
  qed
next
  case (sys_fraud_subscribe w s w' st)
  then show ?case using store_of_frames(3) by (intro exI [of _ "[]"]) simp
next
  case (sys_marketing_subscribe w s w' st)
  then show ?case using store_of_frames(4) by (intro exI [of _ "[]"]) simp
qed (intro exI [of _ "[]"], simp add: store_of_def)+

interpretation memory_archive: refines sys_step archive_step "\<lambda>s. archive_of (store_of (snd s))" "\<lambda>s. world_conf (snd s)" tells
  by unfold_locales (rule world_conf_step sys_step_archive; assumption)+

section \<open>The program over Redis\<close>

fun redis_tells :: "redis_sys_op \<Rightarrow> archive_op list \<Rightarrow> bool" where
  "redis_tells (RsProgram op) as = tells op as"
| "redis_tells _ as = (as = [])"

definition rw_store :: "redis_world \<Rightarrow> memory_marketing_repo memory_fraud_repo \<times> memory_marketing_repo" where
  "rw_store w = (rw_fraudRepo w, rw_mktRepo w)"

lemma rw_store_frames [simp]:
  "rw_store (w\<lparr>rw_broker := b\<rparr>) = rw_store w" "rw_store (w\<lparr>rw_tracker := t\<rparr>) = rw_store w"
  "rw_store (w\<lparr>rw_adapter := h\<rparr>) = rw_store w" "rw_store (w\<lparr>rw_raw_sent := ds\<rparr>) = rw_store w"
  "rw_store (w\<lparr>rw_screened_sent := ds\<rparr>) = rw_store w" "rw_store (set_raw i s w) = rw_store w" "rw_store (set_screened i s' w) = rw_store w"
  by (simp_all add: rw_store_def set_raw_def set_screened_def)

lemma rw_store_recv:
  "r_recv_raw ch w = (v, w') \<Longrightarrow> rw_store w' = rw_store w"
  "r_recv_screened ch w = (v', w') \<Longrightarrow> rw_store w' = rw_store w"
  by (auto simp: r_recv_raw_def r_recv_screened_def rw_store_def Let_def split: prod.splits)

lemma r_ingest_store:
  assumes "r_ingest show_time result now r w = Ret (rep, w')"
  shows "rw_store w' = rw_store w"
proof (cases "admitted now r")
  case None
  show ?thesis
    by (rule HandleIngest_refused [OF None, where 'w = redis_world]) (use assms in \<open>auto simp: r_ingest_def r_increment_def\<close>)
next
  case (Some e)
  with assms show ?thesis
    by (auto simp: r_ingest_def HandleIngest_admitted r_publish_raw_def r_increment_def split: option.splits prod.splits)
qed

lemma r_screen_archive:
  assumes "r_screen show_time result clock e (st, w) = Ret (st', w')"
  shows "archive_of (rw_store w') = archive_apply (Keeps e) (archive_of (rw_store w))"
proof -
  obtain se st1 where sc: "screen DefaultRules clock e st = (se, st1)" by fastforce
  then have "Tracking se = e" by (auto simp: screen_default Let_def)
  moreover have "rw_store w' = (snd (SaveEvent se (rw_fraudRepo w)), rw_mktRepo w)"
    using assms sc
    by (auto simp: r_screen_def ScreenEvent_def redis_wiring SaveEvent_def rw_store_def Let_def split: if_splits prod.splits)
  ultimately show ?thesis using archive_of_save [of se "rw_fraudRepo w" "rw_mktRepo w"] by (simp add: rw_store_def)
qed

lemma r_workflow_archive:
  assumes "r_workflow ce now env now' se w = Ret w'"
  obtains "workflow_of (EventType (Tracking se)) = None" "w' = w"
  | c where "workflow_of (EventType (Tracking se)) \<noteq> None" "cc_UserID c = UserID (Tracking se)" "archive_allows (Syncs c)"
      "archive_of (rw_store w') = archive_apply (Syncs c) (archive_of (rw_store w))"
proof (cases "workflow_of (EventType (Tracking se))")
  case None
  with assms that(1) show thesis by (simp add: r_workflow_def ProcessMarketingWorkflow_def)
next
  case (Some wf)
  let ?k = "new_contact now' wf (Tracking se)"
  obtain r h where sync: "SyncContact ce now env ?k (rw_adapter w) = Ret (r, h)"
    using assms Some
    by (auto simp: r_workflow_def ProcessMarketingWorkflow_def redis_wiring Let_def split: outcome.splits)
  define c where "c = ?k\<lparr>cc_SyncStatus := if r = None then ''synced'' else ''failed''\<rparr>"
  have c: "rw_store w' = (rw_fraudRepo w, snd (SaveCRMContact c (rw_mktRepo w)))"
    using assms Some sync
    by (cases r)
      (auto simp: c_def r_workflow_def ProcessMarketingWorkflow_def redis_wiring Let_def SaveCRMContact_def rw_store_def)
  have "cc_UserID c = UserID (Tracking se)" "archive_allows (Syncs c)" by (auto simp: c_def new_contact_def)
  moreover have "archive_of (rw_store w') = archive_apply (Syncs c) (archive_of (rw_store w))"
    using archive_of_contact [of "rw_fraudRepo w" c "rw_mktRepo w"] c by (simp add: rw_store_def)
  ultimately show thesis using Some that(2) by simp
qed

lemma r_purge_archive:
  assumes "r_purge sha256 now1 now2 r w = (rep, w')" "redis_world_ok w"
  obtains "re_status rep \<noteq> StatusOK" "rw_store w' = rw_store w"
  | u l where "re_status rep = StatusOK" "purge_request u r" "archive_allows (Erases u l)"
      "archive_of (rw_store w') = archive_apply (Erases u l) (archive_of (rw_store w))"
proof (cases "\<exists>u. purge_request u r")
  case True
  then obtain u where u: "purge_request u r" by blast
  let ?l = "audit_log sha256 now1 now2 u"
  have del: "fr_crmDeleter (rw_fraudRepo w) = Some crm_deleter"
    using assms(2) by (simp add: redis_world_ok_def store_holds_def)
  then obtain n where n: "r_delete_events u w = (Inr n, snd (r_delete_events u w))"
    by (auto simp: r_delete_events_def DeleteUserEvents_def Let_def)
  have "re_status rep = StatusOK \<and>
      w' = snd (on_mkt (SavePrivacyLog ?l) (snd (on_mkt (DeleteCRMContact u) (snd (r_delete_events u w)))))"
    using assms(1) u n by (auto simp: purge_request_def r_purge_def HandleGDPRDelete_def Let_def audit_log_def split: prod.splits)
  moreover from this archive_of_erase [OF del, of u "rw_mktRepo w" ?l]
  have "archive_of (rw_store w') = archive_apply (Erases u ?l) (archive_of (rw_store w))"
    by (simp add: redis_wiring rw_store_def split_beta)
  moreover have "archive_allows (Erases u ?l)" using u by (simp add: purge_request_def audit_log_def)
  ultimately show thesis using that(2) u by blast
next
  case False
  obtain rep' where "re_status rep' \<noteq> StatusOK" "r_purge sha256 now1 now2 r w = (rep', w)"
    unfolding r_purge_def using HandleGDPRDelete_refused [OF False, of sha256 r_delete_events "\<lambda>u. on_mkt (DeleteCRMContact u)" "\<lambda>l. on_mkt (SavePrivacyLog l)" now1 now2 w] by blast
  with assms(1) that(1) show thesis by simp
qed

lemma redis_step_archive:
  "redis_sys_step show_time s op s' \<Longrightarrow> redis_world_ok (snd s) \<Longrightarrow>
   \<exists>as. redis_tells op as \<and> run archive_step (archive_of (rw_store (snd s))) as (archive_of (rw_store (snd s')))"
proof (induction rule: redis_sys_step.induct)
  case (rs_ingest result now r w rep w' st)
  then show ?case using r_ingest_store by (intro exI [of _ "[]"]) simp
next
  case (rs_screen ch w e w1 result clock st st' w')
  have "conforming e" using r_recv_raw_ok [OF rs_screen(2,1)] rs_screen(4) by (simp add: good_event_def)
  with r_screen_archive [OF rs_screen(3)] rw_store_recv(1) [OF rs_screen(2)] show ?case
    by (intro exI [of _ "[Keeps e]"]) (simp only: snd_conv, intro conjI archive_one; simp)
next
  case (rs_skip ch w se w1 st)
  then show ?case using rw_store_recv(2) [OF rs_skip(2)] by (intro exI [of _ "[]"]) simp
next
  case (rs_workflow ch w se w1 ce now aenv now' w' st)
  note frame = rw_store_recv(2) [OF rs_workflow(2)]
  from rs_workflow(4) show ?case
  proof (cases rule: r_workflow_archive)
    case 1
    with frame show ?thesis by (intro exI [of _ "[]"]) simp
  next
    case (2 c)
    with frame rs_workflow(3) show ?thesis
      by (intro exI [of _ "[Syncs c]"]) (simp only: snd_conv, intro conjI archive_one; simp)
  qed
next
  case (rs_purge sha256 now1 now2 r w rep w' st)
  from rs_purge(1) rs_purge(2) [unfolded snd_conv] show ?case
  proof (cases rule: r_purge_archive)
    case 1
    then show ?thesis by (intro exI [of _ "[]"]) simp
  next
    case (2 u l)
    then show ?thesis
      by (intro exI [of _ "[Erases u l]"]) (simp only: snd_conv, intro conjI archive_one; simp; blast)
  qed
qed (intro exI [of _ "[]"], simp)+

interpretation redis_archive: refines "redis_sys_step show_time" archive_step "\<lambda>s. archive_of (rw_store (snd s))"
    "\<lambda>s. redis_world_ok (snd s) \<and> time_law show_time" redis_tells for show_time
proof unfold_locales
  show "redis_sys_step show_time s op s' \<Longrightarrow> redis_world_ok (snd s) \<and> time_law show_time \<Longrightarrow>
      redis_world_ok (snd s') \<and> time_law show_time" for s op s'
    using redis_step_ok by blast
  show "redis_sys_step show_time s op s' \<Longrightarrow> redis_world_ok (snd s) \<and> time_law show_time \<Longrightarrow>
      \<exists>as. redis_tells op as \<and> run archive_step (archive_of (rw_store (snd s))) as (archive_of (rw_store (snd s')))" for s op s'
    using redis_step_archive by blast
qed

section \<open>Properties\<close>

lemma empty_stores:
  "archive_of (store_of (snd (NewMonolith cfg now))) = empty_archive"
  "archive_of (rw_store (snd (NewRedisMonolith cfg b now))) = empty_archive"
  by (simp_all add: archive_of_def empty_archive_def store_of_def rw_store_def NewMonolith_def NewRedisMonolith_def
      NewMemoryFraudRepository_def NewMemoryMarketingRepository_def repo_events_slice slice_at_def)

text \<open>What an archive that started empty holds is told by its history.\<close>

lemma archive_told:
  assumes "run archive_step empty_archive ops a"
  shows "list_all archive_allows ops" "ac_events a u = kept_of u ops"
    "ac_logs a v = filter (\<lambda>l. pl_UserID l = v) (erasures_of ops)"
  using assms fold_archive_events [of ops empty_archive u] fold_archive_logs [of ops empty_archive v]
  by (auto simp: archive_run_apply empty_archive_def)

text \<open>
  C10: The process keeps what the archive keeps: every run of the monolith's process, with its HTTP requests, workers and
  shutdown, is a run of the program whose operations tell the changes of the abstract archive one by one. A screening keeps its
  event, a workflow syncs one contact, a purge answered 200 erases its user and writes one log entry, and nothing
  else changes anything. At every moment the events of a user are those kept since the user was last erased.
\<close>
theorem process_keeps_archive:
  assumes "run (monolith_step resolve cfg) (start_monolith cfg now) evs p"
  shows "\<exists>ops ass. run sys_step (NewMonolith cfg now) ops (pc_sys p) \<and> length ops \<le> length evs \<and> list_all2 tells ops ass \<and>
    run archive_step empty_archive (concat ass) (archive_of (store_of (snd (pc_sys p)))) \<and>
    (\<forall>u. stored u (pc_sys p) = kept_of u (concat ass)) \<and>
    (\<forall>v. repo_logs v (wd_mktRepo (snd (pc_sys p))) = filter (\<lambda>l. pl_UserID l = v) (erasures_of (concat ass)))"
proof -
  obtain opss where opss: "list_all2 (\<lambda>ev ops. length ops \<le> 1) evs opss" "run sys_step (NewMonolith cfg now) (concat opss) (pc_sys p)"
    using process.run_refines [OF assms [unfolded monolith_step_def]] by (auto simp: start_monolith_def start_process_def)
  have len: "length (concat opss) \<le> length evs"
    using opss(1) by (induction rule: list_all2_induct) simp_all
  have "world_conf (snd (NewMonolith cfg now))" by (rule world_conf_New)
  from memory_archive.run_refines [OF opss(2) this] obtain ass where
    ass: "list_all2 tells (concat opss) ass" "run archive_step empty_archive (concat ass) (archive_of (store_of (snd (pc_sys p))))"
    by (auto simp: empty_stores)
  have "stored u (pc_sys p) = kept_of u (concat ass)" for u
    using archive_told(2) [OF ass(2), of u] by (simp add: archive_of_def stored_def)
  moreover have "repo_logs v (wd_mktRepo (snd (pc_sys p))) = filter (\<lambda>l. pl_UserID l = v) (erasures_of (concat ass))" for v
    using archive_told(3) [OF ass(2), of v] by (simp add: archive_of_def store_of_def)
  ultimately show ?thesis using opss(2) len ass by blast
qed

theorem process_keeps_archive_witness:
  "\<exists>p ops ass. run (monolith_step decimal_port cfg0) (start_monolith cfg0 0) lossy_events p \<and> list_all2 tells ops ass \<and>
     kept_of ''u1'' (concat ass) = []"
proof -
  obtain p where p: "run (monolith_step decimal_port cfg0) (start_monolith cfg0 0) lossy_events p" "stored ''u1'' (pc_sys p) = []"
    using lossy_run by blast
  from process_keeps_archive [OF p(1)] p show ?thesis by metis
qed

text \<open>
  C35: Over Redis the program keeps the same archive: its own operations tell the changes one by one, in the same three ways, and the
  arrival and forwarding of messages change nothing. At every moment the events of a user are those
  screened since the user was last erased, whatever Redis loses, repeats or reorders.
\<close>
theorem redis_keeps_archive:
  assumes "initBroker be cfg = Boots (RedisChoice b)" "time_law show_time"
    and "run (redis_sys_step show_time) (NewRedisMonolith cfg b now) ops s"
  shows "\<exists>ass. list_all2 redis_tells ops ass \<and>
    run archive_step empty_archive (concat ass) (archive_of (rw_fraudRepo (snd s), rw_mktRepo (snd s))) \<and>
    (\<forall>u. map Tracking (repo_events u (rw_fraudRepo (snd s), rw_mktRepo (snd s))) = kept_of u (concat ass)) \<and>
    (\<forall>v. repo_logs v (rw_mktRepo (snd s)) = filter (\<lambda>l. pl_UserID l = v) (erasures_of (concat ass)))"
proof -
  have "redis_world_ok (snd (NewRedisMonolith cfg b now)) \<and> time_law show_time" using redis_ok_New [OF assms(1)] assms(2) by simp
  from redis_archive.run_refines [OF assms(3) this] obtain ass where
    ass: "list_all2 redis_tells ops ass" "run archive_step empty_archive (concat ass) (archive_of (rw_store (snd s)))"
    by (auto simp: empty_stores)
  have "map Tracking (repo_events u (rw_store (snd s))) = kept_of u (concat ass)" for u
    using archive_told(2) [OF ass(2), of u] by (simp add: archive_of_def)
  moreover have "repo_logs v (rw_mktRepo (snd s)) = filter (\<lambda>l. pl_UserID l = v) (erasures_of (concat ass))" for v
    using archive_told(3) [OF ass(2), of v] by (simp add: archive_of_def rw_store_def)
  ultimately show ?thesis using ass unfolding rw_store_def by blast
qed

theorem redis_keeps_archive_witness:
  "\<exists>s ass. run (redis_sys_step epoch_text) (NewRedisMonolith redis_cfg fresh_redis 0) redis_sample_ops s \<and>
     list_all2 redis_tells redis_sample_ops ass \<and> kept_of ''u1'' (concat ass) = map Tracking (repo_events ''u1'' (rw_store (snd s)))"
proof -
  obtain st w where r: "run (redis_sys_step epoch_text) (NewRedisMonolith redis_cfg fresh_redis 0) redis_sample_ops (st, w)"
    using redis_sample_run by (elim exE conjE)
  from redis_keeps_archive [OF redis_sample_boot epoch_law r] obtain ass where
    "list_all2 redis_tells redis_sample_ops ass" "kept_of ''u1'' (concat ass) = map Tracking (repo_events ''u1'' (rw_store w))"
    unfolding rw_store_def by auto
  with r show ?thesis by (intro exI [of _ "(st, w)"] exI [of _ ass]) simp
qed

end
