(* ===== verification/Simulator.thy ===== *)
theory Simulator
  imports SystemWorkers
begin

text \<open>
  \<^verbatim>\<open>scripts/simulator\<close>: the traffic the simulator sends to a running cluster, as the events and requests it
  makes, and what the program answers. The clock is an argument; a reading is taken where the
  code calls \<^verbatim>\<open>time.Now()\<close>.
\<close>

section \<open>The events\<close>

text \<open>\<^verbatim>\<open>fmt.Sprintf\<close> with a prefix and the nanoseconds of an instant.\<close>

definition stamped :: "string \<Rightarrow> time \<Rightarrow> string" where
  "stamped pre now = pre @ show_int (UnixNano now)"

definition chrome :: string where
  "chrome = ''Mozilla/5.0 (Macintosh; Intel Mac OS X 10_15_7) AppleWebKit/537.36 (KHTML, like Gecko) Chrome/120.0.0.0 Safari/537.36''"

definition legit_users :: "string list" where
  "legit_users = [''usr_alpha'', ''usr_beta'', ''usr_gamma'']"

definition legit_events :: "string list" where
  "legit_events = [''signup'', ''view_item'', ''cart_abandoned'', ''checkout_completed'']"

text \<open>The event of one goroutine; \<open>now1\<close> is read for the id, \<open>now2\<close> for the timestamp.\<close>

definition legit_event :: "string \<Rightarrow> string \<Rightarrow> time \<Rightarrow> time \<Rightarrow> tracking_event" where
  "legit_event user event now1 now2 =
     \<lparr>EventID = stamped (''evt-legit-'' @ user @ ''-'') now1, UserID = user, EventType = event,
      IPAddress = ''192.168.1.15'', UserAgent = chrome,
      Payload = Some [(''email'', JStr (user @ ''@gmail.com'')), (''country'', JStr ''ID'')],
      Timestamp = now2, GDPRConsent = True\<rparr>"

text \<open>\<^verbatim>\<open>runLegitimateTraffic\<close>: every user with every event; the goroutines read the clock at \<open>clock user event\<close>.\<close>

definition legitimate_traffic :: "(string \<Rightarrow> string \<Rightarrow> time \<times> time) \<Rightarrow> tracking_event list" where
  "legitimate_traffic clock =
     concat (map (\<lambda>u. map (\<lambda>e. case clock u e of (now1, now2) \<Rightarrow> legit_event u e now1 now2) legit_events) legit_users)"

definition bots :: "(string \<times> string) list" where
  "bots = [(''bot_google'', ''Googlebot/2.1 (+http://www.google.com/bot.html)''),
     (''bot_scraping'', ''HeadlessChrome/109.0.0.0 Safari/537.36''), (''bot_python'', ''python-requests/2.28.1'')]"

definition bot_event :: "string \<times> string \<Rightarrow> time \<Rightarrow> time \<Rightarrow> tracking_event" where
  "bot_event b now1 now2 =
     \<lparr>EventID = stamped (''evt-bot-'' @ fst b @ ''-'') now1, UserID = fst b, EventType = ''click'',
      IPAddress = ''8.8.8.8'', UserAgent = snd b, Payload = Some [(''target'', JStr ''login_payload'')],
      Timestamp = now2, GDPRConsent = True\<rparr>"

text \<open>\<^verbatim>\<open>runBotTraffic\<close>, the \<open>i\<close>th event with the clock at \<open>clock i\<close>.\<close>

definition bot_traffic :: "(nat \<Rightarrow> time \<times> time) \<Rightarrow> tracking_event list" where
  "bot_traffic clock = map (\<lambda>i. case clock i of (now1, now2) \<Rightarrow> bot_event (bots ! i) now1 now2) [0..<length bots]"

definition burst_event :: "nat \<Rightarrow> time \<Rightarrow> time \<Rightarrow> tracking_event" where
  "burst_event i now1 now2 =
     \<lparr>EventID = stamped ''evt-burst-'' now1, UserID = ''usr_spammer'', EventType = ''click'',
      IPAddress = ''103.120.15.40'', UserAgent = ''Mozilla/5.0'', Payload = Some [(''click_id'', JNum (of_nat i))],
      Timestamp = now2, GDPRConsent = True\<rparr>"

text \<open>\<^verbatim>\<open>runRateLimitTraffic\<close>: \<^verbatim>\<open>i\<close> from 1 to 15.\<close>

definition burst_traffic :: "(nat \<Rightarrow> time \<times> time) \<Rightarrow> tracking_event list" where
  "burst_traffic clock = map (\<lambda>i. case clock i of (now1, now2) \<Rightarrow> burst_event i now1 now2) [1..<16]"

definition geo_event :: "string \<Rightarrow> string \<Rightarrow> string \<Rightarrow> time \<Rightarrow> tracking_event" where
  "geo_event event_id ip country now =
     \<lparr>EventID = event_id, UserID = ''usr_traveller'', EventType = ''click'', IPAddress = ip, UserAgent = ''Mozilla/5.0'',
      Payload = Some [(''country'', JStr country)], Timestamp = now, GDPRConsent = True\<rparr>"

text \<open>\<^verbatim>\<open>runGeoVelocityAnomaly\<close>.\<close>

definition geo_traffic :: "time \<Rightarrow> time \<Rightarrow> tracking_event list" where
  "geo_traffic now1 now2 =
     [geo_event ''evt-geo-1'' ''114.122.0.1'' ''ID'' now1, geo_event ''evt-geo-2'' ''126.0.0.1'' ''JP'' now2]"

definition compliance_user :: string where
  "compliance_user = ''usr_privacy_advocate''"

definition compliance_event :: "time \<Rightarrow> tracking_event" where
  "compliance_event now =
     \<lparr>EventID = ''evt-comp-1'', UserID = compliance_user, EventType = ''signup'', IPAddress = ''10.0.0.2'',
      UserAgent = ''Mozilla/5.0'', Payload = Some [(''email'', JStr ''privacy@advocate.org'')],
      Timestamp = now, GDPRConsent = True\<rparr>"

section \<open>The requests\<close>

text \<open>\<^verbatim>\<open>postEvent\<close>: the request, and its status as the simulator sees it.\<close>

definition post_request :: "(time \<Rightarrow> string) \<Rightarrow> tracking_event \<Rightarrow> api_request" where
  "post_request show_time e =
     \<lparr>ar_method = ''POST'', ar_query = [], ar_body = Some (encode_tracking_event show_time e)\<rparr>"

definition postEvent :: "(api_request \<Rightarrow> 'w \<Rightarrow> (go_error + reply) \<times> 'w) \<Rightarrow> (time \<Rightarrow> string) \<Rightarrow> tracking_event \<Rightarrow> 'w \<Rightarrow> int \<times> 'w" where
  "postEvent client show_time e w =
     (case client (post_request show_time e) w of
        (Inl err, w') \<Rightarrow> (500, w')
      | (Inr rep, w') \<Rightarrow> (re_status rep, w'))"

definition export_request :: "string \<Rightarrow> api_request" where
  "export_request user = \<lparr>ar_method = ''GET'', ar_query = [(''user_id'', user)], ar_body = None\<rparr>"

definition delete_request :: "string \<Rightarrow> api_request" where
  "delete_request user = \<lparr>ar_method = ''POST'', ar_query = [], ar_body = Some (JObj [(''user_id'', JStr user)])\<rparr>"

text \<open>\<^verbatim>\<open>pingCluster\<close>: the last error, and how often it slept for half a second. \<open>get i\<close> is the answer to attempt \<open>i\<close>.\<close>

fun ping_cluster :: "(nat \<Rightarrow> go_error option) \<Rightarrow> nat \<Rightarrow> nat \<Rightarrow> go_error option \<Rightarrow> go_error option \<times> nat" where
  "ping_cluster get i 0 err = (err, 0)"
| "ping_cluster get i (Suc n) err =
     (case get i of
        None \<Rightarrow> (None, 0)
      | Some pingErr \<Rightarrow> (case ping_cluster get (Suc i) n (Some pingErr) of (r, k) \<Rightarrow> (r, Suc k)))"

definition pingCluster :: "(nat \<Rightarrow> go_error option) \<Rightarrow> go_error option \<times> nat" where
  "pingCluster get = ping_cluster get 0 5 None"

lemma ping_cluster_ok:
  "fst (ping_cluster get i n err) = None \<longleftrightarrow> (\<exists>k < n. get (i + k) = None) \<or> n = 0 \<and> err = None"
proof (induction n arbitrary: i err)
  case (Suc n)
  have "(\<exists>k < Suc n. get (i + k) = None) \<longleftrightarrow> get i = None \<or> (\<exists>k < n. get (Suc i + k) = None)"
    by (auto simp: less_Suc_eq_0_disj)
  with Suc.IH [of "Suc i"] show ?case by (cases "get i") (simp_all add: split_beta)
qed simp

section \<open>The events as the gateway publishes them\<close>

text \<open>What the gateway makes of an event that is posted: the address masked, the payload's keys in order.\<close>

definition gateway_event :: "tracking_event \<Rightarrow> tracking_event" where
  "gateway_event e = (canonical_event e)\<lparr>IPAddress := AnonymizeIP (IPAddress e)\<rparr>"

definition sendable :: "(time \<Rightarrow> string) \<Rightarrow> tracking_event \<Rightarrow> bool" where
  "sendable show_time e \<longleftrightarrow> time_text_ok show_time (Timestamp e) \<and> go_payload (Payload e) \<and> Timestamp e \<noteq> 0 \<and>
     EventID e \<noteq> [] \<and> UserID e \<noteq> [] \<and> EventType e \<noteq> [] \<and> GDPRConsent e"

lemma sendable_admitted:
  assumes "sendable show_time e"
  shows "admitted now (post_request show_time e) = Some (gateway_event e)"
  using assms decode_encode_tracking [of show_time e]
  by (simp add: sendable_def admitted_def post_request_def decode_body_def CheckGDPRConsent_def gateway_event_def IsZero_def)

lemma click_ids: "i \<in> {1..<16} \<Longrightarrow> go_value (JNum (of_nat i))"
proof -
  have "\<forall>i \<in> set [1..<16]. f64 (of_nat i) = of_nat i" by code_simp
  moreover have "\<forall>i \<in> set [1..<16]. \<not> f64_overflow (of_nat i)" by (simp add: f64_overflow_def upt_conv_Cons)
  ultimately show "i \<in> {1..<16} \<Longrightarrow> go_value (JNum (of_nat i))" by simp
qed

lemma traffic_sendable:
  assumes "\<forall>e \<in> set es. time_text_ok show_time (Timestamp e) \<and> Timestamp e \<noteq> 0"
    and "set es \<subseteq> set (legitimate_traffic c1) \<union> set (bot_traffic c2) \<union> set (burst_traffic c3) \<union> set (geo_traffic t1 t2) \<union>
      {compliance_event t3}"
  shows "\<forall>e \<in> set es. sendable show_time e"
proof
  fix e
  assume e: "e \<in> set es"
  have legit: "sendable show_time (legit_event u ev n1 n2)" if "time_text_ok show_time n2" "n2 \<noteq> 0" "u \<noteq> []" "ev \<noteq> []" for u ev n1 n2
    using that by (simp add: sendable_def legit_event_def go_payload_def stamped_def)
  have bot: "sendable show_time (bot_event b n1 n2)" if "time_text_ok show_time n2" "n2 \<noteq> 0" "fst b \<noteq> []" for b n1 n2
    using that by (simp add: sendable_def bot_event_def go_payload_def stamped_def)
  have burst: "sendable show_time (burst_event i n1 n2)" if "time_text_ok show_time n2" "n2 \<noteq> 0" "i \<in> {1..<16}" for i n1 n2
    using that click_ids [OF that(3)] by (simp add: sendable_def burst_event_def go_payload_def stamped_def)
  from e assms(2) have "e \<in> set (legitimate_traffic c1) \<or> e \<in> set (bot_traffic c2) \<or> e \<in> set (burst_traffic c3) \<or>
      e \<in> set (geo_traffic t1 t2) \<or> e = compliance_event t3" by blast
  then show "sendable show_time e"
  proof (elim disjE)
    assume "e \<in> set (legitimate_traffic c1)"
    then obtain u ev n1 n2 where "e = legit_event u ev n1 n2" "u \<in> set legit_users" "ev \<in> set legit_events"
      by (auto simp: legitimate_traffic_def split: prod.splits)
    with legit [of n2 u ev n1] bspec [OF assms(1) e] show ?thesis
      by (auto simp: legit_users_def legit_events_def legit_event_def)
  next
    assume "e \<in> set (bot_traffic c2)"
    then obtain i n1 n2 where "e = bot_event (bots ! i) n1 n2" "bots ! i \<in> set bots"
      by (auto simp: bot_traffic_def split: prod.splits)
    moreover define b where "b = bots ! i"
    ultimately have "e = bot_event b n1 n2" "b \<in> set bots" by simp_all
    with bot [of n2 b n1] bspec [OF assms(1) e] show ?thesis by (auto simp: bots_def bot_event_def)
  next
    assume "e \<in> set (burst_traffic c3)"
    then obtain i n1 n2 where "e = burst_event i n1 n2" "i \<in> {1..<16}"
      by (auto simp: burst_traffic_def split: prod.splits)
    with burst [of n2 i n1] bspec [OF assms(1) e] show ?thesis by (auto simp: burst_event_def)
  next
    assume "e \<in> set (geo_traffic t1 t2)"
    with bspec [OF assms(1) e] show ?thesis by (auto simp: geo_traffic_def geo_event_def sendable_def go_payload_def)
  next
    assume "e = compliance_event t3"
    with bspec [OF assms(1) e] show ?thesis by (simp add: compliance_event_def compliance_user_def sendable_def go_payload_def)
  qed
qed

section \<open>What the rules see of them\<close>

lemma gateway_event_simps [simp]:
  "UserID (gateway_event e) = UserID e" "UserAgent (gateway_event e) = UserAgent e"
  "IPAddress (gateway_event e) = AnonymizeIP (IPAddress e)"
  by (simp_all add: gateway_event_def)

lemma gateway_country:
  "go_payload (Payload e) \<Longrightarrow> map_get (Payload (gateway_event e)) ''country'' = Some (JStr c) \<longleftrightarrow>
     map_get (Payload e) ''country'' = Some (JStr c)"
  by (simp add: gateway_event_def map_get_canonical encode_any_string)

lemma masked_addresses:
  "AnonymizeIP ''192.168.1.15'' = ''192.168.1.0''" "AnonymizeIP ''8.8.8.8'' = ''8.8.8.0''"
  "AnonymizeIP ''103.120.15.40'' = ''103.120.15.0''" "AnonymizeIP ''114.122.0.1'' = ''114.122.0.0''"
  "AnonymizeIP ''126.0.0.1'' = ''126.0.0.0''"
  by code_simp+

lemma chrome_lower: "ToLower chrome =
    ''mozilla/5.0 (macintosh; intel mac os x 10_15_7) applewebkit/537.36 (khtml, like gecko) chrome/120.0.0.0 safari/537.36''"
  by code_simp

lemma chrome_no_bot: "\<not> (\<exists>w \<in> set bot_signatures. Contains (ToLower chrome) w)"
  unfolding chrome_lower bot_signatures_def by simp

lemma mozilla_no_bot: "\<not> (\<exists>w \<in> set bot_signatures. Contains (ToLower ''Mozilla/5.0'') w)"
  by code_simp

lemma bots_signed: "\<forall>b \<in> set bots. snd b \<noteq> [] \<and> (\<exists>w \<in> set bot_signatures. Contains (ToLower (snd b)) w)"
  by code_simp

section \<open>A burst of events from one address\<close>

text \<open>Screening events one after the other, each with its clock.\<close>

fun screen_seq :: "((nat \<Rightarrow> time) \<times> tracking_event) list \<Rightarrow> rule_state \<Rightarrow> screened_event list" where
  "screen_seq [] st = []"
| "screen_seq ((clock, e) # ces) st = (case screen DefaultRules clock e st of (se, st') \<Rightarrow> se # screen_seq ces st')"

definition quiet :: "string \<Rightarrow> string \<Rightarrow> tracking_event \<Rightarrow> bool" where
  "quiet ip home e \<longleftrightarrow> IPAddress e = ip \<and> UserAgent e \<noteq> [] \<and> \<not> bot_hit e \<and>
     (\<forall>c. map_get (Payload e) ''country'' = Some (JStr c) \<longrightarrow> c = home)"

definition at_home :: "string \<Rightarrow> rule_state \<Rightarrow> tracking_event \<Rightarrow> bool" where
  "at_home home st e \<longleftrightarrow> (\<forall>g c. map_get (Payload e) ''country'' = Some (JStr c) \<longrightarrow>
     UserHistory st (UserID e) = Some g \<longrightarrow> LastCountry g = home)"

lemma default_state_IPHistory:
  "slice_at (IPHistory (default_state clock e st)) (IPAddress e) =
     in_window (clock 1) (slice_at (IPHistory st) (IPAddress e)) @ [clock 1]"
  by (simp add: default_state_def rate_evaluate_state slice_at_def in_window_def)

lemma default_state_home:
  assumes "at_home home st e'" "quiet ip home e"
  shows "at_home home (default_state clock e st) e'"
proof (rule geo_cases [where now = "clock 2" and e = e and st = "snd (rate_evaluate (clock 1) e st)"])
qed (use assms in \<open>auto simp: at_home_def default_state_def rate_evaluate_state quiet_def\<close>)

lemma burst_verdicts:
  assumes "\<forall>ce \<in> set ces. quiet ip home (snd ce) \<and> at_home home st (snd ce)"
    and "sorted_wrt (\<lambda>c c'. Sub (fst c' 1) (fst c 1) < 5 * Second) ces"
    and "slice_at (IPHistory st) ip = before" "\<forall>t \<in> set before. \<forall>ce \<in> set ces. Sub (fst ce 1) t < 5 * Second"
  shows "map IsFraudulent (screen_seq ces st) = map (\<lambda>i. 10 \<le> length before + i) [0..<length ces]"
  using assms
proof (induction ces arbitrary: st before)
  case (Cons ce ces)
  obtain c e where ce: "ce = (c, e)" by (cases ce)
  let ?st = "default_state c e st"
  have q: "quiet ip home e" "at_home home st e" using Cons.prems(1) by (auto simp: ce)
  have win: "in_window (c 1) before = before"
    using Cons.prems(4) by (simp add: ce in_window_def)
  have ip: "IPAddress e = ip" using q(1) by (simp add: quiet_def)
  have rate: "rate_hit (c 1) e st \<longleftrightarrow> 10 \<le> length before"
    using win Cons.prems(3) by (simp add: rate_hit_def ip)
  have geo: "\<not> geo_hit (c 2) e st" using q by (auto simp: geo_hit_def quiet_def at_home_def)
  have hist: "slice_at (IPHistory ?st) ip = before @ [c 1]"
    using default_state_IPHistory [of c e st] win Cons.prems(3) by (simp add: ip)
  have IH: "map IsFraudulent (screen_seq ces ?st) = map (\<lambda>i. 10 \<le> length (before @ [c 1]) + i) [0..<length ces]"
  proof (rule Cons.IH [OF _ _ hist])
    show "\<forall>ce \<in> set ces. quiet ip home (snd ce) \<and> at_home home ?st (snd ce)"
      using Cons.prems(1) default_state_home [OF _ q(1)] by simp
  qed (use Cons.prems in \<open>auto simp: ce\<close>)
  have "IsFraudulent (fst (screen DefaultRules c e st)) \<longleftrightarrow> 10 \<le> length before"
    using q(1) rate geo by (simp add: screen_default Let_def findings_def quiet_def)
  moreover have "snd (screen DefaultRules c e st) = ?st" by (simp add: screen_default Let_def)
  ultimately show ?case
    using IH by (simp add: ce split_beta map_upt_Suc del: upt_Suc)
qed simp

lemma screen_seq_zip:
  assumes "length cs = length es"
    and "\<forall>e \<in> set es. quiet ip home e \<and> at_home home st e"
    and "sorted_wrt (\<lambda>c c'. Sub (c' 1) (c 1) < 5 * Second) cs" "slice_at (IPHistory st) ip = []"
  shows "map IsFraudulent (screen_seq (zip cs es) st) = map (\<lambda>i. 10 \<le> i) [0..<length es]"
proof -
  have "sorted_wrt (\<lambda>c c'. Sub (fst c' 1) (fst c 1) < 5 * Second) (zip cs es)"
    using assms(1,3) by (simp add: sorted_wrt_iff_nth_less)
  moreover have "\<forall>ce \<in> set (zip cs es). quiet ip home (snd ce) \<and> at_home home st (snd ce)"
    using assms(2) by (auto dest: set_zip_rightD)
  ultimately show ?thesis using burst_verdicts [of "zip cs es" ip home st "[]"] assms(1,4) by simp
qed

lemma upto_flags: "map (\<lambda>i. 10 \<le> i) [0..<15] = replicate 10 False @ replicate 5 True"
  "map (\<lambda>i. 10 \<le> i) [0..<12] = replicate 10 False @ replicate 2 True"
  by code_simp+

lemma length_traffic: "length (burst_traffic c) = 15" "length (legitimate_traffic c') = 12"
  by (simp_all add: burst_traffic_def legitimate_traffic_def legit_users_def legit_events_def)

lemma burst_quiet:
  assumes "e \<in> set (burst_traffic c)"
  shows "quiet ''103.120.15.0'' home (gateway_event e) \<and> at_home home st (gateway_event e)"
proof -
  obtain i n1 n2 where e: "e = burst_event i n1 n2" "i \<in> {1..<16}"
    using assms by (auto simp: burst_traffic_def split: prod.splits)
  have p: "go_payload (Payload e)" using click_ids [OF e(2)] by (simp add: e(1) burst_event_def go_payload_def)
  have m: "map_get (Payload e) ''country'' = None" by (simp add: e(1) burst_event_def map_get_def)
  show ?thesis
    using mozilla_no_bot gateway_country [OF p] m
    by (simp add: quiet_def at_home_def) (simp add: e(1) burst_event_def masked_addresses bot_hit_def)
qed

lemma legit_quiet:
  assumes "e \<in> set (legitimate_traffic c)"
  shows "quiet ''192.168.1.0'' ''ID'' (gateway_event e)"
proof -
  obtain u ev n1 n2 where e: "e = legit_event u ev n1 n2"
    using assms by (auto simp: legitimate_traffic_def split: prod.splits)
  have p: "go_payload (Payload e)" by (simp add: e legit_event_def go_payload_def)
  have m: "map_get (Payload e) ''country'' = Some (JStr ''ID'')" by (simp add: e legit_event_def map_get_def)
  have "\<not> bot_hit (gateway_event e)"
    using chrome_no_bot by (simp add: bot_hit_def e legit_event_def)
  moreover have "UserAgent (gateway_event e) \<noteq> []" by (simp add: e legit_event_def chrome_def)
  moreover have "IPAddress (gateway_event e) = ''192.168.1.0''" by (simp add: e legit_event_def masked_addresses)
  ultimately show ?thesis using gateway_country [OF p] m by (simp add: quiet_def)
qed

section \<open>Properties\<close>

text \<open>
  The gateway takes every event the simulator sends: posted as JSON each is admitted and published
  as it was sent, but for the masked address and the order of the payload's keys. It needs instants
  whose text is read back and that are not the zero time.
\<close>
theorem simulated_events_admitted:
  assumes "e \<in> set (legitimate_traffic c1) \<union> set (bot_traffic c2) \<union> set (burst_traffic c3) \<union> set (geo_traffic t1 t2) \<union>
      {compliance_event t3}"
    and "time_text_ok show_time (Timestamp e)" "Timestamp e \<noteq> 0"
  shows "admitted now (post_request show_time e) = Some (gateway_event e)"
  using traffic_sendable [of "[e]" show_time c1 c2 c3 t1 t2 t3] assms sendable_admitted by simp

text \<open>
  The attacks the simulator plays are caught. Every bot event is called fraudulent, in any state and
  at any time. Of fifteen clicks from one address, screened within five seconds, exactly the eleventh and
  the later ones are. Of the two visits from different countries the second is, when it is screened less
  than ten seconds after the first.
\<close>
theorem simulated_attacks_caught:
  "(\<forall>e \<in> set (bot_traffic c2). IsFraudulent (fst (screen DefaultRules clock (gateway_event e) st))) \<and>
   (length cs = 15 \<and> sorted_wrt (\<lambda>c c'. Sub (c' 1) (c 1) < 5 * Second) cs \<and> slice_at (IPHistory st) ''103.120.15.0'' = [] \<longrightarrow>
      map IsFraudulent (screen_seq (zip cs (map gateway_event (burst_traffic c3))) st) = replicate 10 False @ replicate 5 True) \<and>
   (UserHistory st ''usr_traveller'' = None \<and> slice_at (IPHistory st) ''114.122.0.0'' = [] \<and>
      Sub (d2 2) (d1 2) < 10 * Second \<longrightarrow>
      map IsFraudulent (screen_seq (zip [d1, d2] (map gateway_event (geo_traffic t1 t2))) st) = [False, True])"
proof (intro conjI impI ballI)
  fix e
  assume "e \<in> set (bot_traffic c2)"
  then obtain i n1 n2 where e: "e = bot_event (bots ! i) n1 n2" "bots ! i \<in> set bots"
    by (auto simp: bot_traffic_def split: prod.splits)
  have "bot_hit (gateway_event e)" using bspec [OF bots_signed e(2)] by (simp add: bot_hit_def e(1) bot_event_def)
  then show "IsFraudulent (fst (screen DefaultRules clock (gateway_event e) st))"
    by (auto simp: screen_default Let_def findings_def bot_hit_def)
next
  assume a: "length cs = 15 \<and> sorted_wrt (\<lambda>c c'. Sub (c' 1) (c 1) < 5 * Second) cs \<and> slice_at (IPHistory st) ''103.120.15.0'' = []"
  have "map IsFraudulent (screen_seq (zip cs (map gateway_event (burst_traffic c3))) st) =
      map (\<lambda>i. 10 \<le> i) [0..<length (map gateway_event (burst_traffic c3))]"
    by (rule screen_seq_zip [where ip = "''103.120.15.0''" and home = "[]"])
      (use a burst_quiet in \<open>auto simp: length_traffic\<close>)
  then show "map IsFraudulent (screen_seq (zip cs (map gateway_event (burst_traffic c3))) st) = replicate 10 False @ replicate 5 True"
    by (simp add: length_traffic upto_flags del: upt_Suc)
next
  assume a: "UserHistory st ''usr_traveller'' = None \<and> slice_at (IPHistory st) ''114.122.0.0'' = [] \<and> Sub (d2 2) (d1 2) < 10 * Second"
  let ?e1 = "gateway_event (geo_event ''evt-geo-1'' ''114.122.0.1'' ''ID'' t1)"
  let ?e2 = "gateway_event (geo_event ''evt-geo-2'' ''126.0.0.1'' ''JP'' t2)"
  have c: "map_get (Payload (gateway_event (geo_event i ip cn t))) ''country'' = Some (JStr cn)" for i ip cn t
    using gateway_country [of "geo_event i ip cn t" cn] by (simp add: geo_event_def go_payload_def map_get_def)
  have nb: "\<not> bot_hit ?e1" using mozilla_no_bot by (simp add: bot_hit_def geo_event_def)
  have geo: "IPAddress (geo_event i ip cn t) = ip" "UserID (geo_event i ip cn t) = ''usr_traveller''"
    "UserAgent (geo_event i ip cn t) = ''Mozilla/5.0''" for i ip cn t
    by (simp_all add: geo_event_def)
  note ip = geo masked_addresses
  have "\<not> IsFraudulent (fst (screen DefaultRules d1 ?e1 st))"
    using a nb c by (simp add: screen_default Let_def findings_def rate_hit_def geo_hit_def ip in_window_def)
  moreover have "UserHistory (default_state d1 ?e1 st) ''usr_traveller'' = Some \<lparr>LastCountry = ''ID'', LastTime = d1 2\<rparr>"
    using a by (simp add: default_state_def geo_evaluate_def c ip rate_evaluate_state Let_def)
  then have "geo_hit (d2 2) ?e2 (default_state d1 ?e1 st)" using a by (simp add: geo_hit_def c ip)
  then have "IsFraudulent (fst (screen DefaultRules d2 ?e2 (default_state d1 ?e1 st)))"
    by (auto simp: screen_default Let_def findings_def bot_hit_def)
  ultimately show "map IsFraudulent (screen_seq (zip [d1, d2] (map gateway_event (geo_traffic t1 t2))) st) = [False, True]"
    by (simp add: geo_traffic_def split_beta) (simp add: screen_default Let_def)
qed

text \<open>
  The simulator's legitimate traffic is partly called fraudulent: its twelve events come from one
  address, so when they are screened within five seconds, in whatever order they arrive, the last two
  exceed the rate limit.
\<close>
theorem legitimate_traffic_flagged:
  assumes "mset es = mset (legitimate_traffic c)" "length cs = 12"
    and "sorted_wrt (\<lambda>c c'. Sub (c' 1) (c 1) < 5 * Second) cs"
  shows "map IsFraudulent (screen_seq (zip cs (map gateway_event es)) NewRuleState) = replicate 10 False @ replicate 2 True"
proof -
  have len: "length es = 12" using assms(1) length_traffic(2) [of c] by (metis size_mset)
  have q: "quiet ''192.168.1.0'' ''ID'' (gateway_event e)" if "e \<in> set es" for e
    using that mset_eq_setD [OF assms(1)] legit_quiet [of e c] by simp
  have "map IsFraudulent (screen_seq (zip cs (map gateway_event es)) NewRuleState) =
      map (\<lambda>i. 10 \<le> i) [0..<length (map gateway_event es)]"
    by (rule screen_seq_zip [where ip = "''192.168.1.0''" and home = "''ID''"])
      (use assms(2,3) q len in \<open>auto simp: at_home_def NewRuleState_def slice_at_def\<close>)
  then show ?thesis by (simp add: len upto_flags del: upt_Suc)
qed

text \<open>
  The simulator's compliance flow ends as it expects: in any reachable state of the program the
  deletion it posts is answered 200, and the export it then requests holds no event and no contact.
\<close>
theorem simulated_erasure:
  assumes "run sys_step (NewMonolith cfg t0) ops (st, w)"
    and "sys_purge sha256 now1 now2 (delete_request compliance_user) w = (rep, w')"
  shows "re_status rep = StatusOK \<and> (\<exists>err. sys_export show_time now (export_request compliance_user) w' =
    json_reply StatusOK (BJson (export_document show_time compliance_user [] (Inl err) now)))"
proof -
  have conf: "world_conf w" using world_conf_run [OF assms(1)] by simp
  have req: "purge_request compliance_user (delete_request compliance_user)"
    by (simp add: purge_request_def delete_request_def decode_body_def decode_user_id_def find_field_def compliance_user_def)
  obtain n w1 where "w_delete_events compliance_user w = (Inr n, w1)" using w_delete_events_Inr by blast
  with assms(2) req have ok: "re_status rep = StatusOK"
    by (auto simp: purge_request_def sys_purge_def HandleGDPRDelete_def Let_def)
  from assms(2) obtain u where u: "purge_request u (delete_request compliance_user)"
    "w' = purged u (audit_log sha256 now1 now2 u) w"
    by (rule sys_purge_cases) (use ok in auto)
  then have "u = compliance_user" using req by (simp add: purge_request_def)
  with u(2) purged_events [OF conf, of compliance_user compliance_user] purged_contacts [OF conf, of compliance_user compliance_user]
  have "w_get_events compliance_user w' = Inr []" "\<exists>err. w_get_contact compliance_user w' = Inl err"
    by (auto simp: w_get_contact_def GetCRMContact_def repo_contact_eq)
  with ok show ?thesis
    by (auto simp: sys_export_def HandleCCPAExport_def export_request_def query_Get_def compliance_user_def)
qed

section \<open>Witnesses\<close>

theorem simulated_events_admitted_witness:
  "admitted 5 (post_request (\<lambda>t. ''1970-01-01T00:00:00Z'') (compliance_event unix_epoch)) =
     Some (gateway_event (compliance_event unix_epoch)) \<and>
   parse_rfc3339 ''1970-01-01T00:00:00Z'' = Some unix_epoch"
proof -
  have t: "parse_rfc3339 ''1970-01-01T00:00:00Z'' = Some unix_epoch" by code_simp
  have "unix_epoch \<noteq> 0" by (simp add: unix_epoch_def Second_def Millisecond_def)
  then have "admitted 5 (post_request (\<lambda>t. ''1970-01-01T00:00:00Z'') (compliance_event unix_epoch)) =
      Some (gateway_event (compliance_event unix_epoch))"
    by (intro simulated_events_admitted [where ?c1.0 = "\<lambda>_ _. (0, 0)" and ?c2.0 = "\<lambda>_. (0, 0)" and ?c3.0 = "\<lambda>_. (0, 0)" and
          ?t1.0 = 0 and ?t2.0 = 0 and ?t3.0 = unix_epoch])
      (simp_all add: compliance_event_def time_text_ok_def t)
  with t show ?thesis by simp
qed

lemma no_time_passes: "sorted_wrt (\<lambda>c c'. Sub (c' 1) (c 1) < 5 * Second) (replicate n (\<lambda>_ :: nat. 0 :: time))"
  by (simp add: sorted_wrt_iff_nth_less Sub_def int64_min_def int64_max_def Second_def Millisecond_def)

theorem simulated_attacks_caught_witness:
  "map IsFraudulent (screen_seq (zip (replicate 15 (\<lambda>_. 0)) (map gateway_event (burst_traffic (\<lambda>_. (1, 1))))) NewRuleState) =
     replicate 10 False @ replicate 5 True \<and>
   map IsFraudulent (screen_seq (zip [\<lambda>_. 0, \<lambda>_. 9] (map gateway_event (geo_traffic 1 2))) NewRuleState) = [False, True]"
proof
  show "map IsFraudulent (screen_seq (zip (replicate 15 (\<lambda>_. 0)) (map gateway_event (burst_traffic (\<lambda>_. (1, 1))))) NewRuleState) =
     replicate 10 False @ replicate 5 True"
    by (rule mp [OF conjunct1 [OF conjunct2 [OF simulated_attacks_caught]]])
      (use no_time_passes [of 15] in \<open>simp add: NewRuleState_def slice_at_def\<close>)
  show "map IsFraudulent (screen_seq (zip [\<lambda>_. 0, \<lambda>_. 9] (map gateway_event (geo_traffic 1 2))) NewRuleState) = [False, True]"
    by (rule mp [OF conjunct2 [OF conjunct2 [OF simulated_attacks_caught]]])
      (simp add: NewRuleState_def slice_at_def Sub_def int64_min_def int64_max_def Second_def Millisecond_def)
qed

theorem legitimate_traffic_flagged_witness:
  "map IsFraudulent (screen_seq (zip (replicate 12 (\<lambda>_. 0)) (map gateway_event (legitimate_traffic (\<lambda>_ _. (1, 1))))) NewRuleState) =
     replicate 10 False @ replicate 2 True"
  by (rule legitimate_traffic_flagged [OF refl]) (use no_time_passes [of 12] in simp_all)

theorem simulated_erasure_witness:
  "\<exists>rep w'. sys_purge id 7 8 (delete_request compliance_user) (snd (NewMonolith (LoadConfig (\<lambda>_. None)) 0)) = (rep, w') \<and>
     re_status rep = StatusOK"
proof -
  obtain st w where m: "NewMonolith (LoadConfig (\<lambda>_. None)) 0 = (st, w)" by (cases "NewMonolith (LoadConfig (\<lambda>_. None)) 0")
  obtain rep w' where p: "sys_purge id 7 8 (delete_request compliance_user) w = (rep, w')"
    by (cases "sys_purge id 7 8 (delete_request compliance_user) w")
  have "run sys_step (NewMonolith (LoadConfig (\<lambda>_. None)) 0) [] (st, w)" by (simp add: m)
  from simulated_erasure [OF this p] p show ?thesis by (simp add: m)
qed

end
