(* ===== verification/Spec2Isabelle.thy ===== *)
theory Spec2Isabelle
  imports Schedules Schema MockDb Archive Simulator
begin

text \<open>
  \<^bold>\<open>Sentinel-Flow\<close>, an event-driven marketing and fraud engine in Go: a model of the code under
  \<^verbatim>\<open>src/\<close> and what it is proved to do.

  \<^bold>\<open>The program.\<close> A client posts a tracking event to the ingest gateway. The gateway checks it, asks for
  consent where that is needed, masks the client's address and publishes the event on the broker. The
  fraud worker takes it from its channel, scores it with three rules, stores it, counts it and publishes
  the screened event. The marketing worker takes the screened events that are clean, turns some event
  types into a CRM contact and sends it to the CRM through an HTTP client with retries and a circuit
  breaker. Two handlers serve privacy requests (GDPR purge, CCPA export), two show the counters.

  \<^bold>\<open>Vocabulary.\<close>
  \<^item> \<^theory_text>\<open>Prelude\<close>: errors, panics as values (\<open>outcome\<close>), \<^verbatim>\<open>int64\<close> with its wrap-around, instants in
    nanoseconds, contexts, runs of a step relation with their invariants and histories.
  \<^item> \<^theory_text>\<open>GoFloat\<close>: \<^verbatim>\<open>float64\<close> as rationals with rounding to nearest even, its formatting and comparison.
  \<^item> \<^theory_text>\<open>GoNet\<close>: \<^verbatim>\<open>net.ParseIP\<close> and \<^verbatim>\<open>IP.String\<close>; \<^theory_text>\<open>GoHttp\<close>: requests and replies.

  \<^bold>\<open>Components\<close>, each theory after the source file it models (under \<^verbatim>\<open>src/pkg\<close> unless said otherwise).
  \<^item> \<^theory_text>\<open>Events\<close>, \<^theory_text>\<open>EventsJson\<close>: \<^verbatim>\<open>broker/events.go\<close> with \<^verbatim>\<open>encoding/json\<close> both ways; an event survives
    its JSON form.
  \<^item> \<^theory_text>\<open>Broker\<close>: \<^verbatim>\<open>broker/broker.go\<close>. Channels are queues with a capacity. The locale \<open>topic\<close> states what a
    topic promises; both topics of the broker are interpretations. Shown: order, no duplication, the
    bound, what is lost and when, no panic, refusal after \<^verbatim>\<open>Close\<close>.
  \<^item> \<^theory_text>\<open>RedisBroker\<close>: \<^verbatim>\<open>broker/redis.go\<close>, with the forwarding goroutine as a step of its own.
  \<^item> \<^theory_text>\<open>Consent\<close>, \<^theory_text>\<open>IngestHandler\<close>: \<^verbatim>\<open>domain/ingest\<close>. Shown: what masking reveals, when the gateway answers
    202, that only conforming events are published.
  \<^item> \<^theory_text>\<open>Rules\<close>, \<^theory_text>\<open>FraudRepo\<close>, \<^theory_text>\<open>FraudService\<close>: \<^verbatim>\<open>domain/fraud\<close>. The pruned window of the rate limit equals
    counting the whole history; the verdict of a screening in closed form through all the rounding.
  \<^item> \<^theory_text>\<open>Worker\<close>, \<^theory_text>\<open>SystemWorkers\<close>: the consumer loops of \<^verbatim>\<open>fraud/service.go\<close> and \<^verbatim>\<open>marketing/service.go\<close>.
    The locale \<open>consumer\<close> is their shared contract: after a close everything waiting is handled.
  \<^item> \<^theory_text>\<open>CircuitBreaker\<close>, \<^theory_text>\<open>ResilientClient\<close>: \<^verbatim>\<open>resilience\<close>. The breaker refines an abstract specification;
    calls are bounded; a retried body is empty.
  \<^item> \<^theory_text>\<open>Tracker\<close>, \<^theory_text>\<open>AnalyticsService\<close>: \<^verbatim>\<open>domain/analytics\<close>.
  \<^item> \<^theory_text>\<open>MarketingRepo\<close>, \<^theory_text>\<open>HttpCrm\<close>, \<^theory_text>\<open>MarketingService\<close>, \<^theory_text>\<open>Privacy\<close>: \<^verbatim>\<open>domain/marketing\<close>.
  \<^item> \<^theory_text>\<open>SqlDb\<close>, \<^theory_text>\<open>PostgresRepos\<close>, \<^theory_text>\<open>PostgresContract\<close>: the three \<^verbatim>\<open>postgres.go\<close>. The first has the
    statements, the values and \<^verbatim>\<open>Scan\<close>; the second the operations over any database; the third what is
    relied on of the server (\<open>pg_contract\<close>), a database that keeps it, and the theorems.
  \<^item> \<^theory_text>\<open>PostgresServices\<close>: the privacy handler over Postgres, and what the counters mean when statements fail.
  \<^item> \<^theory_text>\<open>Schema\<close>: \<^verbatim>\<open>db/migrations/0001_init.sql\<close>; which rows fit the columns, and what becomes of an event that does not.
  \<^item> \<^theory_text>\<open>MockDb\<close>: \<^verbatim>\<open>mockdb/mockdb.go\<close> as a database of \<^theory_text>\<open>SqlDb\<close>; which injected fault makes which operation fail.
  \<^item> \<^theory_text>\<open>PostgresMonolith\<close>: \<^verbatim>\<open>cmd/monolith/main.go\<close> with a database, its steps (\<open>pg_step\<close>) over any database, and their
    simulation by the steps of the memory configuration and back.
  \<^item> \<^theory_text>\<open>SystemValues\<close>: the types of the values in every reachable state, and the breaker of the CRM client as an
    instance of its contract. The locale \<open>event_invariant\<close> of \<^theory_text>\<open>Monolith\<close> says what is enough for every event of
    the program to have a property; it is interpreted for conforming events, for the types and for both.
  \<^item> \<^theory_text>\<open>Deployments\<close>: the start-up of \<^verbatim>\<open>cmd/monolith/helpers.go\<close> with its exits, \<^verbatim>\<open>cmd/orchestrator\<close>, and the
    standalone services of \<^verbatim>\<open>cmd/\<close>, which share no broker and therefore no event.
  \<^item> \<^theory_text>\<open>Servers\<close>: the routes, ports and servers of \<^verbatim>\<open>cmd/\<close>; a request over HTTP is a step of the program.
  \<^item> \<^theory_text>\<open>RedisMonolith\<close>: \<^verbatim>\<open>cmd/monolith/main.go\<close> over Redis, its steps (\<open>redis_sys_step\<close>) with the arrival of messages and
    the forwarding goroutines; which events can be anywhere, and that nothing panics.
  \<^item> \<^theory_text>\<open>Shutdown\<close>: the process around the program, from the launch of its goroutines through the signal to the return of
    \<^verbatim>\<open>main\<close> (\<open>main_step\<close>), for the monolith and the orchestrator, and the time \<^verbatim>\<open>Shutdown\<close> takes under the shared deadline.
  \<^item> \<^theory_text>\<open>Archive\<close>: an abstract archive of what the program keeps per user; the program over memory, over Redis and
    as a process refine it. The locale \<open>refines\<close> of \<^theory_text>\<open>Prelude\<close> is the notion of refinement, interpreted for all three.
  \<^item> \<^theory_text>\<open>Simulator\<close>: \<^verbatim>\<open>scripts/simulator\<close>: its events, how the gateway admits them and what the rules say of them.
  \<^item> \<^theory_text>\<open>Goroutines\<close>: a goroutine as a tree of atoms, a pool of goroutines scheduled in any order, and the locale
    \<open>accounted\<close>: what every schedule keeps when each goroutine does. \<^theory_text>\<open>Threads\<close>: every handler and every turn of a
    worker of the memory configuration, cut where it lets go of a lock, a channel or a counter; run alone each
    is the step of \<open>sys_step\<close> it models. The locale \<open>ledger\<close> proves the contract for all of them, for the invariant
    of the events and for any of the counters. \<^theory_text>\<open>Schedules\<close>: what that says of every interleaving, and a reading of
    the dashboard that only an interleaving shows.
  \<^item> \<^theory_text>\<open>SampleRuns\<close>: a short run of the program, on which its properties are tried.
  \<^item> \<^theory_text>\<open>Config\<close>: \<^verbatim>\<open>config/config.go\<close>; \<^theory_text>\<open>Monolith\<close>: \<^verbatim>\<open>cmd/monolith/main.go\<close> in its memory configuration, its
    wiring and its steps (\<open>sys_step\<close>).

  \<^bold>\<open>This theory\<close> has the properties of the whole program: what can ever be stored or wait in a channel,
  where contacts come from, what the counters mean, what a purge erases and what it misses, that the
  workers drain their channels, that nothing panics, and that going through Redis changes no decision.

  \<^bold>\<open>How the code is read.\<close> A handler or a worker's step is a function of the state of the components it
  calls, and takes the operations of its ports as arguments, as the Go code takes interfaces. The
  locales (\<open>fraud_store\<close>, \<open>marketing_store\<close>, \<open>telemetry\<close>, \<open>workflow_ports\<close>, \<open>topic\<close>, \<open>consumer\<close>,
  \<open>scoring_rule\<close>, \<open>refines\<close>) state those interfaces and are interpreted on the components' own definitions. Errors are sums
  or options, panics the constructor \<open>Panic\<close>. Every operation holds a mutex while it works, so a step of
  the program is a whole operation; a step of \<open>sys_step\<close> is a whole handler. The goroutines of \<^theory_text>\<open>Threads\<close> are
  finer: there, handlers and workers interleave between any two locked operations. What is shown of \<open>sys_step\<close>
  holds of schedules without overlap; what is shown in \<^theory_text>\<open>Schedules\<close> holds of all.

  \<^bold>\<open>Bounds and fuel.\<close> The loops over lists are structural. \<open>do_loop\<close> is bounded by the retries, which it
  counts down; \<open>ping_loop\<close> by the ten pings. A worker's loop \<open>consume\<close> runs over a finite list of clock
  readings, one per event; it returns once the channel is closed and the list is longer than the
  channel, which \<open>fraud_worker_drains\<close> and \<open>marketing_worker_drains\<close> state as such. A client with
  \<^verbatim>\<open>maxRetries\<close> below zero makes no request, which the model has as the code does.

  \<^bold>\<open>Arguments and hypotheses.\<close> What is outside \<^verbatim>\<open>src/\<close> is an argument: the clock (a reading per call, not
  assumed to grow unless a theorem says so), the choice of a \<^verbatim>\<open>select\<close> with several ready cases, the jitter,
  the network's answer per attempt, SHA-256, the text of an instant, the server behind Redis and behind
  \<^verbatim>\<open>database/sql\<close>. A theorem that needs something of these says so: \<open>pg_contract\<close> and \<open>keep_ok\<close> for Postgres
  (statements have the effect the SQL says or fail, a transaction is atomic, JSONB keeps the document), an
  order-keeping channel for Redis, instants whose text is read back (\<open>time_law\<close>). Each has a witness with a concrete instance.

  \<^bold>\<open>Not modelled.\<close>
  \<^item> The text of log lines: output without a state the rest depends on.
  \<^item> The scheduler below locked and atomic operations, and memory: the mutexes make the operations atomic. Interleavings
    are modelled for the memory configuration only, and there the call of the CRM is one atom, as only one worker makes it.
  \<^item> Bytes of HTTP and JSON: a body is the document it holds or no document. The case-insensitive match
    of keys and the merging of repeated keys are modelled; the syntax of JSON is not.
  \<^item> Infinities and NaN of \<^verbatim>\<open>float64\<close>: no operation modelled here produces one.
  \<^item> Time zones: an instant is a number of nanoseconds, its text an argument.
  \<^item> That \<^verbatim>\<open>main\<close> may return while a worker is in the middle of an event: in \<^theory_text>\<open>Shutdown\<close> a turn of a worker is a step.
    The shutdown of the configurations with a database or Redis, and both of these at once.
  \<^item> The redirect of \<^verbatim>\<open>http.ServeMux\<close> from an unclean path to its clean form: a path is taken to be clean.
  \<^item> What the simulator prints, and the switches of the tests that only log (\<^verbatim>\<open>BE_CRASHER_CB\<close>).
\<close>

section \<open>What is stored and what waits\<close>

text \<open>
  C1: No event without consent, identity or a masked address is anywhere in the program: in
  every state the program reaches, each event that waits in a channel of either topic, and each
  event the repository hands out, is a conforming one, and the repository hands out an event
  only to the user it belongs to.
\<close>
theorem only_conforming_events:
  assumes "run sys_step (NewMonolith cfg now) ops (st, w)"
  shows "(\<forall>i. \<forall>e \<in> set (buffered (rawSubs (wd_broker w)) i). conforming e) \<and>
    (\<forall>i. \<forall>se \<in> set (buffered (screenedSubs (wd_broker w)) i). conforming (Tracking se)) \<and>
    (\<forall>u ses se. w_get_events u w = Inr ses \<and> se \<in> set ses \<longrightarrow> conforming (Tracking se) \<and> UserID (Tracking se) = u)"
proof -
  have "world_conf w" using world_conf_run [OF assms] by simp
  from world_holds_events [OF this] show ?thesis by blast
qed

theorem only_conforming_events_witness:
  "buffered (rawSubs (wd_broker posted)) 0 = [sample_event] \<and> conforming sample_event"
  using only_conforming_events [OF sample_run] sample_queue(1) by (metis list.set_intros(1))

text \<open>
  The program does not panic: in every state it reaches, each handler and each worker's
  step ends normally, for any request, any event, any answer of the network and any behaviour of
  the channels, and the broker can be closed.
\<close>
theorem system_never_panics:
  assumes "run sys_step (NewMonolith cfg now) ops (st, w)"
  shows "no_panic (sys_ingest env t r w) \<and> no_panic (sys_screen env clock e (st, w)) \<and>
    no_panic (sys_workflow ce t aenv t' se w) \<and> no_panic (Close (wd_broker w))"
proof -
  have ok: "world_ok w" using world_ok_run [OF assms] by simp
  then have wf: "broker_wf (wd_broker w)" and m: "rc_maxRetries (ha_crmClient (wd_adapter w)) = 2"
    by (simp_all add: world_ok_def world_conf_def broker_conf_def)
  from sys_ingest_no_panic [OF wf] sys_screen_no_panic [OF wf, of env clock e st]
    sys_workflow_no_panic [OF m, of ce t aenv t' se] Close_spec [OF wf]
  show ?thesis by auto
qed

theorem system_never_panics_witness:
  "\<forall>env t r. no_panic (sys_ingest env t r posted)"
  using system_never_panics [OF sample_run] by blast

section \<open>The counters\<close>

text \<open>
  The counters tell the history of the program: in every reachable state, as int64 values,
  the events received are the 202 answers and the consent refusals of the gateway, legitimate and
  fraudulent events together are the events the fraud worker has handled, the CRM attempts are
  the clean events with a workflow that marketing has handled, and every attempt is counted as
  one success or one failure.
\<close>
theorem counters_tell_history:
  assumes "run sys_step (NewMonolith cfg now) ops (st, w)"
  shows "w_counter ''total_received'' w = wrap64 (sum_ops received_by ops) \<and>
    wrap64 (w_counter ''legitimate'' w + w_counter ''fraudulent'' w) = wrap64 (sum_ops screened_by ops) \<and>
    w_counter ''crm_attempts'' w = wrap64 (sum_ops attempts_by ops) \<and>
    wrap64 (w_counter ''crm_successes'' w + w_counter ''crm_failures'' w) = wrap64 (sum_ops attempts_by ops)"
  using counters_run [OF assms counters_New(2)] by (simp add: counters_New(1))

theorem counters_tell_history_witness:
  "w_counter ''total_received'' posted = 1 \<and> w_counter ''crm_attempts'' posted = 0"
proof -
  have "sum_ops received_by sample_ops = 1" "sum_ops attempts_by sample_ops = 0"
    by (simp_all add: sample_ops_def sum_ops_simps accepted_reply_def counted_reply_def)
  then show ?thesis
    using counters_tell_history [OF sample_run] by (simp add: wrap64_def)
qed

section \<open>The purge\<close>

text \<open>
  C11: A purge that answers 200 erases the user: no event and no contact of the user is left,
  every other user's events and contact are as before, and the only trace is one audit entry
  under the salted hash of the identifier.
\<close>
theorem purge_erases_user:
  assumes "run sys_step (NewMonolith cfg now) ops (st, w)"
    and "sys_purge sha256 now1 now2 r w = (rep, w')" "re_status rep = StatusOK"
  shows "\<exists>u l. purge_request u r \<and> w_get_events u w' = Inr [] \<and> repo_contact u (wd_mktRepo w') = None \<and>
    (\<forall>u'. u' \<noteq> u \<longrightarrow> w_get_events u' w' = w_get_events u' w \<and>
       repo_contact u' (wd_mktRepo w') = repo_contact u' (wd_mktRepo w)) \<and>
    pl_UserID l = hashIdentifier sha256 u service_salt \<and> pl_Action l = ''GDPR_PURGE'' \<and>
    (\<forall>v. repo_logs v (wd_mktRepo w') = repo_logs v (wd_mktRepo w) @ (if v = pl_UserID l then [l] else []))"
proof -
  have conf: "world_conf w" using world_conf_run [OF assms(1)] by simp
  obtain u where u: "purge_request u r" and w': "w' = purged u (audit_log sha256 now1 now2 u) w"
    using assms(2,3) by (auto elim: sys_purge_cases)
  let ?l = "audit_log sha256 now1 now2 u"
  have "pl_UserID ?l = hashIdentifier sha256 u service_salt" "pl_Action ?l = ''GDPR_PURGE''"
    by (simp_all add: audit_log_def)
  with u show ?thesis
    using purged_events [OF conf, of _ u ?l] purged_contacts [OF conf, of _ u ?l]
    by (intro exI [of _ u] exI [of _ ?l]) (simp add: w' del: repo_contact_eq repo_logs_eq)
qed

definition sample_purge :: api_request where
  "sample_purge = \<lparr>ar_method = ''POST'', ar_query = [], ar_body = Some (JObj [(''user_id'', JStr ''u1'')])\<rparr>"

lemma sample_purge_request: "purge_request u sample_purge \<longleftrightarrow> u = ''u1''"
  by (auto simp: purge_request_def sample_purge_def decode_body_def decode_user_id_def find_field_def)

lemma sample_purge_ok: "\<exists>rep w'. sys_purge sha256 7 8 sample_purge posted = (rep, w') \<and> re_status rep = StatusOK"
proof -
  obtain n w1 where "w_delete_events ''u1'' posted = (Inr n, w1)" using w_delete_events_Inr by blast
  then show ?thesis
    by (simp add: sys_purge_def HandleGDPRDelete_def sample_purge_def decode_body_def decode_user_id_def find_field_def Let_def)
qed

theorem purge_erases_user_witness:
  "\<exists>rep w'. sys_purge id 7 8 sample_purge posted = (rep, w') \<and> re_status rep = StatusOK \<and> w_get_events ''u1'' w' = Inr []"
proof -
  obtain rep w' where p: "sys_purge id 7 8 sample_purge posted = (rep, w')" "re_status rep = StatusOK"
    using sample_purge_ok by blast
  from purge_erases_user [OF sample_run p] p show ?thesis by (auto simp: sample_purge_request)
qed

text \<open>
  C12: The purge does not reach the events that are still in flight: if an event of the user waits
  for the fraud worker while a purge of the user answers 200, the worker takes that event next,
  screens it and stores it, and the repository hands out an event of the purged user again.
\<close>
theorem purge_misses_events_in_flight:
  assumes "run sys_step (NewMonolith cfg now) ops (st, w)"
    and "ch < length (rawSubs (wd_broker w))" "buffered (rawSubs (wd_broker w)) ch = e # q"
    and "purge_request (UserID e) r" "sys_purge sha256 now1 now2 r w = (rep, w1)" "re_status rep = StatusOK"
  shows "stored (UserID e) (st, w1) = [] \<and>
    (\<exists>s'. sys_step (st, w1) (SysScreen ch e) s' \<and> stored (UserID e) s' = [e])"
proof -
  have conf: "world_conf w" using world_conf_run [OF assms(1)] by simp
  obtain u where "purge_request u r" "w1 = purged u (audit_log sha256 now1 now2 u) w"
    using assms(5,6) by (auto elim: sys_purge_cases)
  then have w1: "w1 = purged (UserID e) (audit_log sha256 now1 now2 (UserID e)) w"
    using assms(4) by (auto simp: purge_request_def)
  then have b: "wd_broker w1 = wd_broker w" by (simp add: purged_world [OF conf])
  have conf1: "world_conf w1" using world_conf_purged [OF conf] w1 by simp
  have none: "stored (UserID e) (st', w1) = []" for st'
    using purged_events [OF conf, of "UserID e" "UserID e"] w1
    by (simp add: stored_def repo_events_def store_of_def w_get_events_def)
  obtain w2 where r: "w_recv_raw ch w1 = (Received e, w2)"
    using w_recv_front [of ch w1 e q] assms(2,3) b by auto
  have "world_conf w2" using world_conf_recv_raw [OF _ r conf1] assms(2) b by simp
  then have "broker_wf (wd_broker w2)" by (simp add: world_conf_def broker_conf_def)
  then obtain s' where s': "sys_screen live_env (\<lambda>i. 0) e (st, w2) = Ret s'"
    using sys_screen_no_panic by blast
  have "store_of w2 = store_of w1" using r by (auto simp: w_recv_raw_def store_of_def split: prod.splits)
  then have "stored (UserID e) (st, w2) = []" using none by (simp add: stored_def)
  with stored_screened(1) [OF s', of "UserID e"] have "stored (UserID e) s' = [e]" by simp
  moreover have "sys_step (st, w1) (SysScreen ch e) s'"
    using sys_screen_step [OF _ r, of live_env "\<lambda>i. 0" st] s' assms(2) b by (cases s') simp
  ultimately show ?thesis using none by blast
qed

theorem purge_misses_events_in_flight_witness:
  "\<exists>rep w1 s'. sys_purge id 7 8 sample_purge posted = (rep, w1) \<and> re_status rep = StatusOK \<and>
     stored ''u1'' (NewRuleState, w1) = [] \<and>
     sys_step (NewRuleState, w1) (SysScreen 0 sample_event) s' \<and> stored ''u1'' s' = [sample_event]"
proof -
  obtain rep w1 where p: "sys_purge id 7 8 sample_purge posted = (rep, w1)" "re_status rep = StatusOK"
    using sample_purge_ok by blast
  have u: "UserID sample_event = ''u1''" by (simp add: sample_event_def)
  have "purge_request (UserID sample_event) sample_purge" by (simp add: sample_purge_request u)
  from purge_misses_events_in_flight [OF sample_run _ sample_queue(1) this p] p show ?thesis
    by (auto simp: sample_queue(2) u)
qed

section \<open>The workers\<close>

text \<open>
  C17: Shutting the broker down loses no accepted event: when the broker has been closed and the
  context of the fraud worker is alive, the worker screens and stores every event that still waits
  in its channel, in order, and then returns nil; its loop ends after one turn more than
  there are events.
\<close>
theorem fraud_worker_drains:
  assumes "run sys_step (NewMonolith cfg now) ops (st, w)" "br_closed (wd_broker w)" "ch < length (rawSubs (wd_broker w))"
    and "length (buffered (rawSubs (wd_broker w)) ch) < length turns" "\<forall>t \<in> set turns. tn_done t = None"
  shows "\<exists>s'. consume (fraud_recv ch) (fraud_handle env) turns (st, w) = Returned None s' \<and>
    buffered (rawSubs (wd_broker (snd s'))) ch = [] \<and>
    (\<forall>u. stored u s' = stored u (st, w) @ filter (\<lambda>e. UserID e = u) (buffered (rawSubs (wd_broker w)) ch))"
proof -
  let ?base = "\<lambda>u. stored u (st, w)"
  have "screened_so_far ch ?base [] (st, w)"
    using world_conf_run [OF assms(1)] assms(3) by (simp add: screened_so_far_def world_conf_def broker_conf_def)
  from fraud_worker.drains [OF this, of turns env] assms(2,4,5) show ?thesis
    by (auto simp: broker_down_def fraud_queue_def screened_so_far_def)
qed

theorem fraud_worker_drains_witness:
  "\<exists>w s'. run sys_step (NewMonolith cfg0 0) (sample_ops @ [SysClose]) (NewRuleState, w) \<and>
     consume (fraud_recv 0) (fraud_handle live_env) [live_turn, live_turn] (NewRuleState, w) = Returned None s' \<and>
     stored ''u1'' s' = [sample_event]"
proof -
  obtain w where w: "run sys_step (NewMonolith cfg0 0) (sample_ops @ [SysClose]) (NewRuleState, w)" "br_closed (wd_broker w)"
    "length (rawSubs (wd_broker w)) = 1" "buffered (rawSubs (wd_broker w)) 0 = [sample_event]" "stored ''u1'' (NewRuleState, w) = []"
    using sample_closed by blast
  have u: "UserID sample_event = ''u1''" by (simp add: sample_event_def)
  obtain s' where "consume (fraud_recv 0) (fraud_handle live_env) [live_turn, live_turn] (NewRuleState, w) = Returned None s'"
      "\<forall>u. stored u s' = stored u (NewRuleState, w) @ filter (\<lambda>e. UserID e = u) (buffered (rawSubs (wd_broker w)) 0)"
    using fraud_worker_drains [OF w(1,2), of 0 "[live_turn, live_turn]" live_env] w(3,4) by (auto simp: live_turn_def)
  moreover from this(2) have "stored ''u1'' s' = [sample_event]" using w(4,5) u by simp
  ultimately show ?thesis using w(1) by blast
qed

text \<open>
  C20: The end of the program stops the workers and loses what waits: under a cancelled context, as
  \<^verbatim>\<open>main\<close> makes it on a signal before it closes the broker, the fraud worker returns after at most one turn more
  than events wait, with the first \<open>k\<close> of them stored and the others still in the channel nobody reads any
  more; the \<^verbatim>\<open>select\<close> may choose any \<open>k\<close>, also none at all. The marketing worker returns in the same way, with
  the contacts of the first \<open>k\<close> screened events made.
\<close>
theorem cancelled_workers_stop:
  assumes "run sys_step (NewMonolith cfg now) ops (st, w)"
    and "ch < length (rawSubs (wd_broker w))" "mch < length (screenedSubs (wd_broker w))"
  shows "(\<forall>turns. length (fraud_queue ch (st, w)) < length turns \<and> (\<forall>t \<in> set turns. tn_done t = Some err) \<longrightarrow>
      (\<exists>k r s'. consume (fraud_recv ch) (fraud_handle env) turns (st, w) = Returned r s' \<and> stopped_after ch (st, w) k s')) \<and>
    (\<forall>k \<le> length (fraud_queue ch (st, w)). \<exists>turns s'. (\<forall>t \<in> set turns. tn_done t = Some err) \<and>
      consume (fraud_recv ch) (fraud_handle env) turns (st, w) = Returned (Some err) s' \<and> stopped_after ch (st, w) k s') \<and>
    (\<forall>turns. length (marketing_queue mch w) < length turns \<and> (\<forall>t \<in> set turns. tn_done t = Some err) \<longrightarrow>
      (\<exists>k r w'. consume (marketing_recv mch) (marketing_handle ce aenv) turns w = Returned r w' \<and>
         marketing_queue mch w' = drop k (marketing_queue mch w) \<and>
         contacts_after (\<lambda>u. repo_contact u (wd_mktRepo w)) (take k (marketing_queue mch w)) w'))"
proof (intro conjI allI impI)
  let ?base = "\<lambda>u. stored u (st, w)" and ?mbase = "\<lambda>u. repo_contact u (wd_mktRepo w)"
  have ok: "world_ok w" using world_ok_run [OF assms(1)] by simp
  have f: "screened_so_far ch ?base [] (st, w)"
    using ok assms(2) by (simp add: screened_so_far_def world_ok_def world_conf_def broker_conf_def)
  have m: "marketed_so_far mch ?mbase [] w"
    using ok assms(3) by (simp add: marketed_so_far_def world_ok_def world_conf_def broker_conf_def contacts_after_def triggers_def)
  show "\<exists>k r s'. consume (fraud_recv ch) (fraud_handle env) turns (st, w) = Returned r s' \<and> stopped_after ch (st, w) k s'"
    if "length (fraud_queue ch (st, w)) < length turns \<and> (\<forall>t \<in> set turns. tn_done t = Some err)" for turns
    using fraud_worker.stops [OF f, of turns err env] that
    by (auto simp: stopped_after_def screened_so_far_def)
  show "\<exists>turns s'. (\<forall>t \<in> set turns. tn_done t = Some err) \<and>
      consume (fraud_recv ch) (fraud_handle env) turns (st, w) = Returned (Some err) s' \<and> stopped_after ch (st, w) k s'"
    if k: "k \<le> length (fraud_queue ch (st, w))" for k
  proof -
    let ?t = "\<lparr>tn_done = Some err, tn_pick_done = True, tn_clock = \<lambda>i. 0\<rparr>"
    have "\<forall>t \<in> set (cancelled_after k ?t). tn_done t = Some err" by (auto simp: cancelled_after_def)
    moreover obtain s' where "consume (fraud_recv ch) (fraud_handle env) (cancelled_after k ?t) (st, w) = Returned (Some err) s'"
        "screened_so_far ch ?base ([] @ take k (fraud_queue ch (st, w))) s'" "fraud_queue ch s' = drop k (fraud_queue ch (st, w))"
      using fraud_worker.stops_after [OF f k, of ?t err env "[]"] by auto
    ultimately show ?thesis using k
      by (intro exI [of _ "cancelled_after k ?t"] exI [of _ s']) (simp add: stopped_after_def screened_so_far_def)
  qed
  show "\<exists>k r w'. consume (marketing_recv mch) (marketing_handle ce aenv) turns w = Returned r w' \<and>
      marketing_queue mch w' = drop k (marketing_queue mch w) \<and> contacts_after ?mbase (take k (marketing_queue mch w)) w'"
    if "length (marketing_queue mch w) < length turns \<and> (\<forall>t \<in> set turns. tn_done t = Some err)" for turns
    using marketing_worker.stops [OF m, of turns err ce aenv] that
    by (auto simp: marketed_so_far_def simp del: repo_contact_eq)
qed

text \<open>The sample is accepted with 202 and then the program is told to stop: nothing is stored.\<close>

theorem cancelled_workers_stop_witness:
  "\<exists>st w turns s'. run sys_step (NewMonolith cfg0 0) (sample_ops @ [SysMarketingSubscribe (Inr 0)]) (st, w) \<and>
     fraud_queue 0 (st, w) = [sample_event] \<and>
     consume (fraud_recv 0) (fraud_handle live_env) turns (st, w) = Returned (Some Canceled) s' \<and>
     fraud_queue 0 s' = [sample_event] \<and> stored ''u1'' s' = []"
proof -
  have q: "fraud_queue 0 (NewRuleState, subscribed) = [sample_event]" using sample_queue(1) by (simp add: fraud_queue_def)
  have "stored ''u1'' (NewRuleState, subscribed) = []"
    by (simp add: stored_def store_of_def repo_events_def GetEventsByUserID_def posted_def w_increment_def booted_def
        w_subscribe_raw_def NewMonolith_def NewMemoryFraudRepository_def split_beta)
  moreover have ch: "0 < length (rawSubs (wd_broker subscribed))" "0 < length (screenedSubs (wd_broker subscribed))"
    using sample_queue(2) by simp_all
  obtain turns s' where "consume (fraud_recv 0) (fraud_handle live_env) turns (NewRuleState, subscribed) = Returned (Some Canceled) s'"
      "stopped_after 0 (NewRuleState, subscribed) 0 s'"
    using cancelled_workers_stop [OF sample_subscribed ch, of Canceled live_env] by blast
  ultimately have "consume (fraud_recv 0) (fraud_handle live_env) turns (NewRuleState, subscribed) = Returned (Some Canceled) s'"
      "fraud_queue 0 s' = [sample_event]" "stored ''u1'' s' = []"
    using q by (simp_all add: stopped_after_def)
  with sample_subscribed q show ?thesis by blast
qed

section \<open>Contacts\<close>

text \<open>Where a contact comes from.\<close>

definition made_by :: "system_op \<Rightarrow> string \<Rightarrow> crm_contact \<Rightarrow> bool" where
  "made_by op u c \<longleftrightarrow> (\<exists>ch se. op = SysWorkflow ch se \<and> \<not> IsFraudulent se \<and> conforming (Tracking se) \<and>
     UserID (Tracking se) = u \<and> contact_from (Some c) se)"

lemma contact_step:
  assumes "sys_step s op s'" "world_conf (snd s)" "repo_contact u (wd_mktRepo (snd s')) = Some c"
  shows "repo_contact u (wd_mktRepo (snd s)) = Some c \<or> made_by op u c"
  using assms
proof (induction rule: sys_step.induct)
  case (sys_ingest_step env now r w rep w' st)
  from sys_ingest_step(1) show ?case by (rule sys_ingest_cases) (use sys_ingest_step in auto)
next
  case (sys_screen_step ch w e w1 env clock st st' w')
  from sys_screen_step(3) show ?case
    by (rule sys_screen_cases) (use sys_screen_step in \<open>auto simp: w_recv_raw_def split: prod.splits\<close>)
next
  case (sys_workflow_step ch w se w1 ce now aenv now' w' st)
  have w1: "wd_mktRepo w1 = wd_mktRepo w" using sys_workflow_step(2) by (auto simp: w_recv_screened_def split: prod.splits)
  have conf: "conforming (Tracking se)" using world_conf_recv_screened sys_workflow_step by auto
  from sys_workflow_step(4) show ?case
  proof (cases rule: sys_workflow_cases)
    case no_workflow
    with sys_workflow_step w1 show ?thesis by simp
  next
    case (workflow wf c' h r ok)
    have "cc_UserID c' = UserID (Tracking se)" by (simp add: workflow(2) new_contact_def)
    then have "repo_contact u (wd_mktRepo w') = (if u = UserID (Tracking se) then Some c' else repo_contact u (wd_mktRepo w))"
      using memory_marketing.save_contact [of c' "wd_mktRepo w1" _ u] w1 by (simp add: workflow(5) SaveCRMContact_def)
    moreover have "contact_from (Some c') se" using workflow(1,2) unfolding contact_from_def by blast
    ultimately show ?thesis
      using sys_workflow_step(3,6) conf by (auto simp: made_by_def split: if_splits)
  qed
next
  case (sys_purge_step sha256 now1 now2 r w rep w' st)
  from sys_purge_step(1) show ?case
  proof (cases rule: sys_purge_cases)
    case (ok u')
    have conf: "world_conf w" using sys_purge_step(2) by simp
    have "(if u = u' then None else repo_contact u (wd_mktRepo w)) = Some c"
      using sys_purge_step(3) by (simp only: ok(2) purged_contacts(1) [OF conf] snd_conv)
    then show ?thesis by (simp split: if_splits)
  qed (use sys_purge_step in simp)
qed (auto simp: w_subscribe_raw_def w_subscribe_screened_def w_recv_screened_def split: prod.splits)

lemma contact_run:
  "run sys_step s ops s' \<Longrightarrow> world_conf (snd s) \<Longrightarrow> repo_contact u (wd_mktRepo (snd s')) = Some c \<Longrightarrow>
   repo_contact u (wd_mktRepo (snd s)) = Some c \<or> (\<exists>op \<in> set ops. made_by op u c)"
proof (induction rule: run.induct)
  case (run_cons s op s1 ops s')
  have "repo_contact u (wd_mktRepo (snd s1)) = Some c \<or> (\<exists>op \<in> set ops. made_by op u c)"
    using run_cons.IH world_conf_step [OF run_cons.hyps(1)] run_cons.prems by blast
  with contact_step [OF run_cons.hyps(1) run_cons.prems(1)] show ?case by auto
qed simp

text \<open>
  Nobody is marketed to on the strength of a fraudulent event: every contact in the
  repository, in every reachable state, was made by the marketing worker from an event of that
  user that was screened as clean, is conforming and triggers the contact's workflow, and it
  carries the outcome of its synchronisation, never "pending".
\<close>
theorem contacts_come_from_clean_events:
  assumes "run sys_step (NewMonolith cfg now) ops (st, w)" "w_get_contact u w = Inr c"
  shows "\<exists>ch se. SysWorkflow ch se \<in> set ops \<and> \<not> IsFraudulent se \<and> conforming (Tracking se) \<and>
    UserID (Tracking se) = u \<and> cc_UserID c = u \<and> workflow_of (EventType (Tracking se)) = Some (cc_WorkflowTriggered c) \<and>
    cc_Email c = email_of (Tracking se) \<and> cc_SyncStatus c \<in> {''synced'', ''failed''}"
proof -
  have "repo_contact u (wd_mktRepo (snd (st, w))) = Some c"
    using assms(2) by (auto simp: w_get_contact_def GetCRMContact_def split: option.splits)
  from contact_run [OF assms(1) world_conf_New this] have "(\<exists>op \<in> set ops. made_by op u c)"
    by (simp add: NewMonolith_def NewMemoryMarketingRepository_def)
  then obtain ch se where se: "SysWorkflow ch se \<in> set ops" "\<not> IsFraudulent se" "conforming (Tracking se)"
      "UserID (Tracking se) = u" "contact_from (Some c) se"
    by (auto simp: made_by_def)
  from se(4,5) have "cc_UserID c = u \<and> workflow_of (EventType (Tracking se)) = Some (cc_WorkflowTriggered c) \<and>
      cc_Email c = email_of (Tracking se) \<and> cc_SyncStatus c \<in> {''synced'', ''failed''}"
    by (auto simp: contact_from_def new_contact_def split: if_splits)
  with se(1-4) show ?thesis by blast
qed

theorem contacts_come_from_clean_events_witness:
  "\<exists>ops st w c. run sys_step (NewMonolith cfg0 0) ops (st, w) \<and> w_get_contact ''u1'' w = Inr c \<and>
     cc_UserID c = ''u1'' \<and> cc_SyncStatus c \<in> {''synced'', ''failed''}"
proof -
  obtain ops st w c where s: "run sys_step (NewMonolith cfg0 0) ops (st, w)" "w_get_contact ''u1'' w = Inr c"
    using sample_marketed by blast
  from contacts_come_from_clean_events [OF s] s show ?thesis by blast
qed

text \<open>
  C21: No screened event is lost to marketing on shutdown either: with the broker closed and a
  live context the marketing worker takes every event that waits, never crashes whatever the CRM
  answers, and returns nil; afterwards the contact of a user is the one of the last clean
  event with a workflow that waited for the user, and is as before if there was none.
\<close>
theorem marketing_worker_drains:
  assumes "run sys_step (NewMonolith cfg now) ops (st, w)" "br_closed (wd_broker w)" "ch < length (screenedSubs (wd_broker w))"
    and "length (buffered (screenedSubs (wd_broker w)) ch) < length turns" "\<forall>t \<in> set turns. tn_done t = None"
  shows "\<exists>w'. consume (marketing_recv ch) (marketing_handle ce aenv) turns w = Returned None w' \<and>
    buffered (screenedSubs (wd_broker w')) ch = [] \<and>
    contacts_after (\<lambda>u. repo_contact u (wd_mktRepo w)) (buffered (screenedSubs (wd_broker w)) ch) w'"
proof -
  let ?base = "\<lambda>u. repo_contact u (wd_mktRepo w)"
  have "world_ok w" using world_ok_run [OF assms(1)] by simp
  then have "marketed_so_far ch ?base [] w"
    using assms(3)
    by (simp add: marketed_so_far_def world_ok_def world_conf_def broker_conf_def contacts_after_def triggers_def)
  from marketing_worker.drains [OF this, of turns ce aenv] assms(2,4,5) show ?thesis
    by (auto simp: marketing_queue_def marketed_so_far_def)
qed

theorem marketing_worker_drains_witness:
  "\<exists>w w' c. br_closed (wd_broker w) \<and>
     consume (marketing_recv 0) (marketing_handle sample_crm_env (\<lambda>t. flaky_env)) [live_turn, live_turn] w = Returned None w' \<and>
     repo_contact ''u1'' (wd_mktRepo w') = Some c"
proof -
  obtain st w se where s: "run sys_step (NewMonolith cfg0 0) screened_ops (st, w)" "length (screenedSubs (wd_broker w)) = 1"
    "buffered (screenedSubs (wd_broker w)) 0 = [se]" "Tracking se = sample_event" "\<not> IsFraudulent se"
    using sample_screened by blast
  have wf: "broker_wf (wd_broker w)" using world_conf_run [OF s(1)] by (simp add: world_conf_def broker_conf_def)
  obtain b where b: "Close (wd_broker w) = Ret (None, b)" "br_closed b"
      "map ch_buf (screenedSubs b) = map ch_buf (screenedSubs (wd_broker w))"
    using Close_spec [OF wf] by blast
  let ?w = "w\<lparr>wd_broker := b\<rparr>"
  have len: "length (screenedSubs b) = 1" using arg_cong [OF b(3), of length] s(2) by simp
  then have q: "buffered (screenedSubs b) 0 = [se]"
    using arg_cong [OF b(3), of hd] s(2,3)
    by (cases "screenedSubs b"; cases "screenedSubs (wd_broker w)") (auto simp: buffered_def)
  have run: "run sys_step (NewMonolith cfg0 0) (screened_ops @ [SysClose]) (st, ?w)"
    using s(1) sys_close [OF b(1)] by (auto simp: run_append)
  obtain w' where w': "consume (marketing_recv 0) (marketing_handle sample_crm_env (\<lambda>t. flaky_env)) [live_turn, live_turn] ?w = Returned None w'"
      "contacts_after (\<lambda>u. repo_contact u (wd_mktRepo ?w)) [se] w'"
    using marketing_worker_drains [OF run, of 0 "[live_turn, live_turn]" sample_crm_env "\<lambda>t. flaky_env"] b(2) len q
    by (auto simp: live_turn_def)
  have "triggers ''u1'' [se] = [se]"
    using s(4,5) by (simp add: triggers_def sample_event_def workflow_of_def)
  then have "contact_from (repo_contact ''u1'' (wd_mktRepo w')) se"
    using w'(2) unfolding contacts_after_def by (metis last.simps list.distinct(1))
  then obtain c where "repo_contact ''u1'' (wd_mktRepo w') = Some c" by (auto simp: contact_from_def)
  with w'(1) b(2) show ?thesis by (intro exI [of _ ?w] exI [of _ w'] exI [of _ c]) simp
qed

section \<open>Events over Redis\<close>

lemma geo_canonical:
  assumes "go_payload (Payload e)"
  shows "geo_evaluate now (canonical_event e) st = geo_evaluate now e st"
proof (cases "map_get (Payload e) ''country''")
  case (Some v)
  then show ?thesis by (cases v) (simp_all add: geo_evaluate_def map_get_canonical [OF assms])
qed (simp add: geo_evaluate_def map_get_canonical [OF assms])

lemma email_canonical:
  assumes "go_payload (Payload e)"
  shows "email_of (canonical_event e) = email_of e"
proof (cases "map_get (Payload e) ''email''")
  case (Some v)
  then show ?thesis by (cases v) (simp_all add: email_of_def map_get_canonical [OF assms])
qed (simp add: email_of_def map_get_canonical [OF assms])

text \<open>
  C38: The choice of the broker does not change what the services do with an event: an event that
  went through Redis is screened to the same flag, score and reason and leaves the same rule
  state as the event itself, and marketing makes the same contact of it, although
  Redis hands on a copy whose payload has its keys in another order.
\<close>
theorem redis_is_transparent:
  assumes "go_payload (Payload e)"
  shows "screen DefaultRules clock (canonical_event e) st =
      (canonical_screened (fst (screen DefaultRules clock e st)), snd (screen DefaultRules clock e st)) \<and>
    workflow_of (EventType (canonical_event e)) = workflow_of (EventType e) \<and>
    new_contact now workflow (canonical_event e) = new_contact now workflow e"
proof -
  have "fr_evaluate rule t (canonical_event e) st = fr_evaluate rule t e st" if "rule \<in> set DefaultRules" for rule t st
    using that geo_canonical [OF assms]
    by (auto simp: DefaultRules_def BotRule_def RateLimitRule_def GeoVelocityRule_def bot_evaluate_def rate_evaluate_def)
  then have "evaluate_rules rules clock i (canonical_event e) acc = evaluate_rules rules clock i e acc"
    if "set rules \<subseteq> set DefaultRules" for rules i acc
    using that
  proof (induction rules clock i e acc rule: evaluate_rules.induct)
    case (2 rule rules clock i event fraudScore reasons st)
    then show ?case by (simp split: prod.splits)
  qed simp
  then have "evaluate_rules DefaultRules clock 0 (canonical_event e) (0, [], st) =
      evaluate_rules DefaultRules clock 0 e (0, [], st)" by simp
  then show ?thesis
    by (simp add: screen_def canonical_screened_def new_contact_def email_canonical [OF assms] split: prod.splits)
qed

theorem redis_is_transparent_witness:
  "FraudScore (fst (screen DefaultRules (\<lambda>i. 5) (canonical_event redis_sample) NewRuleState)) = f64 (4 / 10) \<and>
   canonical_event redis_sample \<noteq> redis_sample"
proof -
  have "FraudScore (fst (screen DefaultRules (\<lambda>i. 5) redis_sample NewRuleState)) = f64 (4 / 10)"
    by (simp add: screen_default Let_def findings_def bot_hit_def rate_hit_def geo_hit_def redis_sample_def
        zero_tracking_event_def NewRuleState_def in_window_def)
  moreover have "canonical_event redis_sample \<noteq> redis_sample" by code_simp
  ultimately show ?thesis
    using redis_is_transparent [OF redis_sample_ok(2), of "\<lambda>i. 5" NewRuleState] by (simp add: canonical_screened_def)
qed

end
